(* ===== verification/Prelude.thy ===== *)
theory Prelude
  imports Main "HOL-Library.Word"
begin

text \<open>
  Shared vocabulary of the development: Rust's fixed-width integers and their checked
  operations, the early-return style of fallible functions, the byte encodings that feed
  the hash function, and the lemmas on them that the component theories use.

  \<^item> \<open>u8\<close>, \<open>u32\<close>, \<open>u64\<close>, \<open>u128\<close> are words; \<open>i64\<close> is a wrapper over a 64-bit word whose order is
    the signed one. \<open>checked_add\<close>, \<open>checked_sub\<close>, \<open>checked_mul\<close>, \<open>checked_div\<close> and
    \<open>checked_pow\<close> return \<open>None\<close> exactly where the Rust methods do.
  \<^item> A fallible function returns a sum, \<open>Inl\<close> for the error. \<open>require\<close> is the \<^verbatim>\<open>require!\<close>
    macro, \<open>ok_or\<close> and \<open>and_then\<close> are Rust's combinators (the \<^verbatim>\<open>?\<close> operator).
  \<^item> A 32-byte array is a 256-bit word read big-endian, so that the lexicographic order of
    byte arrays is the order of words (\<open>be_bytes_lex\<close>).

  The collection \<open>ok_iff\<close> turns "this call returned \<open>Inr x\<close>" into the conditions on the path.
\<close>

named_theorems ok_iff \<open>a fallible computation returned a value: the conditions on its path\<close>
named_theorems word_nat \<open>machine integers read as natural numbers and integers\<close>

section \<open>Early returns\<close>

definition require :: "bool \<Rightarrow> 'e \<Rightarrow> ('e + 'a) \<Rightarrow> ('e + 'a)" where
  "require c e k = (if c then k else Inl e)"

definition and_then :: "'e + 'a \<Rightarrow> ('a \<Rightarrow> 'e + 'b) \<Rightarrow> 'e + 'b" where
  "and_then m f = (case m of Inl e \<Rightarrow> Inl e | Inr x \<Rightarrow> f x)"

definition ok_or :: "'a option \<Rightarrow> 'e \<Rightarrow> 'e + 'a" where
  "ok_or m e = (case m of None \<Rightarrow> Inl e | Some x \<Rightarrow> Inr x)"

definition map_err :: "('d \<Rightarrow> 'e) \<Rightarrow> 'd + 'a \<Rightarrow> 'e + 'a" where
  "map_err h m = (case m of Inl d \<Rightarrow> Inl (h d) | Inr x \<Rightarrow> Inr x)"

lemma require_Inr [ok_iff]: "require c e k = Inr x \<longleftrightarrow> c \<and> k = Inr x"
  by (simp add: require_def)

lemma and_then_Inr [ok_iff]: "and_then m f = Inr y \<longleftrightarrow> (\<exists>x. m = Inr x \<and> f x = Inr y)"
  by (simp add: and_then_def split: sum.split)

lemma ok_or_Inr [ok_iff]: "ok_or m e = Inr x \<longleftrightarrow> m = Some x"
  by (simp add: ok_or_def split: option.split)

lemma map_err_Inr [ok_iff]: "map_err h m = Inr x \<longleftrightarrow> m = Inr x"
  by (simp add: map_err_def split: sum.split)

lemma require_simps [simp]: "require True e k = k" "require False e k = Inl e"
  by (simp_all add: require_def)

lemma and_then_simps [simp]: "and_then (Inl e) f = Inl e" "and_then (Inr x) f = f x"
  by (simp_all add: and_then_def)

lemma ok_or_simps [simp]: "ok_or None e = Inl e" "ok_or (Some x) e = Inr x"
  by (simp_all add: ok_or_def)

lemma map_err_simps [simp]: "map_err h (Inl d) = Inl (h d)" "map_err h (Inr x) = Inr x"
  by (simp_all add: map_err_def)

text \<open>The tools off chain may also panic; a panic is not an error value the caller can match on.\<close>

datatype 'e failure = Err 'e | Panicked

definition or_panic :: "'a option \<Rightarrow> 'e failure + 'a" where
  "or_panic m = ok_or m Panicked"

lemma or_panic_Inr [ok_iff]: "or_panic m = Inr x \<longleftrightarrow> m = Some x"
  by (simp add: or_panic_def ok_iff)

lemma or_panic_simps [simp]: "or_panic None = Inl Panicked" "or_panic (Some x) = Inr x"
  by (simp_all add: or_panic_def)

text \<open>\<^verbatim>\<open>iter().map(f).collect::<Result<Vec<_>, _>>()\<close>: stops at the first error.\<close>

primrec collect_results :: "('a \<Rightarrow> 'e + 'b) \<Rightarrow> 'a list \<Rightarrow> 'e + 'b list" where
  "collect_results f [] = Inr []"
| "collect_results f (x # xs) =
     and_then (f x) (\<lambda>y. and_then (collect_results f xs) (\<lambda>ys. Inr (y # ys)))"

lemma collect_results_Inr [ok_iff]:
  "collect_results f xs = Inr ys \<longleftrightarrow> list_all2 (\<lambda>x y. f x = Inr y) xs ys"
  by (induction xs arbitrary: ys) (auto simp: ok_iff list_all2_Cons1)

section \<open>Unsigned integers\<close>

type_synonym u8 = "8 word"
type_synonym u32 = "32 word"
type_synonym u64 = "64 word"
type_synonym u128 = "128 word"
type_synonym bytes32 = "256 word"

definition checked_add :: "'a::len word \<Rightarrow> 'a word \<Rightarrow> 'a word option" where
  "checked_add a b = (if unat a + unat b < 2 ^ LENGTH('a) then Some (a + b) else None)"

definition checked_sub :: "'a::len word \<Rightarrow> 'a word \<Rightarrow> 'a word option" where
  "checked_sub a b = (if b \<le> a then Some (a - b) else None)"

definition checked_mul :: "'a::len word \<Rightarrow> 'a word \<Rightarrow> 'a word option" where
  "checked_mul a b = (if unat a * unat b < 2 ^ LENGTH('a) then Some (a * b) else None)"

definition checked_div :: "'a::len word \<Rightarrow> 'a word \<Rightarrow> 'a word option" where
  "checked_div a b = (if b = 0 then None else Some (a div b))"

definition checked_pow :: "'a::len word \<Rightarrow> nat \<Rightarrow> 'a word option" where
  "checked_pow a n = (if unat a ^ n < 2 ^ LENGTH('a) then Some (a ^ n) else None)"

lemma unat_bound [simp]: "unat (a :: 'a::len word) < 2 ^ LENGTH('a)"
  by (rule unsigned_less)

lemma checked_add_Some [word_nat]:
  "checked_add a b = Some c \<longleftrightarrow> unat c = unat a + unat b"
  for a b c :: "'a::len word"
proof
  assume "checked_add a b = Some c"
  then show "unat c = unat a + unat b"
    by (auto simp: checked_add_def unat_word_ariths split: if_splits)
next
  assume c: "unat c = unat a + unat b"
  then have "unat a + unat b < 2 ^ LENGTH('a)" using unat_bound [of c] by simp
  then show "checked_add a b = Some c"
    using c by (auto simp: checked_add_def unat_word_ariths intro!: word_unat_eq_iff [THEN iffD2])
qed

lemma checked_sub_Some [word_nat]:
  "checked_sub a b = Some c \<longleftrightarrow> unat a = unat b + unat c"
  for a b c :: "'a::len word"
proof
  assume "checked_sub a b = Some c"
  then show "unat a = unat b + unat c"
    by (auto simp: checked_sub_def unat_sub word_le_nat_alt split: if_splits)
next
  assume a: "unat a = unat b + unat c"
  then have "b \<le> a" by (simp add: word_le_nat_alt)
  then show "checked_sub a b = Some c"
    using a by (auto simp: checked_sub_def unat_sub intro!: word_unat_eq_iff [THEN iffD2])
qed

lemma checked_mul_Some [word_nat]:
  "checked_mul a b = Some c \<longleftrightarrow> unat c = unat a * unat b"
  for a b c :: "'a::len word"
proof
  assume "checked_mul a b = Some c"
  then show "unat c = unat a * unat b"
    by (auto simp: checked_mul_def unat_word_ariths split: if_splits)
next
  assume c: "unat c = unat a * unat b"
  then have "unat a * unat b < 2 ^ LENGTH('a)" using unat_bound [of c] by simp
  then show "checked_mul a b = Some c"
    using c by (auto simp: checked_mul_def unat_word_ariths intro!: word_unat_eq_iff [THEN iffD2])
qed

lemma checked_div_Some [word_nat]:
  "checked_div a b = Some c \<longleftrightarrow> unat b \<noteq> 0 \<and> unat c = unat a div unat b"
  for a b c :: "'a::len word"
proof -
  have eq: "a div b = c \<longleftrightarrow> unat c = unat a div unat b"
    by (metis unat_div unsigned_word_eqI)
  show ?thesis
    unfolding checked_div_def unat_0_iff using eq by simp
qed

lemma checked_pow_Some [word_nat]:
  "checked_pow a n = Some c \<longleftrightarrow> unat c = unat a ^ n"
  for a c :: "'a::len word"
proof -
  have pow: "unat (a ^ n) = unat a ^ n mod 2 ^ LENGTH('a)"
    by (induction n) (auto simp: unat_word_ariths mod_mult_right_eq)
  show ?thesis
  proof
    assume "checked_pow a n = Some c"
    then show "unat c = unat a ^ n" by (auto simp: checked_pow_def pow split: if_splits)
  next
    assume c: "unat c = unat a ^ n"
    then have "unat a ^ n < 2 ^ LENGTH('a)" using unat_bound [of c] by simp
    then show "checked_pow a n = Some c"
      using c by (auto simp: checked_pow_def pow intro!: word_unat_eq_iff [THEN iffD2])
  qed
qed

lemma checked_add_ok:
  "unat a + unat b < 2 ^ LENGTH('a) \<Longrightarrow> checked_add a b = Some (a + b)"
  for a b :: "'a::len word"
  by (simp add: checked_add_def)

lemma unat_add_ok: "unat a + unat b < 2 ^ LENGTH('a) \<Longrightarrow> unat (a + b) = unat a + unat b"
  for a b :: "'a::len word"
  by (simp add: unat_word_ariths)

lemma checked_add_None [word_nat]:
  "checked_add a b = None \<longleftrightarrow> 2 ^ LENGTH('a) \<le> unat a + unat b"
  for a b :: "'a::len word"
  by (simp add: checked_add_def not_less)

lemma checked_sub_None [word_nat]: "checked_sub a b = None \<longleftrightarrow> unat a < unat b"
  for a b :: "'a::len word"
  by (simp add: checked_sub_def word_le_nat_alt not_le)

lemma unat_u64_bound: "unat (x :: u64) < 18446744073709551616"
  using unat_bound [of x] by simp

lemma checked_add_cases:
  fixes a b :: "'a::len word"
  obtains (ok) c where "checked_add a b = Some c" "unat c = unat a + unat b"
    | (overflow) "checked_add a b = None" "2 ^ LENGTH('a) \<le> unat a + unat b"
  by (cases "checked_add a b") (auto simp flip: checked_add_Some checked_add_None)

lemma checked_add_within:
  fixes a b m :: "'a::len word"
  assumes "unat a + unat b \<le> unat m"
  obtains c where "checked_add a b = Some c" "unat c = unat a + unat b" "c \<le> m"
  using assms unat_bound [of m]
  by (cases rule: checked_add_cases [of a b]) (auto simp: word_le_nat_alt intro: that)

lemma checked_mul_None [word_nat]:
  "checked_mul a b = None \<longleftrightarrow> 2 ^ LENGTH('a) \<le> unat a * unat b"
  for a b :: "'a::len word"
  by (simp add: checked_mul_def not_less)

lemma checked_div_None [word_nat]: "checked_div a b = None \<longleftrightarrow> unat b = 0"
  for a b :: "'a::len word"
  by (simp add: checked_div_def unat_eq_0)

section \<open>Signed 64-bit integers\<close>

datatype i64 = I64 (i64_bits: "64 word")

definition ival :: "i64 \<Rightarrow> int" where
  "ival x = sint (i64_bits x)"

definition i64_of :: "int \<Rightarrow> i64" where
  "i64_of n = I64 (word_of_int n)"

abbreviation i64_range :: "int \<Rightarrow> bool" where
  "i64_range n \<equiv> - (2 ^ 63) \<le> n \<and> n < 2 ^ 63"

lemma ival_range [simp]: "i64_range (ival x)"
  using sint_range_size [of "i64_bits x"] by (simp add: ival_def word_size)

lemma ival_i64_of [simp]: "i64_range n \<Longrightarrow> ival (i64_of n) = n"
  by (simp add: ival_def i64_of_def sint_sbintrunc' signed_take_bit_int_eq_self)

lemma ival_eq_iff: "ival x = ival y \<longleftrightarrow> x = y"
  by (cases x; cases y) (auto simp: ival_def intro: signed_word_eqI)

instantiation i64 :: linorder
begin

definition less_eq_i64 :: "i64 \<Rightarrow> i64 \<Rightarrow> bool" where
  "x \<le> y \<longleftrightarrow> ival x \<le> ival y"

definition less_i64 :: "i64 \<Rightarrow> i64 \<Rightarrow> bool" where
  "x < y \<longleftrightarrow> ival x < ival y"

instance
  by standard (auto simp: less_eq_i64_def less_i64_def ival_eq_iff [symmetric])

end

lemmas i64_order [word_nat] = less_eq_i64_def less_i64_def

definition checked_add_i64 :: "i64 \<Rightarrow> i64 \<Rightarrow> i64 option" where
  "checked_add_i64 x y =
     (if i64_range (ival x + ival y) then Some (i64_of (ival x + ival y)) else None)"

definition checked_sub_i64 :: "i64 \<Rightarrow> i64 \<Rightarrow> i64 option" where
  "checked_sub_i64 x y =
     (if i64_range (ival x - ival y) then Some (i64_of (ival x - ival y)) else None)"

lemma checked_add_i64_Some [word_nat]:
  "checked_add_i64 x y = Some z \<longleftrightarrow> ival z = ival x + ival y"
  using ival_range [of z] by (auto simp: checked_add_i64_def ival_eq_iff [symmetric])

lemma checked_sub_i64_Some [word_nat]:
  "checked_sub_i64 x y = Some z \<longleftrightarrow> ival z = ival x - ival y"
  using ival_range [of z] by (auto simp: checked_sub_i64_def ival_eq_iff [symmetric])

lemma checked_sub_i64_None [word_nat]:
  "checked_sub_i64 x y = None \<longleftrightarrow> \<not> i64_range (ival x - ival y)"
  by (simp add: checked_sub_i64_def)

section \<open>Casts\<close>

definition u64_as_u128 :: "u64 \<Rightarrow> u128" where "u64_as_u128 x = ucast x"
definition u128_as_u64 :: "u128 \<Rightarrow> u64" where "u128_as_u64 x = ucast x"
definition i64_as_u128 :: "i64 \<Rightarrow> u128" where "i64_as_u128 x = scast (i64_bits x)"

lemma unat_u64_as_u128 [word_nat]: "unat (u64_as_u128 x) = unat x"
proof -
  have "unat x < 2 ^ 64" using unat_bound [of x] by simp
  then have "unat x < 2 ^ 128" by simp
  then show ?thesis by (simp add: u64_as_u128_def unsigned_ucast_eq take_bit_nat_eq_self)
qed

lemma unat_u128_as_u64 [word_nat]: "unat (u128_as_u64 x) = unat x mod 2 ^ 64"
  by (simp add: u128_as_u64_def unsigned_ucast_eq take_bit_eq_mod)

lemma unat_i64_as_u128 [word_nat]:
  assumes "0 \<le> ival x"
  shows "unat (i64_as_u128 x) = nat (ival x)"
proof -
  have "uint (word_of_int (sint (i64_bits x)) :: u128) = sint (i64_bits x) mod 2 ^ LENGTH(128)"
    by (rule uint_word_of_int)
  then have "uint (scast (i64_bits x) :: u128) = sint (i64_bits x) mod 2 ^ 128"
    unfolding scast_eq by (simp only: len_of_numeral_defs) simp
  also have "\<dots> = sint (i64_bits x)"
    using assms ival_range [of x] by (intro mod_pos_pos_trivial) (auto simp: ival_def)
  finally show ?thesis by (simp add: i64_as_u128_def ival_def flip: nat_uint_eq)
qed

section \<open>Byte arrays\<close>

text \<open>
  \<open>le_bytes\<close> is Rust's \<^verbatim>\<open>to_le_bytes\<close>. A \<^verbatim>\<open>[u8; 32]\<close> (a hash, a root, the bytes of a public
  key) is the 256-bit word whose big-endian bytes are the array, so that the derived
  (lexicographic) order of arrays is the order of words.
\<close>

definition le_bytes :: "'a::len word \<Rightarrow> u8 list" where
  "le_bytes w = map (\<lambda>i. ucast (drop_bit (8 * i) w)) [0..<LENGTH('a) div 8]"

definition be_bytes :: "'a::len word \<Rightarrow> u8 list" where
  "be_bytes w = rev (le_bytes w)"

lemma length_le_bytes [simp]: "length (le_bytes (w :: 'a::len word)) = LENGTH('a) div 8"
  by (simp add: le_bytes_def)

lemma length_be_bytes [simp]: "length (be_bytes (w :: 'a::len word)) = LENGTH('a) div 8"
  by (simp add: be_bytes_def)

lemma unat_byte: "unat (ucast (drop_bit n w) :: u8) = unat w div 2 ^ n mod 256"
  for w :: "'a::len word"
proof -
  have "unat (drop_bit n w) = drop_bit n (take_bit LENGTH('a) (unat w))"
    by (rule unsigned_drop_bit_eq)
  then have "unat (drop_bit n w) = unat w div 2 ^ n"
    by (simp only: drop_bit_eq_div take_bit_nat_eq_self [OF unat_bound])
  moreover have "unat (ucast (drop_bit n w) :: u8) = unat (drop_bit n w) mod 2 ^ LENGTH(8)"
    by (simp only: unsigned_ucast_eq take_bit_eq_mod)
  ultimately show ?thesis by simp
qed

lemma horner_le_bytes:
  "horner_sum unat 256 (map (\<lambda>i. ucast (drop_bit (8 * i) w) :: u8) [0..<n])
     = unat w mod 2 ^ (8 * n)"
proof (induction n)
  case 0
  show ?case by simp
next
  case (Suc n)
  have "(2::nat) ^ (8 * Suc n) = 2 ^ (8 * n) * 256" by (simp add: power_add)
  then have "unat w mod 2 ^ (8 * Suc n)
      = 2 ^ (8 * n) * (unat w div 2 ^ (8 * n) mod 256) + unat w mod 2 ^ (8 * n)"
    by (simp add: mod_mult2_eq)
  moreover have "(256::nat) ^ n = 2 ^ (8 * n)" by (simp add: power_mult)
  ultimately show ?case
    using Suc.IH by (simp add: horner_sum_append unat_byte)
qed

lemma unat_le_bytes:
  assumes "8 dvd LENGTH('a)"
  shows "horner_sum unat 256 (le_bytes w) = unat (w :: 'a::len word)"
proof -
  have "8 * (LENGTH('a) div 8) = LENGTH('a)" using assms by simp
  then show ?thesis using horner_le_bytes [of w "LENGTH('a) div 8"]
    by (simp add: le_bytes_def del: of_nat_mod)
qed

lemma le_bytes_inject:
  assumes "8 dvd LENGTH('a)"
  shows "le_bytes (v :: 'a::len word) = le_bytes w \<longleftrightarrow> v = w"
  by (metis unat_le_bytes [OF assms] unsigned_word_eqI)

lemma be_bytes_inject:
  assumes "8 dvd LENGTH('a)"
  shows "be_bytes (v :: 'a::len word) = be_bytes w \<longleftrightarrow> v = w"
  by (simp add: be_bytes_def le_bytes_inject [OF assms])

lemma be_bytes32_inject [simp]: "be_bytes (v :: bytes32) = be_bytes w \<longleftrightarrow> v = w"
  by (rule be_bytes_inject) simp

lemma le_bytes_u64_inject [simp]: "le_bytes (v :: u64) = le_bytes w \<longleftrightarrow> v = w"
  by (rule le_bytes_inject) simp

fun digits_val :: "u8 list \<Rightarrow> nat" where
  "digits_val [] = 0"
| "digits_val (b # bs) = unat b * 256 ^ length bs + digits_val bs"

lemma digits_val_bound: "digits_val bs < 256 ^ length bs"
proof (induction bs)
  case Nil
  show ?case by simp
next
  case (Cons b bs)
  have "unat b < 2 ^ LENGTH(8)" by (rule unat_bound)
  then have "unat b \<le> 255" by simp
  then have "unat b * 256 ^ length bs \<le> 255 * 256 ^ length bs" by (rule mult_le_mono1)
  with Cons.IH have "unat b * 256 ^ length bs + digits_val bs < 256 * 256 ^ length bs"
    by linarith
  then show ?case by simp
qed

lemma digits_val_snoc: "digits_val (bs @ [b]) = 256 * digits_val bs + unat b"
  by (induction bs) (simp_all add: algebra_simps)

lemma digits_val_be_bytes:
  assumes "8 dvd LENGTH('a)"
  shows "digits_val (be_bytes w) = unat (w :: 'a::len word)"
proof -
  have "digits_val (rev bs) = horner_sum unat 256 bs" for bs :: "u8 list"
  proof (induction bs)
    case Nil
    show ?case by simp
  next
    case (Cons b bs)
    then show ?case by (simp add: digits_val_snoc)
  qed
  then show ?thesis by (simp only: be_bytes_def unat_le_bytes [OF assms])
qed

lemma digits_val_lex:
  "length bs = length cs \<Longrightarrow> ord_class.lexordp bs cs \<longleftrightarrow> digits_val bs < digits_val cs"
proof (induction bs cs rule: list_induct2)
  case Nil
  show ?case by simp
next
  case (Cons b bs c cs)
  have step: "x < y \<Longrightarrow> x * 256 ^ length bs + digits_val ds < y * 256 ^ length bs + digits_val es"
    if "length ds = length bs" for x y ds es
  proof -
    assume "x < y"
    then have "Suc x * 256 ^ length bs \<le> y * 256 ^ length bs" by (intro mult_le_mono1) simp
    then show ?thesis using digits_val_bound [of ds] that by simp
  qed
  consider "b < c" | "b = c" | "c < b" by (rule linorder_cases)
  then show ?case
  proof cases
    case 1
    then show ?thesis using step [of bs "unat b" "unat c" cs] Cons.hyps
      by (simp add: word_less_nat_alt)
  next
    case 2
    then show ?thesis using Cons by simp
  next
    case 3
    then show ?thesis using step [of cs "unat c" "unat b" bs] Cons.hyps
      by (simp add: word_less_nat_alt)
  qed
qed

lemma be_bytes_lex: "ord_class.lexordp (be_bytes v) (be_bytes w) \<longleftrightarrow> v < w" for v w :: bytes32
  by (subst digits_val_lex) (simp_all add: digits_val_be_bytes word_less_nat_alt)

section \<open>Public keys\<close>

datatype pubkey = Pubkey (key_word: bytes32)

definition to_bytes :: "pubkey \<Rightarrow> u8 list" where
  "to_bytes k = be_bytes (key_word k)"

lemma to_bytes_inject [simp]: "to_bytes j = to_bytes k \<longleftrightarrow> j = k"
  by (cases j; cases k) (simp add: to_bytes_def)

lemma length_to_bytes [simp]: "length (to_bytes k) = 32"
  by (simp add: to_bytes_def)

instantiation pubkey :: linorder
begin

definition less_eq_pubkey :: "pubkey \<Rightarrow> pubkey \<Rightarrow> bool" where
  "j \<le> k \<longleftrightarrow> key_word j \<le> key_word k"

definition less_pubkey :: "pubkey \<Rightarrow> pubkey \<Rightarrow> bool" where
  "j < k \<longleftrightarrow> key_word j < key_word k"

instance
  by standard (auto simp: less_eq_pubkey_def less_pubkey_def intro: pubkey.expand)

end

end
