(* ===== verification/Program_Error.thy ===== *)
theory Program_Error
  imports Prelude
begin

text \<open>
  The errors an instruction can end with: the program's own codes
  (\<^verbatim>\<open>programs/merkle-distributor/src/error.rs\<close>), the checks Anchor derives from the
  \<^verbatim>\<open>#[derive(Accounts)]\<close> structures, a failed call into another program, and a panic (release
  builds keep \<^verbatim>\<open>overflow-checks = true\<close>, so an arithmetic overflow panics).
\<close>

datatype error_code =
    InsufficientUnlockedTokens
  | StartTooFarInFuture
  | InvalidProof
  | ExceededMaxClaim
  | MaxNodesExceeded
  | Unauthorized
  | OwnerMismatch
  | ClawbackDuringVesting
  | ClawbackBeforeStart
  | ClawbackAlreadyClaimed
  | InsufficientClawbackDelay
  | SameClawbackReceiver
  | SameAdmin
  | ClaimExpired
  | ArithmeticError
  | StartTimestampAfterEnd
  | TimestampsNotInFuture
  | InvalidVersion
  | ClaimingIsNotStarted
  | CannotCloseDistributor
  | CannotCloseClaimStatus
  | MintNotReRootable
  | DistributorNotPaused
  | RootMismatch
  | MaxTotalClaimIncrease
  | ClaimCountMismatch

datatype anchor_error =
    AccountNotInitialized
  | AccountAlreadyInUse
  | AccountNotSigner
  | InvalidProgramId
  | ConstraintSeeds
  | ConstraintAddress
  | ConstraintHasOne
  | ConstraintAssociated
  | ConstraintTokenMint
  | ConstraintTokenOwner
  | ConstraintTokenTokenProgram
  | PrivilegeEscalation

datatype program_error =
    ErrorCode error_code
  | AnchorError anchor_error
  | CpiError string
  | Panic

end
