(* ===== verification/Claim_Status.thy ===== *)
theory Claim_Status
  imports Program_Error
begin

text \<open>
  \<^verbatim>\<open>programs/merkle-distributor/src/state/claim_status.rs\<close>: the per-claimant account and its two
  vesting computations. The locked part vests linearly (\<open>unlocked_amount\<close>); the unlocked part
  pays half at the start of the window and the rest linearly, and is claimed once
  (\<open>update_unlocked_amount_claimed\<close>). Both are computed with checked 64- and 128-bit arithmetic.

  \<open>linear_vested\<close> and \<open>bonus_vested\<close> are the schedules on unbounded integers;
  \<open>unlocked_amount_refines\<close> and \<open>update_unlocked_refines\<close> show that the machine computation
  returns them, with no truncation, whenever the length of the window fits an \<open>i64\<close>. The
  locale \<open>vesting_schedule\<close> states what the distributor relies on of a schedule; both schedules
  interpret it.
\<close>

section \<open>The account\<close>

record claim_status =
  cs_claimant :: pubkey
  cs_locked_amount :: u64
  cs_locked_amount_withdrawn :: u64
  cs_unlocked_amount :: u64
  cs_unlocked_amount_claimed :: u64
  cs_closable :: bool
  cs_distributor :: pubkey

definition claim_status_default :: claim_status where
  "claim_status_default =
     \<lparr>cs_claimant = Pubkey 0, cs_locked_amount = 0, cs_locked_amount_withdrawn = 0,
      cs_unlocked_amount = 0, cs_unlocked_amount_claimed = 0, cs_closable = False,
      cs_distributor = Pubkey 0\<rparr>"

text \<open>An account's data: the discriminator and the fields in order, little endian.\<close>

definition account_data :: "u8 list \<Rightarrow> claim_status \<Rightarrow> u8 list" where
  "account_data discriminator cs =
     discriminator @ to_bytes (cs_claimant cs) @ le_bytes (cs_locked_amount cs) @ le_bytes (cs_locked_amount_withdrawn cs)
     @ le_bytes (cs_unlocked_amount cs) @ le_bytes (cs_unlocked_amount_claimed cs)
     @ [if cs_closable cs then 1 else 0] @ to_bytes (cs_distributor cs)"

definition START_CLAIM_PCT :: u128 where "START_CLAIM_PCT = 500000"
definition PCT_PRECISION :: u128 where "PCT_PRECISION = 1000000"

section \<open>The operations\<close>

definition unlocked_amount :: "claim_status \<Rightarrow> i64 \<Rightarrow> i64 \<Rightarrow> i64 \<Rightarrow> program_error + u64" where
  "unlocked_amount cs curr_ts start_ts end_ts =
     (if start_ts \<le> curr_ts then
        if end_ts \<le> curr_ts then Inr (cs_locked_amount cs)
        else
          and_then (ok_or (checked_sub_i64 curr_ts start_ts) (ErrorCode ArithmeticError))
            (\<lambda>time_into_unlock.
          and_then (ok_or (checked_sub_i64 end_ts start_ts) (ErrorCode ArithmeticError))
            (\<lambda>total_unlock_time.
          and_then (ok_or (checked_mul (i64_as_u128 time_into_unlock)
                                       (u64_as_u128 (cs_locked_amount cs)))
                          (ErrorCode ArithmeticError)) (\<lambda>product.
          and_then (ok_or (checked_div product (i64_as_u128 total_unlock_time))
                          (ErrorCode ArithmeticError)) (\<lambda>quotient.
          Inr (u128_as_u64 quotient)))))
      else Inr 0)"

definition amount_withdrawable :: "claim_status \<Rightarrow> i64 \<Rightarrow> i64 \<Rightarrow> i64 \<Rightarrow> program_error + u64" where
  "amount_withdrawable cs curr_ts start_ts end_ts =
     and_then (unlocked_amount cs curr_ts start_ts end_ts) (\<lambda>vested.
     ok_or (checked_sub vested (cs_locked_amount_withdrawn cs)) (ErrorCode ArithmeticError))"

definition update_unlocked_amount_claimed ::
  "claim_status \<Rightarrow> i64 \<Rightarrow> i64 \<Rightarrow> i64 \<Rightarrow> program_error + claim_status" where
  "update_unlocked_amount_claimed cs curr_ts start_ts end_ts =
     (if start_ts \<le> curr_ts then
        if end_ts \<le> curr_ts then
          Inr (cs\<lparr>cs_unlocked_amount_claimed := cs_unlocked_amount cs\<rparr>)
        else
          and_then (ok_or (checked_sub_i64 curr_ts start_ts) (ErrorCode ArithmeticError))
            (\<lambda>time_into_unlock.
          and_then (ok_or (checked_sub_i64 end_ts start_ts) (ErrorCode ArithmeticError))
            (\<lambda>total_unlock_time.
          and_then (ok_or (checked_mul (u64_as_u128 (cs_unlocked_amount cs)) START_CLAIM_PCT)
                          (ErrorCode ArithmeticError)) (\<lambda>scaled.
          and_then (ok_or (checked_div scaled PCT_PRECISION) (ErrorCode ArithmeticError))
            (\<lambda>start_quotient. let start_amount = u128_as_u64 start_quotient in
          and_then (ok_or (checked_sub (cs_unlocked_amount cs) start_amount)
                          (ErrorCode ArithmeticError)) (\<lambda>rest.
          and_then (ok_or (checked_mul (i64_as_u128 time_into_unlock) (u64_as_u128 rest))
                          (ErrorCode ArithmeticError)) (\<lambda>product.
          and_then (ok_or (checked_div product (i64_as_u128 total_unlock_time))
                          (ErrorCode ArithmeticError)) (\<lambda>bonus_quotient.
          let bonus_amount = u128_as_u64 bonus_quotient in
          and_then (ok_or (checked_add start_amount bonus_amount) (ErrorCode ArithmeticError))
            (\<lambda>claimed. Inr (cs\<lparr>cs_unlocked_amount_claimed := claimed\<rparr>)))))))))
      else Inl (ErrorCode ClaimingIsNotStarted))"

definition get_unlocked_amount_forgone :: "claim_status \<Rightarrow> program_error + u64" where
  "get_unlocked_amount_forgone cs =
     ok_or (checked_sub (cs_unlocked_amount cs) (cs_unlocked_amount_claimed cs))
           (ErrorCode ArithmeticError)"

section \<open>The schedules on unbounded integers\<close>

definition linear_vested :: "nat \<Rightarrow> int \<Rightarrow> int \<Rightarrow> int \<Rightarrow> nat" where
  "linear_vested amount t s e =
     (if t < s then 0 else if e \<le> t then amount else nat (t - s) * amount div nat (e - s))"

definition bonus_vested :: "nat \<Rightarrow> int \<Rightarrow> int \<Rightarrow> int \<Rightarrow> nat" where
  "bonus_vested amount t s e =
     (if t < s then 0 else amount div 2 + linear_vested (amount - amount div 2) t s e)"

text \<open>The window is one the machine arithmetic can measure.\<close>

definition window_fits :: "i64 \<Rightarrow> i64 \<Rightarrow> bool" where
  "window_fits start_ts end_ts \<longleftrightarrow> ival end_ts - ival start_ts < 2 ^ 63"

section \<open>What the distributor relies on of a schedule\<close>

locale vesting_schedule =
  fixes vested :: "nat \<Rightarrow> int \<Rightarrow> int \<Rightarrow> int \<Rightarrow> nat"
  assumes before_start: "t < s \<Longrightarrow> vested a t s e = 0"
    and at_end: "s \<le> t \<Longrightarrow> e \<le> t \<Longrightarrow> vested a t s e = a"
    and later_is_more: "t \<le> t' \<Longrightarrow> vested a t s e \<le> vested a t' s e"
begin

lemma at_most_all: "vested a t s e \<le> a"
proof -
  have "vested a t s e \<le> vested a (max t (max s e)) s e" by (rule later_is_more) simp
  also have "\<dots> = a" by (rule at_end) simp_all
  finally show ?thesis .
qed

text \<open>Withdrawing at times \<open>ts\<close>, each time everything vested and not yet withdrawn, takes out in
  total what is vested at the last of them: withdrawing more often gains nothing.\<close>

lemma withdrawals_telescope:
  assumes "sorted (t # ts)" and "w \<le> vested a t s e"
  shows "fold (\<lambda>u taken. taken + (vested a u s e - taken)) (t # ts) w = vested a (last (t # ts)) s e"
  using assms
proof (induction ts arbitrary: t w)
  case Nil
  then show ?case by simp
next
  case (Cons u ts)
  have "vested a t s e \<le> vested a u s e" using Cons.prems(1) by (intro later_is_more) simp
  then have "fold (\<lambda>u taken. taken + (vested a u s e - taken)) (u # ts) (vested a t s e)
      = vested a (last (u # ts)) s e"
    using Cons.prems(1) by (intro Cons.IH) auto
  then show ?case using Cons.prems(2) by simp
qed

end

lemma linear_vested_mono: "t \<le> t' \<Longrightarrow> linear_vested a t s e \<le> linear_vested a t' s e"
proof -
  assume le: "t \<le> t'"
  show ?thesis
  proof (cases "s \<le> t \<and> t < e")
    case in_window: True
    show ?thesis
    proof (cases "t' < e")
      case True
      have "nat (t - s) * a \<le> nat (t' - s) * a" using le by (intro mult_le_mono1) simp
      then show ?thesis
        using in_window True le by (auto simp: linear_vested_def intro: div_le_mono)
    next
      case False
      have "nat (t - s) * a \<le> nat (e - s) * a" using in_window by (intro mult_le_mono1) auto
      then have "nat (t - s) * a div nat (e - s) \<le> nat (e - s) * a div nat (e - s)"
        by (rule div_le_mono)
      also have "\<dots> = a" using in_window by simp
      finally have "nat (t - s) * a div nat (e - s) \<le> a" .
      then show ?thesis using in_window False le by (simp add: linear_vested_def)
    qed
  next
    case False
    then show ?thesis using le by (auto simp: linear_vested_def)
  qed
qed

interpretation linear: vesting_schedule linear_vested
  by unfold_locales (auto intro: linear_vested_mono, auto simp: linear_vested_def)

interpretation bonus: vesting_schedule bonus_vested
proof unfold_locales
  show "bonus_vested a t s e \<le> bonus_vested a t' s e" if "t \<le> t'" for a t t' s e
    using that linear_vested_mono [OF that] by (auto simp: bonus_vested_def)
qed (simp_all add: bonus_vested_def linear_vested_def)

section \<open>The machine computation returns the schedule\<close>

text \<open>The share \<open>elapsed * amount / total\<close> neither overflows 128 bits nor is truncated to 64.\<close>

lemma share_u128:
  assumes "0 \<le> ival elapsed" and "ival elapsed \<le> ival tot" and "0 < ival tot"
  obtains p q where "checked_mul (i64_as_u128 elapsed) (u64_as_u128 amount) = Some p"
    and "checked_div p (i64_as_u128 tot) = Some q"
    and "unat (u128_as_u64 q) = nat (ival elapsed) * unat amount div nat (ival tot)"
proof -
  let ?el = "nat (ival elapsed)" and ?to = "nat (ival tot)" and ?am = "unat amount"
  have el: "?el < 2 ^ 63" using ival_range [of elapsed] assms(1) by (simp add: nat_less_iff)
  have am: "?am < 2 ^ 64" using unat_bound [of amount] by simp
  have "?el * ?am < 2 ^ 63 * 2 ^ 64" using el am by (intro mult_strict_mono) auto
  then have "?el * ?am < 2 ^ 128" by simp
  then have "checked_mul (i64_as_u128 elapsed) (u64_as_u128 amount) \<noteq> None"
    unfolding checked_mul_None unat_i64_as_u128 [OF assms(1)] unat_u64_as_u128 by simp
  then obtain p where p: "checked_mul (i64_as_u128 elapsed) (u64_as_u128 amount) = Some p"
    by blast
  then have up: "unat p = ?el * ?am" using assms(1) by (simp add: word_nat)
  have "checked_div p (i64_as_u128 tot) \<noteq> None"
    using assms(3) by (simp add: checked_div_None unat_i64_as_u128)
  then obtain q where q: "checked_div p (i64_as_u128 tot) = Some q" by blast
  then have uq: "unat q = ?el * ?am div ?to" using assms(3) up by (simp add: word_nat)
  have "?el * ?am div ?to \<le> ?to * ?am div ?to"
    using assms(2) by (intro div_le_mono mult_le_mono1) simp
  then have "unat q \<le> ?am" using assms(3) uq by simp
  then have "unat (u128_as_u64 q) = unat q" using am by (simp add: word_nat)
  then show thesis using that [OF p q] uq by simp
qed

lemma unlocked_amount_refines:
  assumes "window_fits start_ts end_ts"
  obtains r where "unlocked_amount cs curr_ts start_ts end_ts = Inr r"
    and "unat r = linear_vested (unat (cs_locked_amount cs)) (ival curr_ts) (ival start_ts) (ival end_ts)"
proof (cases "start_ts \<le> curr_ts \<and> curr_ts < end_ts")
  case False
  then show ?thesis
    by (intro that [of "if start_ts \<le> curr_ts then cs_locked_amount cs else 0"])
      (auto simp: unlocked_amount_def linear_vested_def word_nat)
next
  case True
  then have inside: "\<not> end_ts \<le> curr_ts" by auto
  let ?el = "i64_of (ival curr_ts - ival start_ts)" and ?to = "i64_of (ival end_ts - ival start_ts)"
  have fits: "i64_range (ival curr_ts - ival start_ts)" "i64_range (ival end_ts - ival start_ts)"
    using True assms ival_range [of end_ts] by (auto simp: window_fits_def word_nat)
  then have subs: "checked_sub_i64 curr_ts start_ts = Some ?el" "checked_sub_i64 end_ts start_ts = Some ?to"
    by (simp_all add: checked_sub_i64_def)
  have "0 \<le> ival ?el" "ival ?el \<le> ival ?to" "0 < ival ?to"
    using True fits by (auto simp: word_nat)
  then obtain p q where pq: "checked_mul (i64_as_u128 ?el) (u64_as_u128 (cs_locked_amount cs)) = Some p"
    "checked_div p (i64_as_u128 ?to) = Some q"
    "unat (u128_as_u64 q) = nat (ival ?el) * unat (cs_locked_amount cs) div nat (ival ?to)"
    by (rule share_u128)
  show ?thesis
  proof (rule that)
    show "unlocked_amount cs curr_ts start_ts end_ts = Inr (u128_as_u64 q)"
      using True inside subs pq(1,2) by (simp add: unlocked_amount_def)
    show "unat (u128_as_u64 q)
        = linear_vested (unat (cs_locked_amount cs)) (ival curr_ts) (ival start_ts) (ival end_ts)"
      using True pq(3) fits by (simp add: linear_vested_def word_nat)
  qed
qed

lemma unlocked_amount_overflow:
  assumes "\<not> window_fits start_ts end_ts" and "start_ts \<le> curr_ts" and "curr_ts < end_ts"
  shows "unlocked_amount cs curr_ts start_ts end_ts = Inl (ErrorCode ArithmeticError)"
proof -
  have "checked_sub_i64 end_ts start_ts = None"
    using assms(1) by (auto simp: window_fits_def checked_sub_i64_def)
  moreover have "\<not> end_ts \<le> curr_ts" using assms(3) by auto
  ultimately show ?thesis
    using assms(2) by (simp add: unlocked_amount_def ok_or_def split: option.split)
qed

text \<open>Half of the amount, as the source computes it: scaled by 500000 and divided by 1000000.\<close>

lemma start_amount_u128:
  obtains p q where "checked_mul (u64_as_u128 amount) START_CLAIM_PCT = Some p"
    and "checked_div p PCT_PRECISION = Some q"
    and "unat (u128_as_u64 q) = unat amount div 2"
proof -
  let ?am = "unat amount"
  have am: "?am < 2 ^ 64" using unat_bound [of amount] by simp
  have "checked_mul (u64_as_u128 amount) START_CLAIM_PCT \<noteq> None"
    using am by (simp add: checked_mul_None unat_u64_as_u128 START_CLAIM_PCT_def)
  then obtain p where p: "checked_mul (u64_as_u128 amount) START_CLAIM_PCT = Some p" by blast
  then have up: "unat p = ?am * 500000"
    by (simp add: checked_mul_Some unat_u64_as_u128 START_CLAIM_PCT_def)
  have "checked_div p PCT_PRECISION \<noteq> None" by (simp add: checked_div_None PCT_PRECISION_def)
  then obtain q where q: "checked_div p PCT_PRECISION = Some q" by blast
  then have "unat q = ?am * 500000 div (2 * 500000)"
    using up by (simp add: checked_div_Some PCT_PRECISION_def)
  also have "\<dots> = ?am div 2" by (rule div_mult_mult2) simp
  finally have "unat (u128_as_u64 q) = ?am div 2" using am by (simp add: unat_u128_as_u64)
  then show thesis using that [OF p q] by simp
qed

lemma update_unlocked_refines:
  assumes "window_fits start_ts end_ts" and "start_ts \<le> curr_ts"
  obtains c where
    "update_unlocked_amount_claimed cs curr_ts start_ts end_ts = Inr (cs\<lparr>cs_unlocked_amount_claimed := c\<rparr>)"
    and "unat c = bonus_vested (unat (cs_unlocked_amount cs)) (ival curr_ts) (ival start_ts) (ival end_ts)"
proof (cases "curr_ts < end_ts")
  case False
  then show ?thesis
    using assms(2) by (intro that [of "cs_unlocked_amount cs"])
      (auto simp: update_unlocked_amount_claimed_def bonus_vested_def linear_vested_def word_nat)
next
  case True
  then have inside: "\<not> end_ts \<le> curr_ts" by auto
  let ?el = "i64_of (ival curr_ts - ival start_ts)" and ?to = "i64_of (ival end_ts - ival start_ts)"
  let ?am = "cs_unlocked_amount cs"
  have fits: "i64_range (ival curr_ts - ival start_ts)" "i64_range (ival end_ts - ival start_ts)"
    using True assms ival_range [of end_ts] by (auto simp: window_fits_def word_nat)
  then have subs: "checked_sub_i64 curr_ts start_ts = Some ?el" "checked_sub_i64 end_ts start_ts = Some ?to"
    by (simp_all add: checked_sub_i64_def)
  obtain p1 q1 where start: "checked_mul (u64_as_u128 ?am) START_CLAIM_PCT = Some p1"
    "checked_div p1 PCT_PRECISION = Some q1" "unat (u128_as_u64 q1) = unat ?am div 2"
    by (rule start_amount_u128)
  then have "checked_sub ?am (u128_as_u64 q1) \<noteq> None" by (simp add: checked_sub_None)
  then obtain rest where rest: "checked_sub ?am (u128_as_u64 q1) = Some rest" by blast
  then have urest: "unat rest = unat ?am - unat ?am div 2" using start(3) by (simp add: checked_sub_Some)
  have "0 \<le> ival ?el" "ival ?el \<le> ival ?to" "0 < ival ?to"
    using True assms fits by (auto simp: word_nat)
  then obtain p2 q2 where bonus: "checked_mul (i64_as_u128 ?el) (u64_as_u128 rest) = Some p2"
    "checked_div p2 (i64_as_u128 ?to) = Some q2"
    "unat (u128_as_u64 q2) = nat (ival ?el) * unat rest div nat (ival ?to)"
    by (rule share_u128)
  have vested: "unat (u128_as_u64 q2) = linear_vested (unat rest) (ival curr_ts) (ival start_ts) (ival end_ts)"
    using True assms(2) fits bonus(3) by (simp add: linear_vested_def word_nat)
  then have "unat (u128_as_u64 q2) \<le> unat rest" by (simp add: linear.at_most_all)
  then have "unat (u128_as_u64 q1) + unat (u128_as_u64 q2) \<le> unat ?am" using start(3) urest by simp
  then have "checked_add (u128_as_u64 q1) (u128_as_u64 q2) \<noteq> None"
    using unat_bound [of ?am] by (simp add: checked_add_None)
  then obtain c where c: "checked_add (u128_as_u64 q1) (u128_as_u64 q2) = Some c" by blast
  show ?thesis
  proof (rule that)
    show "update_unlocked_amount_claimed cs curr_ts start_ts end_ts
        = Inr (cs\<lparr>cs_unlocked_amount_claimed := c\<rparr>)"
      using assms(2) inside subs start(1,2) rest bonus(1,2) c
      by (simp add: update_unlocked_amount_claimed_def)
    show "unat c = bonus_vested (unat ?am) (ival curr_ts) (ival start_ts) (ival end_ts)"
      using c start(3) vested urest assms(2) by (simp add: checked_add_Some bonus_vested_def word_nat)
  qed
qed

lemma update_unlocked_overflow:
  assumes "\<not> window_fits start_ts end_ts" and "start_ts \<le> curr_ts" and "curr_ts < end_ts"
  shows "update_unlocked_amount_claimed cs curr_ts start_ts end_ts = Inl (ErrorCode ArithmeticError)"
proof -
  have "checked_sub_i64 end_ts start_ts = None"
    using assms(1) by (auto simp: window_fits_def checked_sub_i64_def)
  moreover have "\<not> end_ts \<le> curr_ts" using assms(3) by auto
  ultimately show ?thesis
    using assms(2) by (simp add: update_unlocked_amount_claimed_def ok_or_def split: option.split)
qed

section \<open>The operations in closed form\<close>

lemma unlocked_amount_exact:
  "unlocked_amount cs curr_ts start_ts end_ts =
     (if start_ts \<le> curr_ts \<and> curr_ts < end_ts \<and> \<not> window_fits start_ts end_ts
      then Inl (ErrorCode ArithmeticError)
      else Inr (word_of_nat (linear_vested (unat (cs_locked_amount cs))
                               (ival curr_ts) (ival start_ts) (ival end_ts))))"
proof (cases "window_fits start_ts end_ts")
  case True
  then obtain r where r: "unlocked_amount cs curr_ts start_ts end_ts = Inr r"
    "unat r = linear_vested (unat (cs_locked_amount cs)) (ival curr_ts) (ival start_ts) (ival end_ts)"
    by (rule unlocked_amount_refines)
  then show ?thesis using True by (simp flip: r(2))
next
  case False
  show ?thesis
  proof (cases "start_ts \<le> curr_ts \<and> curr_ts < end_ts")
    case True
    then show ?thesis using False by (simp add: unlocked_amount_overflow)
  next
    case outside: False
    then show ?thesis
      by (auto simp: unlocked_amount_def linear_vested_def word_nat)
  qed
qed

lemma update_unlocked_exact:
  "update_unlocked_amount_claimed cs curr_ts start_ts end_ts =
     (if curr_ts < start_ts then Inl (ErrorCode ClaimingIsNotStarted)
      else if curr_ts < end_ts \<and> \<not> window_fits start_ts end_ts then Inl (ErrorCode ArithmeticError)
      else Inr (cs\<lparr>cs_unlocked_amount_claimed :=
                  word_of_nat (bonus_vested (unat (cs_unlocked_amount cs))
                                 (ival curr_ts) (ival start_ts) (ival end_ts))\<rparr>))"
proof (cases "curr_ts < start_ts")
  case True
  then have "\<not> start_ts \<le> curr_ts" by auto
  then show ?thesis using True by (simp add: update_unlocked_amount_claimed_def)
next
  case started: False
  then have le: "start_ts \<le> curr_ts" by auto
  show ?thesis
  proof (cases "window_fits start_ts end_ts")
    case True
    then obtain c where c: "update_unlocked_amount_claimed cs curr_ts start_ts end_ts
        = Inr (cs\<lparr>cs_unlocked_amount_claimed := c\<rparr>)"
      "unat c = bonus_vested (unat (cs_unlocked_amount cs)) (ival curr_ts) (ival start_ts) (ival end_ts)"
      using le by (rule update_unlocked_refines)
    then show ?thesis using True started by (simp flip: c(2))
  next
    case False
    show ?thesis
    proof (cases "curr_ts < end_ts")
      case True
      then show ?thesis using False started le by (simp add: update_unlocked_overflow)
    next
      case after: False
      then have "end_ts \<le> curr_ts" by auto
      then show ?thesis
        using after started le
        by (simp add: update_unlocked_amount_claimed_def bonus_vested_def linear_vested_def word_nat)
    qed
  qed
qed

lemma unat_word_of_nat_le: "n \<le> unat w \<Longrightarrow> unat (word_of_nat n :: u64) = n" for w :: u64
  using unat_bound [of w] by (simp add: unsigned_of_nat take_bit_nat_eq_self)

lemma update_unlocked_Inr:
  assumes "update_unlocked_amount_claimed cs curr_ts start_ts end_ts = Inr cs'"
  shows "cs' = cs\<lparr>cs_unlocked_amount_claimed := cs_unlocked_amount_claimed cs'\<rparr>"
    and "unat (cs_unlocked_amount_claimed cs')
         = bonus_vested (unat (cs_unlocked_amount cs)) (ival curr_ts) (ival start_ts) (ival end_ts)"
    and "start_ts \<le> curr_ts"
proof -
  let ?b = "bonus_vested (unat (cs_unlocked_amount cs)) (ival curr_ts) (ival start_ts) (ival end_ts)"
  have cs': "cs' = cs\<lparr>cs_unlocked_amount_claimed := word_of_nat ?b\<rparr>" and le: "\<not> curr_ts < start_ts"
    using assms by (auto simp: update_unlocked_exact split: if_splits)
  then show "cs' = cs\<lparr>cs_unlocked_amount_claimed := cs_unlocked_amount_claimed cs'\<rparr>"
    and "start_ts \<le> curr_ts" by auto
  show "unat (cs_unlocked_amount_claimed cs') = ?b"
    using cs' unat_word_of_nat_le [OF bonus.at_most_all] by simp
qed

lemma amount_withdrawable_Inr:
  assumes "amount_withdrawable cs curr_ts start_ts end_ts = Inr r"
  shows "unat (cs_locked_amount_withdrawn cs) + unat r
    = linear_vested (unat (cs_locked_amount cs)) (ival curr_ts) (ival start_ts) (ival end_ts)"
proof -
  let ?v = "linear_vested (unat (cs_locked_amount cs)) (ival curr_ts) (ival start_ts) (ival end_ts)"
  have "checked_sub (word_of_nat ?v) (cs_locked_amount_withdrawn cs) = Some r"
    using assms by (auto simp: amount_withdrawable_def unlocked_amount_exact ok_iff split: if_splits)
  then show ?thesis
    using unat_word_of_nat_le [OF linear.at_most_all] by (simp add: checked_sub_Some)
qed

lemma amount_withdrawable_ok:
  assumes "window_fits start_ts end_ts"
    and "unat (cs_locked_amount_withdrawn cs)
      \<le> linear_vested (unat (cs_locked_amount cs)) (ival curr_ts) (ival start_ts) (ival end_ts)"
  obtains r where "amount_withdrawable cs curr_ts start_ts end_ts = Inr r"
proof -
  let ?v = "linear_vested (unat (cs_locked_amount cs)) (ival curr_ts) (ival start_ts) (ival end_ts)"
  have "checked_sub (word_of_nat ?v) (cs_locked_amount_withdrawn cs) \<noteq> None"
    using assms(2) unat_word_of_nat_le [OF linear.at_most_all] by (simp add: checked_sub_None)
  then obtain r where "checked_sub (word_of_nat ?v) (cs_locked_amount_withdrawn cs) = Some r" by blast
  then show thesis
    using assms(1) by (intro that [of r]) (simp add: amount_withdrawable_def unlocked_amount_exact)
qed

section \<open>Properties\<close>

text \<open>C16: The locked part vests linearly. \<open>unlocked_amount\<close> is 0 before the window, everything from
  its end on, and the rounded-down share of the elapsed time inside it; the 128-bit product does
  not overflow and the result is not truncated to 64 bits. The one error is a window longer than
  an \<open>i64\<close> can measure.\<close>

theorem locked_part_vests_linearly:
  "unlocked_amount cs curr_ts start_ts end_ts =
     (if start_ts \<le> curr_ts \<and> curr_ts < end_ts \<and> \<not> window_fits start_ts end_ts
      then Inl (ErrorCode ArithmeticError)
      else Inr (word_of_nat (linear_vested (unat (cs_locked_amount cs))
                               (ival curr_ts) (ival start_ts) (ival end_ts))))"
  by (rule unlocked_amount_exact)

text \<open>C17: A claim of the unlocked part loses nothing: what is paid and what is forgone add up to the
  entitlement, at least half is paid, and everything is paid from the end of the window on.\<close>

theorem claim_splits_entitlement:
  assumes "update_unlocked_amount_claimed cs curr_ts start_ts end_ts = Inr cs'"
  shows "\<exists>forgone. get_unlocked_amount_forgone cs' = Inr forgone
    \<and> unat (cs_unlocked_amount_claimed cs') + unat forgone = unat (cs_unlocked_amount cs)
    \<and> unat (cs_unlocked_amount cs) div 2 \<le> unat (cs_unlocked_amount_claimed cs')
    \<and> (end_ts \<le> curr_ts \<longrightarrow> cs_unlocked_amount_claimed cs' = cs_unlocked_amount cs)"
proof -
  note upd = update_unlocked_Inr [OF assms]
  have same: "cs_unlocked_amount cs' = cs_unlocked_amount cs" by (subst upd(1)) simp
  have "unat (cs_unlocked_amount_claimed cs') \<le> unat (cs_unlocked_amount cs)"
    unfolding upd(2) by (rule bonus.at_most_all)
  then have "checked_sub (cs_unlocked_amount cs') (cs_unlocked_amount_claimed cs') \<noteq> None"
    by (simp add: checked_sub_None same)
  then obtain f where f: "checked_sub (cs_unlocked_amount cs') (cs_unlocked_amount_claimed cs') = Some f"
    by blast
  have "unat (cs_unlocked_amount cs) div 2 \<le> unat (cs_unlocked_amount_claimed cs')"
    using upd(3) by (simp add: upd(2) bonus_vested_def word_nat)
  moreover have "cs_unlocked_amount_claimed cs' = cs_unlocked_amount cs" if "end_ts \<le> curr_ts"
    using that upd(2,3) bonus.at_end by (intro unsigned_word_eqI) (auto simp: word_nat)
  moreover have "unat (cs_unlocked_amount_claimed cs') + unat f = unat (cs_unlocked_amount cs)"
    using f by (simp add: checked_sub_Some same)
  ultimately show ?thesis
    using f by (intro exI [of _ f]) (simp add: get_unlocked_amount_forgone_def)
qed

theorem claim_splits_entitlement_witness:
  "update_unlocked_amount_claimed (claim_status_default\<lparr>cs_unlocked_amount := 1000000\<rparr>)
     (I64 6) (I64 1) (I64 11)
   = Inr (claim_status_default\<lparr>cs_unlocked_amount := 1000000, cs_unlocked_amount_claimed := 750000\<rparr>)
   \<and> (\<exists>forgone. get_unlocked_amount_forgone
        (claim_status_default\<lparr>cs_unlocked_amount := 1000000, cs_unlocked_amount_claimed := 750000\<rparr>)
        = Inr forgone \<and> 750000 + unat forgone = 1000000)"
proof -
  let ?cs = "claim_status_default\<lparr>cs_unlocked_amount := 1000000\<rparr>"
  let ?cs' = "?cs\<lparr>cs_unlocked_amount_claimed := 750000\<rparr>"
  have step: "update_unlocked_amount_claimed ?cs (I64 6) (I64 1) (I64 11) = Inr ?cs'"
    by (simp add: update_unlocked_exact window_fits_def bonus_vested_def linear_vested_def
        less_i64_def ival_def)
  show ?thesis using step claim_splits_entitlement [OF step] by auto
qed

end
