(* ===== verification/Merkle_Tree.thy ===== *)
theory Merkle_Tree
  imports Prelude "HOL-Library.Monad_Syntax"
begin

text \<open>
  The Merkle tree: \<^verbatim>\<open>verify/src/lib.rs\<close> (the check the program runs on chain) and
  \<^verbatim>\<open>merkle-tree/src/merkle_tree.rs\<close> with \<^verbatim>\<open>utils.rs\<close>'s \<^verbatim>\<open>get_proof\<close> (the construction and the proofs,
  off chain). The hash \<^verbatim>\<open>solana_program::hash::hashv\<close> is a parameter \<open>hashv\<close> of every definition that
  uses it. A Rust panic (an index or a slice out of range, a failed \<^verbatim>\<open>assert!\<close>, \<^verbatim>\<open>expect\<close>) is \<open>None\<close>.

  The tree is one vector of nodes filled level by level with index arithmetic. \<open>levels\<close> is the
  same tree as a list of levels; \<open>mt_new_levels\<close> and \<open>get_proof_siblings\<close> show that the index
  arithmetic is in range and computes it. From there: every leaf's proof verifies
  (\<open>membership_proofs\<close>, the interface the builder and the program share), and a proof that
  verifies is for a leaf of the tree unless two of the hashed byte strings collide.
\<close>

type_synonym hash_fn = "u8 list list \<Rightarrow> bytes32"

definition LEAF_PREFIX :: "u8 list" where "LEAF_PREFIX = [0]"
definition INTERMEDIATE_PREFIX :: "u8 list" where "INTERMEDIATE_PREFIX = [1]"

section \<open>The on-chain check\<close>

fun computed_hash :: "hash_fn \<Rightarrow> bytes32 list \<Rightarrow> bytes32 \<Rightarrow> bytes32" where
  "computed_hash hashv [] computed = computed"
| "computed_hash hashv (proof_element # proof) computed =
     computed_hash hashv proof
       (if computed \<le> proof_element
        then hashv [[1], be_bytes computed, be_bytes proof_element]
        else hashv [[1], be_bytes proof_element, be_bytes computed])"

definition verify :: "hash_fn \<Rightarrow> bytes32 list \<Rightarrow> bytes32 \<Rightarrow> bytes32 \<Rightarrow> bool" where
  "verify hashv proof root leaf \<longleftrightarrow> computed_hash hashv proof leaf = root"

section \<open>The tree\<close>

record merkle_tree =
  mt_leaf_count :: nat
  mt_nodes :: "bytes32 list"

definition index_ok :: "'a list \<Rightarrow> nat \<Rightarrow> 'a option" where
  "index_ok xs i = (if i < length xs then Some (xs ! i) else None)"

definition slice_ok :: "'a list \<Rightarrow> nat \<Rightarrow> nat \<Rightarrow> 'a list option" where
  "slice_ok xs from to = (if from \<le> to \<and> to \<le> length xs then Some (take (to - from) (drop from xs)) else None)"

definition hash_leaf :: "hash_fn \<Rightarrow> u8 list \<Rightarrow> bytes32" where
  "hash_leaf hashv d = hashv [LEAF_PREFIX, d]"

definition hash_intermediate :: "hash_fn \<Rightarrow> bytes32 \<Rightarrow> bytes32 \<Rightarrow> bytes32" where
  "hash_intermediate hashv l r = hashv [INTERMEDIATE_PREFIX, be_bytes l, be_bytes r]"

definition next_level_len :: "nat \<Rightarrow> nat" where
  "next_level_len level_len = (if level_len = 1 then 0 else (level_len + 1) div 2)"

text \<open>The body of the inner loop of \<^verbatim>\<open>MerkleTree::new\<close> for one \<open>i\<close>: the hash it pushes.\<close>

definition pushed_hash :: "hash_fn \<Rightarrow> bool \<Rightarrow> nat \<Rightarrow> nat \<Rightarrow> bytes32 list \<Rightarrow> nat \<Rightarrow> bytes32 option" where
  "pushed_hash hashv sorted_hashes prev_level_start prev_level_len nodes i =
     (let prev_level_idx = 2 * i in do {
        lsib \<leftarrow> index_ok nodes (prev_level_start + prev_level_idx);
        rsib \<leftarrow> (if prev_level_idx + 1 < prev_level_len
                then index_ok nodes (prev_level_start + prev_level_idx + 1)
                else index_ok nodes (prev_level_start + prev_level_idx));
        Some (if sorted_hashes then
                if lsib \<le> rsib then hash_intermediate hashv lsib rsib
                else hash_intermediate hashv rsib lsib
              else hash_intermediate hashv lsib rsib)
      })"

fun push_level :: "hash_fn \<Rightarrow> bool \<Rightarrow> nat \<Rightarrow> nat \<Rightarrow> nat list \<Rightarrow> bytes32 list \<Rightarrow> bytes32 list option" where
  "push_level hashv sorted_hashes prev_level_start prev_level_len [] nodes = Some nodes"
| "push_level hashv sorted_hashes prev_level_start prev_level_len (i # is) nodes = do {
     hash \<leftarrow> pushed_hash hashv sorted_hashes prev_level_start prev_level_len nodes i;
     push_level hashv sorted_hashes prev_level_start prev_level_len is (nodes @ [hash])
   }"

lemma next_level_len_less: "0 < n \<Longrightarrow> next_level_len n < n"
  by (auto simp: next_level_len_def)

function build_levels ::
  "hash_fn \<Rightarrow> bool \<Rightarrow> nat \<Rightarrow> nat \<Rightarrow> nat \<Rightarrow> nat \<Rightarrow> bytes32 list \<Rightarrow> bytes32 list option" where
  "build_levels hashv sorted_hashes level_len level_start prev_level_len prev_level_start nodes =
     (if 0 < level_len then do {
        nodes' \<leftarrow> push_level hashv sorted_hashes prev_level_start prev_level_len [0..<level_len] nodes;
        build_levels hashv sorted_hashes (next_level_len level_len) (level_start + level_len)
          level_len level_start nodes'
      } else Some nodes)"
  by pat_completeness auto
termination
  by (relation "measure (\<lambda>(hashv, sorted_hashes, level_len, _). level_len)") (auto simp: next_level_len_less)

declare build_levels.simps [simp del]

definition mt_new :: "hash_fn \<Rightarrow> u8 list list \<Rightarrow> bool \<Rightarrow> merkle_tree option" where
  "mt_new hashv items sorted_hashes = do {
     nodes \<leftarrow> build_levels hashv sorted_hashes (next_level_len (length items)) (length items)
                (length items) 0 (map (hash_leaf hashv) items);
     Some \<lparr>mt_leaf_count = length items, mt_nodes = nodes\<rparr>
   }"

definition get_root :: "merkle_tree \<Rightarrow> bytes32 option" where
  "get_root mt = (if mt_nodes mt = [] then None else Some (last (mt_nodes mt)))"

section \<open>Proofs\<close>

datatype proof_entry = ProofEntry bytes32 "bytes32 option" "bytes32 option"

definition proof_entry_new :: "bytes32 \<Rightarrow> bytes32 option \<Rightarrow> bytes32 option \<Rightarrow> proof_entry option" where
  "proof_entry_new target left_sibling right_sibling =
     (if (left_sibling = None) \<noteq> (right_sibling = None)
      then Some (ProofEntry target left_sibling right_sibling) else None)"

fun get_left_sibling :: "proof_entry \<Rightarrow> bytes32 option" where
  "get_left_sibling (ProofEntry target l r) = l"

fun get_right_sibling :: "proof_entry \<Rightarrow> bytes32 option" where
  "get_right_sibling (ProofEntry target l r) = r"

text \<open>\<^verbatim>\<open>Proof::verify\<close>: the fold over the entries stops at the first that does not match.\<close>

fun proof_verify_fold :: "hash_fn \<Rightarrow> proof_entry list \<Rightarrow> bytes32 \<Rightarrow> bytes32 option" where
  "proof_verify_fold hashv [] candidate = Some candidate"
| "proof_verify_fold hashv (ProofEntry target l r # entries) candidate =
     (let lsib = case_option candidate id l;
          rsib = case_option candidate id r;
          hash = hash_intermediate hashv lsib rsib
      in if hash = target then proof_verify_fold hashv entries hash else None)"

definition proof_verify :: "hash_fn \<Rightarrow> proof_entry list \<Rightarrow> bytes32 \<Rightarrow> bool" where
  "proof_verify hashv entries candidate \<longleftrightarrow> proof_verify_fold hashv entries candidate \<noteq> None"

function find_path_loop ::
  "bytes32 list \<Rightarrow> nat \<Rightarrow> nat \<Rightarrow> nat \<Rightarrow> bytes32 option \<Rightarrow> bytes32 option \<Rightarrow> proof_entry list
     \<Rightarrow> proof_entry list option" where
  "find_path_loop nodes level_len level_start node_index lsib rsib path =
     (if 0 < level_len then do {
        level \<leftarrow> slice_ok nodes level_start (level_start + level_len);
        target \<leftarrow> index_ok level node_index;
        path' \<leftarrow> (if lsib \<noteq> None \<or> rsib \<noteq> None
                 then do { entry \<leftarrow> proof_entry_new target lsib rsib; Some (path @ [entry]) }
                 else Some path);
        sibs \<leftarrow> (if node_index mod 2 = 0
                then do {
                  r \<leftarrow> (if node_index + 1 < length level then index_ok level (node_index + 1)
                       else index_ok level node_index);
                  Some (None, Some r) }
                else do {
                  l \<leftarrow> index_ok level (node_index - 1);
                  Some (Some l, None) });
        find_path_loop nodes (next_level_len level_len) (level_start + level_len) (node_index div 2)
          (fst sibs) (snd sibs) path'
      } else Some path)"
  by pat_completeness auto
termination
  by (relation "measure (\<lambda>(nodes, level_len, _). level_len)") (auto simp: next_level_len_less)

declare find_path_loop.simps [simp del]

text \<open>\<open>None\<close> is a panic, \<open>Some None\<close> is the source's \<^verbatim>\<open>None\<close> (an index that is not a leaf).\<close>

definition find_path :: "merkle_tree \<Rightarrow> nat \<Rightarrow> proof_entry list option option" where
  "find_path mt index =
     (if mt_leaf_count mt \<le> index then Some None
      else map_option Some (find_path_loop (mt_nodes mt) (mt_leaf_count mt) 0 index None None []))"

fun sibling_hashes :: "proof_entry list \<Rightarrow> bytes32 list option" where
  "sibling_hashes [] = Some []"
| "sibling_hashes (branch # entries) = do {
     hash \<leftarrow> (case get_left_sibling branch of
               Some l \<Rightarrow> Some l
             | None \<Rightarrow> (case get_right_sibling branch of Some r \<Rightarrow> Some r | None \<Rightarrow> None));
     proof \<leftarrow> sibling_hashes entries;
     Some (hash # proof)
   }"

definition get_proof :: "merkle_tree \<Rightarrow> nat \<Rightarrow> bytes32 list option" where
  "get_proof mt index = do {
     path \<leftarrow> find_path mt index;
     entries \<leftarrow> path;
     sibling_hashes entries
   }"

section \<open>The tree as a list of levels\<close>

definition pair_hash :: "hash_fn \<Rightarrow> bool \<Rightarrow> bytes32 \<Rightarrow> bytes32 \<Rightarrow> bytes32" where
  "pair_hash hashv sorted_hashes l r =
     (if sorted_hashes \<and> \<not> l \<le> r then hash_intermediate hashv r l else hash_intermediate hashv l r)"

fun parents :: "('a \<Rightarrow> 'a \<Rightarrow> 'a) \<Rightarrow> 'a list \<Rightarrow> 'a list" where
  "parents f [] = []"
| "parents f [x] = [f x x]"
| "parents f (x # y # xs) = f x y # parents f xs"

definition sibling :: "'a list \<Rightarrow> nat \<Rightarrow> 'a" where
  "sibling xs i = (if even i then if i + 1 < length xs then xs ! (i + 1) else xs ! i else xs ! (i - 1))"

lemma length_parents [simp]: "length (parents f xs) = (length xs + 1) div 2"
  by (induction f xs rule: parents.induct) auto

lemma length_parents_less: "1 < length xs \<Longrightarrow> length (parents f xs) < length xs"
  by simp

lemma parents_nth:
  "2 * i < length xs \<Longrightarrow> parents f xs ! i = f (xs ! (2 * i)) (sibling xs (2 * i))"
proof (induction f xs arbitrary: i rule: parents.induct)
  case (3 f x y xs)
  show ?case
  proof (cases i)
    case 0
    then show ?thesis by (simp add: sibling_def)
  next
    case (Suc j)
    then show ?thesis using "3.IH" [of j] "3.prems" by (simp add: sibling_def)
  qed
qed (auto simp: sibling_def)

lemma parents_nth_pair:
  assumes "i < length xs"
  shows "parents f xs ! (i div 2) = (if even i then f (xs ! i) (sibling xs i) else f (sibling xs i) (xs ! i))"
proof (cases "even i")
  case True
  then show ?thesis using assms parents_nth [of "i div 2" xs f] by simp
next
  case False
  then obtain j where i: "i = Suc (2 * j)" by (metis oddE Suc_eq_plus1)
  then show ?thesis using assms parents_nth [of j xs f] by (simp add: sibling_def)
qed

function levels :: "('a \<Rightarrow> 'a \<Rightarrow> 'a) \<Rightarrow> 'a list \<Rightarrow> 'a list list" where
  "levels f xs = (if length xs \<le> 1 then [xs] else xs # levels f (parents f xs))"
  by pat_completeness auto
termination
  by (relation "measure (\<lambda>(f, xs). length xs)") auto

function tree_root :: "('a \<Rightarrow> 'a \<Rightarrow> 'a) \<Rightarrow> 'a list \<Rightarrow> 'a" where
  "tree_root f xs = (if length xs \<le> 1 then hd xs else tree_root f (parents f xs))"
  by pat_completeness auto
termination
  by (relation "measure (\<lambda>(f, xs). length xs)") auto

function siblings :: "('a \<Rightarrow> 'a \<Rightarrow> 'a) \<Rightarrow> 'a list \<Rightarrow> nat \<Rightarrow> 'a list" where
  "siblings f xs i =
     (if length xs \<le> 1 then [] else sibling xs i # siblings f (parents f xs) (i div 2))"
  by pat_completeness auto
termination
  by (relation "measure (\<lambda>(f, xs, i). length xs)") auto

function path_entries :: "(bytes32 \<Rightarrow> bytes32 \<Rightarrow> bytes32) \<Rightarrow> bytes32 list \<Rightarrow> nat \<Rightarrow> proof_entry list" where
  "path_entries f xs i =
     (if length xs \<le> 1 then []
      else ProofEntry (parents f xs ! (i div 2))
             (if even i then None else Some (sibling xs i))
             (if even i then Some (sibling xs i) else None)
           # path_entries f (parents f xs) (i div 2))"
  by pat_completeness auto
termination
  by (relation "measure (\<lambda>(f, xs, i). length xs)") auto

declare levels.simps [simp del] tree_root.simps [simp del] siblings.simps [simp del]
  path_entries.simps [simp del]

lemma levels_not_Nil [simp]: "levels f xs \<noteq> []"
  by (subst levels.simps) simp

lemma concat_levels_Nil [simp]: "concat (levels f xs) = [] \<longleftrightarrow> xs = []"
  by (subst levels.simps) auto

lemma last_concat_levels: "xs \<noteq> [] \<Longrightarrow> last (concat (levels f xs)) = tree_root f xs"
proof (induction f xs rule: levels.induct)
  case (1 f xs)
  show ?case
  proof (cases "length xs \<le> 1")
    case True
    with "1.prems" obtain x where "xs = [x]" by (cases xs) auto
    then show ?thesis by (simp add: levels.simps tree_root.simps)
  next
    case False
    then have "parents f xs \<noteq> []" by (simp flip: length_0_conv)
    then show ?thesis
      using False "1.IH" by (simp add: levels.simps [of f xs] tree_root.simps [of f xs] last_append
          del: concat_eq_Nil_conv)
  qed
qed

section \<open>The index arithmetic builds the levels\<close>

lemma index_ok_append_mid [simp]:
  "i < length xs \<Longrightarrow> index_ok (pre @ xs @ post) (length pre + i) = Some (xs ! i)"
  by (simp add: index_ok_def nth_append)

lemma slice_ok_mid [simp]:
  "slice_ok (pre @ xs @ post) (length pre) (length pre + length xs) = Some xs"
  by (simp add: slice_ok_def)

lemma pushed_hash_mid:
  assumes "2 * i < length xs"
  shows "pushed_hash hashv srt (length pre) (length xs) (pre @ xs @ post) i
           = Some (parents (pair_hash hashv srt) xs ! i)"
proof -
  have "Suc (length pre + 2 * i) = length pre + (2 * i + 1)" by simp
  then show ?thesis
    using assms index_ok_append_mid [of "2 * i" xs pre post] index_ok_append_mid [of "2 * i + 1" xs pre post]
    by (auto simp: pushed_hash_def parents_nth sibling_def pair_hash_def Let_def)
qed

lemma push_level_mid:
  "\<forall>i \<in> set is. 2 * i < length xs \<Longrightarrow>
   push_level hashv srt (length pre) (length xs) is (pre @ xs @ post)
     = Some (pre @ xs @ post @ map ((!) (parents (pair_hash hashv srt) xs)) is)"
proof (induction "is" arbitrary: post)
  case (Cons i "is")
  then show ?case
    using Cons.IH [of "post @ [parents (pair_hash hashv srt) xs ! i]"] by (simp add: pushed_hash_mid)
qed simp

lemma push_level_parents:
  assumes "1 < length xs"
  shows "push_level hashv srt (length pre) (length xs) [0..<next_level_len (length xs)] (pre @ xs)
           = Some (pre @ xs @ parents (pair_hash hashv srt) xs)"
proof -
  let ?ys = "parents (pair_hash hashv srt) xs"
  have len: "next_level_len (length xs) = length ?ys" using assms by (simp add: next_level_len_def)
  have "\<forall>i \<in> set [0..<length ?ys]. 2 * i < length xs" by auto
  from push_level_mid [OF this, of hashv srt pre "[]"] show ?thesis
    unfolding len by (simp add: map_nth del: length_parents)
qed

lemma build_levels_levels:
  "build_levels hashv srt (next_level_len (length xs)) (length pre + length xs) (length xs) (length pre) (pre @ xs)
     = Some (pre @ concat (levels (pair_hash hashv srt) xs))"
proof (induction "pair_hash hashv srt" xs arbitrary: pre rule: levels.induct)
  case (1 xs)
  let ?f = "pair_hash hashv srt"
  show ?case
  proof (cases "length xs \<le> 1")
    case True
    then have "next_level_len (length xs) = 0" by (cases xs) (auto simp: next_level_len_def)
    with True show ?thesis by (simp add: build_levels.simps levels.simps)
  next
    case False
    then have len: "next_level_len (length xs) = length (parents ?f xs)" by (simp add: next_level_len_def)
    moreover have "0 < length (parents ?f xs)" using False by simp
    ultimately show ?thesis
      using False push_level_parents [of xs hashv srt pre] "1.hyps" [of "pre @ xs"]
      by (subst build_levels.simps) (simp add: levels.simps [of ?f xs] add.assoc del: length_parents)
  qed
qed

lemma mt_new_levels:
  "mt_new hashv items srt =
     Some \<lparr>mt_leaf_count = length items,
           mt_nodes = concat (levels (pair_hash hashv srt) (map (hash_leaf hashv) items))\<rparr>"
  using build_levels_levels [of hashv srt "map (hash_leaf hashv) items" "[]"] by (simp add: mt_new_def)

lemma mt_new_total: "\<exists>mt. mt_new hashv items srt = Some mt"
  by (simp add: mt_new_levels)

lemma get_root_mt_new:
  assumes "mt_new hashv items srt = Some mt" "items \<noteq> []"
  shows "get_root mt = Some (tree_root (pair_hash hashv srt) (map (hash_leaf hashv) items))"
  using assms by (auto simp: mt_new_levels get_root_def last_concat_levels simp del: concat_eq_Nil_conv)

lemma find_path_loop_entries:
  assumes "i < length xs" "lsib = None \<or> rsib = None"
  shows "find_path_loop (pre @ concat (levels f xs)) (length xs) (length pre) i lsib rsib path =
           Some (path @ (if lsib \<noteq> None \<or> rsib \<noteq> None then [ProofEntry (xs ! i) lsib rsib] else [])
                   @ path_entries f xs i)"
  using assms
proof (induction f xs i arbitrary: pre lsib rsib path rule: path_entries.induct)
  case (1 f xs i)
  obtain post where nodes: "concat (levels f xs) = xs @ post"
      and post: "1 < length xs \<Longrightarrow> post = concat (levels f (parents f xs))"
    by (cases "length xs \<le> 1") (auto simp: levels.simps [of f xs])
  let ?l = "if even i then None else Some (sibling xs i)"
  let ?r = "if even i then Some (sibling xs i) else None"
  let ?path = "path @ (if lsib \<noteq> None \<or> rsib \<noteq> None then [ProofEntry (xs ! i) lsib rsib] else [])"
  have step: "find_path_loop (pre @ xs @ post) (length xs) (length pre) i lsib rsib path =
      find_path_loop (pre @ xs @ post) (next_level_len (length xs)) (length pre + length xs) (i div 2) ?l ?r ?path"
    using "1.prems" by (subst find_path_loop.simps)
      (auto simp: index_ok_def proof_entry_new_def sibling_def even_iff_mod_2_eq_zero)
  show ?case
  proof (cases "length xs \<le> 1")
    case True
    then have "next_level_len (length xs) = 0" using "1.prems" by (simp add: next_level_len_def)
    then show ?thesis using step True nodes
      by (simp add: find_path_loop.simps [of _ 0] path_entries.simps [of f xs])
  next
    case False
    then have "next_level_len (length xs) = length (parents f xs)" by (simp add: next_level_len_def)
    moreover have "i div 2 < length (parents f xs)" using "1.prems" by simp
    ultimately show ?thesis using step False nodes post
        "1.IH" [OF False, of ?l ?r "pre @ xs" ?path]
      by (simp add: path_entries.simps [of f xs] del: length_parents)
  qed
qed

lemma sibling_hashes_path_entries: "sibling_hashes (path_entries f xs i) = Some (siblings f xs i)"
proof (induction f xs i rule: siblings.induct)
  case (1 f xs i)
  then show ?case
    by (cases "length xs \<le> 1") (auto simp: path_entries.simps [of f xs i] siblings.simps [of f xs i])
qed

lemma find_path_mt_new:
  assumes "mt_new hashv items srt = Some mt" "i < length items"
  shows "find_path mt i = Some (Some (path_entries (pair_hash hashv srt) (map (hash_leaf hashv) items) i))"
  using assms find_path_loop_entries [of i "map (hash_leaf hashv) items" None None "[]" "pair_hash hashv srt" "[]"]
  by (auto simp: mt_new_levels find_path_def)

lemma get_proof_siblings:
  assumes "mt_new hashv items srt = Some mt" "i < length items"
  shows "get_proof mt i = Some (siblings (pair_hash hashv srt) (map (hash_leaf hashv) items) i)"
  using find_path_mt_new [OF assms] by (simp add: get_proof_def sibling_hashes_path_entries)

section \<open>Completeness: the proofs of the leaves verify\<close>

definition sorted_pair :: "bytes32 \<Rightarrow> bytes32 \<Rightarrow> u8 list list" where
  "sorted_pair l r = (if l \<le> r then [[1], be_bytes l, be_bytes r] else [[1], be_bytes r, be_bytes l])"

lemma sorted_pair_commute: "sorted_pair l r = sorted_pair r l"
  by (auto simp: sorted_pair_def)

lemma concat_sorted_pair_eq:
  assumes "concat (sorted_pair a b) = concat (sorted_pair c d)"
  shows "a = c \<and> b = d \<or> a = d \<and> b = c"
  using assms by (auto simp: sorted_pair_def append_eq_append_conv split: if_splits)

lemma pair_hash_sorted: "pair_hash hashv True l r = hashv (sorted_pair l r)"
  by (simp add: pair_hash_def hash_intermediate_def sorted_pair_def INTERMEDIATE_PREFIX_def)

lemma computed_hash_Cons [simp]:
  "computed_hash hashv (e # p) c = computed_hash hashv p (hashv (sorted_pair c e))"
  by (simp add: sorted_pair_def)

declare computed_hash.simps(2) [simp del]

lemma parents_sorted:
  assumes "i < length xs"
  shows "parents (pair_hash hashv True) xs ! (i div 2) = hashv (sorted_pair (xs ! i) (sibling xs i))"
  using parents_nth_pair [OF assms, of "pair_hash hashv True"]
  by (auto simp: pair_hash_sorted sorted_pair_commute [of "xs ! i"])

lemma computed_hash_siblings:
  assumes "i < length xs"
  shows "computed_hash hashv (siblings (pair_hash hashv True) xs i) (xs ! i) = tree_root (pair_hash hashv True) xs"
  using assms
proof (induction "pair_hash hashv True" xs i rule: siblings.induct)
  case (1 xs i)
  let ?f = "pair_hash hashv True"
  show ?case
  proof (cases "length xs \<le> 1")
    case True
    then obtain x where "xs = [x]" using "1.prems" by (cases xs) auto
    then show ?thesis using "1.prems" by (simp add: siblings.simps tree_root.simps)
  next
    case False
    have "i div 2 < length (parents ?f xs)" using "1.prems" by simp
    with "1.hyps" False show ?thesis using "1.prems"
      by (simp add: siblings.simps [of ?f xs i] tree_root.simps [of ?f xs] parents_sorted del: length_parents)
  qed
qed

lemma proof_verify_fold_entries:
  assumes "i < length xs"
  shows "proof_verify_fold hashv (path_entries (pair_hash hashv False) xs i) (xs ! i)
           = Some (tree_root (pair_hash hashv False) xs)"
  using assms
proof (induction "pair_hash hashv False" xs i rule: path_entries.induct)
  case (1 xs i)
  let ?f = "pair_hash hashv False"
  show ?case
  proof (cases "length xs \<le> 1")
    case True
    then obtain x where "xs = [x]" using "1.prems" by (cases xs) auto
    then show ?thesis using "1.prems" by (simp add: path_entries.simps tree_root.simps)
  next
    case False
    have "i div 2 < length (parents ?f xs)" using "1.prems" by simp
    moreover have "parents ?f xs ! (i div 2) = (if even i then hash_intermediate hashv (xs ! i) (sibling xs i)
        else hash_intermediate hashv (sibling xs i) (xs ! i))"
      using parents_nth_pair [OF "1.prems", of ?f] by (simp add: pair_hash_def)
    ultimately show ?thesis using "1.hyps" False
      by (cases "even i")
        (simp_all add: path_entries.simps [of ?f xs i] tree_root.simps [of ?f xs] del: length_parents)
  qed
qed

section \<open>The capacity\<close>

text \<open>
  \<^verbatim>\<open>MerkleTree::new\<close> reserves room for its nodes. \<^verbatim>\<open>fast_math::log2_raw\<close>, cut to an integer, is a parameter; its
  documented error is below one, so the cut value is less than two under the logarithm (\<open>log2_close\<close>). The nodes
  then fit the room reserved, for every number of leaves.
\<close>

definition calculate_vec_capacity :: "(nat \<Rightarrow> nat) \<Rightarrow> nat \<Rightarrow> nat" where
  "calculate_vec_capacity log2_raw leaf_count = (if 0 < leaf_count then log2_raw leaf_count + 2 * leaf_count + 1 else 0)"

definition log2_close :: "(nat \<Rightarrow> nat) \<Rightarrow> bool" where
  "log2_close log2_raw \<longleftrightarrow> (\<forall>n > 0. n < 2 ^ (log2_raw n + 2))"

lemma length_levels_bound: "1 < length xs \<Longrightarrow> 2 ^ (length (levels f xs) - 2) < length xs"
proof (induction f xs rule: levels.induct)
  case (1 f xs)
  show ?case
  proof (cases "length xs = 2")
    case True
    then have "length (parents f xs) = 1" by simp
    then have "levels f (parents f xs) = [parents f xs]" by (subst levels.simps) simp
    with True show ?thesis by (subst levels.simps) simp
  next
    case False
    have ih: "2 ^ (length (levels f (parents f xs)) - 2) < length (parents f xs)" using 1 False by simp
    obtain n where n: "length (levels f (parents f xs)) = Suc (Suc n)"
    proof -
      have "\<not> length (parents f xs) \<le> 1" using 1(2) False by simp
      then have "levels f (parents f xs) = parents f xs # levels f (parents f (parents f xs))" by (subst levels.simps) simp
      with that show thesis by (cases "levels f (parents f (parents f xs))") auto
    qed
    have "length (levels f xs) = Suc (Suc (Suc n))" using 1(2) n by (subst levels.simps) simp
    with ih n show ?thesis by simp
  qed
qed

lemma length_concat_levels: "xs \<noteq> [] \<Longrightarrow> length (concat (levels f xs)) + 2 \<le> 2 * length xs + length (levels f xs)"
proof (induction f xs rule: levels.induct)
  case (1 f xs)
  show ?case
  proof (cases "1 < length xs")
    case True
    then have ne: "parents f xs \<noteq> []" by (simp flip: length_0_conv)
    have "length (concat (levels f (parents f xs))) + 2 \<le> 2 * length (parents f xs) + length (levels f (parents f xs))"
      using 1(1) ne True by simp
    then show ?thesis using True by (subst levels.simps, subst (2) levels.simps) simp
  next
    case False
    with 1 show ?thesis by (subst levels.simps, subst (2) levels.simps) (cases xs; simp)
  qed
qed

lemma nodes_fit_capacity:
  assumes "log2_close log2_raw" "mt_new h items srt = Some mt"
  shows "length (mt_nodes mt) \<le> calculate_vec_capacity log2_raw (length items)"
proof (cases "1 < length items")
  case True
  let ?ls = "levels (pair_hash h srt) (map (hash_leaf h) items)"
  have nodes: "mt_nodes mt = concat ?ls" using assms(2) by (auto simp: mt_new_levels)
  have fit: "length (concat ?ls) + 2 \<le> 2 * length items + length ?ls"
    using length_concat_levels [of "map (hash_leaf h) items"] True by fastforce
  have "2 ^ (length ?ls - 2) < length items" using length_levels_bound [of "map (hash_leaf h) items"] True by simp
  moreover have "length items < 2 ^ (log2_raw (length items) + 2)"
    using assms(1) [unfolded log2_close_def, rule_format, of "length items"] True by linarith
  ultimately have "(2 :: nat) ^ (length ?ls - 2) < 2 ^ (log2_raw (length items) + 2)" by linarith
  then have "length ?ls - 2 < log2_raw (length items) + 2" by (rule power_less_imp_less_exp [rotated]) simp
  moreover have "calculate_vec_capacity log2_raw (length items) = log2_raw (length items) + 2 * length items + 1"
    using True by (auto simp: calculate_vec_capacity_def)
  ultimately show ?thesis using fit unfolding nodes by linarith
next
  case False
  then show ?thesis using assms(2)
    by (cases items) (auto simp: mt_new_levels levels.simps calculate_vec_capacity_def)
qed

section \<open>Soundness: what verifies is a leaf, unless two hashed inputs collide\<close>

definition collision_free :: "hash_fn \<Rightarrow> u8 list list list \<Rightarrow> bool" where
  "collision_free hashv inputs \<longleftrightarrow>
     (\<forall>a \<in> set inputs. \<forall>b \<in> set inputs. hashv a = hashv b \<longrightarrow> concat a = concat b)"

fun parent_inputs :: "bytes32 list \<Rightarrow> u8 list list list" where
  "parent_inputs [] = []"
| "parent_inputs [x] = [sorted_pair x x]"
| "parent_inputs (x # y # xs) = sorted_pair x y # parent_inputs xs"

function level_inputs :: "hash_fn \<Rightarrow> bytes32 list \<Rightarrow> u8 list list list" where
  "level_inputs hashv xs =
     (if length xs \<le> 1 then []
      else parent_inputs xs @ level_inputs hashv (parents (pair_hash hashv True) xs))"
  by pat_completeness auto
termination
  by (relation "measure (\<lambda>(hashv, xs). length xs)") auto

declare level_inputs.simps [simp del]

definition tree_inputs :: "hash_fn \<Rightarrow> u8 list list \<Rightarrow> u8 list list list" where
  "tree_inputs hashv items =
     map (\<lambda>d. [LEAF_PREFIX, d]) items @ level_inputs hashv (map (hash_leaf hashv) items)"

fun path_inputs :: "hash_fn \<Rightarrow> bytes32 list \<Rightarrow> bytes32 \<Rightarrow> u8 list list list" where
  "path_inputs hashv [] c = []"
| "path_inputs hashv (e # p) c = sorted_pair c e # path_inputs hashv p (hashv (sorted_pair c e))"

definition check_inputs :: "hash_fn \<Rightarrow> bytes32 list \<Rightarrow> u8 list \<Rightarrow> u8 list list list" where
  "check_inputs hashv proof item = [LEAF_PREFIX, item] # path_inputs hashv proof (hash_leaf hashv item)"

lemma parents_inputs:
  assumes "n \<in> set (parents (pair_hash hashv True) xs)"
  shows "\<exists>l \<in> set xs. \<exists>r \<in> set xs. n = hashv (sorted_pair l r) \<and> sorted_pair l r \<in> set (parent_inputs xs)"
  using assms
  by (induction "pair_hash hashv True" xs rule: parents.induct) (auto simp: pair_hash_sorted)

lemma tree_node_inputs:
  assumes "n \<in> set (concat (levels (pair_hash hashv True) xs))"
  shows "n \<in> set xs \<or> (\<exists>l r. n = hashv (sorted_pair l r) \<and> sorted_pair l r \<in> set (level_inputs hashv xs)
           \<and> {l, r} \<subseteq> set (concat (levels (pair_hash hashv True) xs)))"
  using assms
proof (induction "pair_hash hashv True" xs rule: levels.induct)
  case (1 xs)
  let ?f = "pair_hash hashv True"
  show ?case
  proof (cases "length xs \<le> 1 \<or> n \<in> set xs")
    case True
    then show ?thesis using "1.prems" by (auto simp: levels.simps [of ?f xs] split: if_splits)
  next
    case False
    then have nodes: "set (concat (levels ?f xs)) = set xs \<union> set (concat (levels ?f (parents ?f xs)))"
      and inputs: "set (level_inputs hashv xs) = set (parent_inputs xs) \<union> set (level_inputs hashv (parents ?f xs))"
      by (simp_all add: levels.simps [of ?f xs] level_inputs.simps [of hashv xs])
    from False nodes "1.prems" have "n \<in> set (concat (levels ?f (parents ?f xs)))" by blast
    with False "1.hyps" have "n \<in> set (parents ?f xs) \<or> (\<exists>l r. n = hashv (sorted_pair l r)
        \<and> sorted_pair l r \<in> set (level_inputs hashv (parents ?f xs))
        \<and> {l, r} \<subseteq> set (concat (levels ?f (parents ?f xs))))" by simp
    with parents_inputs [of n hashv xs] show ?thesis unfolding nodes inputs by blast
  qed
qed

lemma collision_free_mono: "collision_free hashv ys \<Longrightarrow> set xs \<subseteq> set ys \<Longrightarrow> collision_free hashv xs"
  unfolding collision_free_def by blast

lemma leaf_not_pair [simp]: "concat [LEAF_PREFIX, d] \<noteq> concat (sorted_pair l r)"
  by (auto simp: LEAF_PREFIX_def sorted_pair_def)

definition node_set :: "hash_fn \<Rightarrow> u8 list list \<Rightarrow> bytes32 set" where
  "node_set hashv items = set (concat (levels (pair_hash hashv True) (map (hash_leaf hashv) items)))"

lemma node_set_cases:
  assumes "n \<in> node_set hashv items"
  obtains d where "d \<in> set items" "n = hashv [LEAF_PREFIX, d]" "[LEAF_PREFIX, d] \<in> set (tree_inputs hashv items)"
    | l r where "n = hashv (sorted_pair l r)" "sorted_pair l r \<in> set (tree_inputs hashv items)"
        "l \<in> node_set hashv items" "r \<in> node_set hashv items"
proof -
  from tree_node_inputs [OF assms [unfolded node_set_def]] show ?thesis
  proof (elim disjE exE conjE)
    assume "n \<in> set (map (hash_leaf hashv) items)"
    then obtain d where "d \<in> set items" "n = hashv [LEAF_PREFIX, d]" by (auto simp: hash_leaf_def)
    then show ?thesis by (intro that(1)) (auto simp: tree_inputs_def)
  next
    fix l r
    assume "n = hashv (sorted_pair l r)" "sorted_pair l r \<in> set (level_inputs hashv (map (hash_leaf hashv) items))"
      "{l, r} \<subseteq> set (concat (levels (pair_hash hashv True) (map (hash_leaf hashv) items)))"
    then show ?thesis by (intro that(2)) (auto simp: tree_inputs_def node_set_def simp del: set_concat)
  qed
qed

lemma tree_root_in_nodes:
  "items \<noteq> [] \<Longrightarrow> tree_root (pair_hash hashv True) (map (hash_leaf hashv) items) \<in> node_set hashv items"
  unfolding node_set_def by (subst last_concat_levels [symmetric]) (auto intro!: last_in_set simp del: set_concat concat_eq_Nil_conv)

lemma collision_freeD:
  "collision_free hashv S \<Longrightarrow> a \<in> set S \<Longrightarrow> b \<in> set S \<Longrightarrow> hashv a = hashv b \<Longrightarrow> concat a = concat b"
  unfolding collision_free_def by blast

lemma path_stays_in_tree:
  assumes "collision_free hashv (tree_inputs hashv items @ path_inputs hashv p c)"
    and "computed_hash hashv p c \<in> node_set hashv items"
  shows "c \<in> node_set hashv items"
  using assms
proof (induction p arbitrary: c)
  case (Cons e p)
  let ?c = "hashv (sorted_pair c e)"
  note free = collision_freeD [OF Cons.prems(1), of _ "sorted_pair c e"]
  have "collision_free hashv (tree_inputs hashv items @ path_inputs hashv p ?c)"
    by (rule collision_free_mono [OF Cons.prems(1)]) auto
  with Cons have "?c \<in> node_set hashv items" by simp
  then show ?case
  proof (cases rule: node_set_cases)
    case (1 d)
    have "concat [LEAF_PREFIX, d] = concat (sorted_pair c e)"
      by (rule free [OF _ _ 1(2) [symmetric]]) (use 1(3) in simp_all)
    then show ?thesis using leaf_not_pair by blast
  next
    case (2 l r)
    have "concat (sorted_pair l r) = concat (sorted_pair c e)"
      by (rule free [OF _ _ 2(1) [symmetric]]) (use 2(2) in simp_all)
    from concat_sorted_pair_eq [OF this] 2 show ?thesis by blast
  qed
qed simp

lemma verify_sound:
  assumes "collision_free hashv (tree_inputs hashv items @ check_inputs hashv p item)"
    and "items \<noteq> []"
    and "verify hashv p (tree_root (pair_hash hashv True) (map (hash_leaf hashv) items)) (hash_leaf hashv item)"
  shows "item \<in> set items"
proof -
  note free = collision_freeD [OF assms(1), of _ "[LEAF_PREFIX, item]"]
  have "collision_free hashv (tree_inputs hashv items @ path_inputs hashv p (hash_leaf hashv item))"
    by (rule collision_free_mono [OF assms(1)]) (auto simp: check_inputs_def)
  with assms have "hashv [LEAF_PREFIX, item] \<in> node_set hashv items"
    using path_stays_in_tree tree_root_in_nodes by (simp add: verify_def hash_leaf_def)
  then show ?thesis
  proof (cases rule: node_set_cases)
    case (1 d)
    have "concat [LEAF_PREFIX, d] = concat [LEAF_PREFIX, item]"
      by (rule free [OF _ _ 1(2) [symmetric]]) (use 1(3) in \<open>simp_all add: check_inputs_def\<close>)
    with 1(1) show ?thesis by simp
  next
    case (2 l r)
    have "concat (sorted_pair l r) = concat [LEAF_PREFIX, item]"
      by (rule free [OF _ _ 2(1) [symmetric]]) (use 2(2) in \<open>simp_all add: check_inputs_def\<close>)
    then show ?thesis using leaf_not_pair by metis
  qed
qed

section \<open>The interface between the tree builder and the program\<close>

text \<open>
  The builder commits to a list of items and hands out a proof per item; the program holds the
  commitment only and checks. \<open>clash_free\<close> is what a check has to rely on of the hash.
\<close>

locale membership_proofs =
  fixes commit :: "'item list \<Rightarrow> 'root option"
    and prove :: "'item list \<Rightarrow> nat \<Rightarrow> 'proof option"
    and check :: "'proof \<Rightarrow> 'root \<Rightarrow> 'item \<Rightarrow> bool"
    and clash_free :: "'item list \<Rightarrow> 'proof \<Rightarrow> 'item \<Rightarrow> bool"
  assumes commits: "commit items = None \<longleftrightarrow> items = []"
    and complete: "commit items = Some root \<Longrightarrow> i < length items \<Longrightarrow>
      \<exists>p. prove items i = Some p \<and> check p root (items ! i)"
    and sound: "commit items = Some root \<Longrightarrow> check p root item \<Longrightarrow> clash_free items p item \<Longrightarrow>
      item \<in> set items"
begin

lemma member_provable:
  assumes "commit items = Some root" "item \<in> set items"
  shows "\<exists>p. check p root item"
  using assms complete by (metis in_set_conv_nth)

lemma provable_iff_member:
  assumes "commit items = Some root" and "\<And>p. clash_free items p item"
  shows "(\<exists>p. check p root item) \<longleftrightarrow> item \<in> set items"
  using assms member_provable sound by blast

lemma same_root_same_items:
  assumes "commit xs = Some root" "commit ys = Some root"
    and "\<And>p item. clash_free xs p item" "\<And>p item. clash_free ys p item"
  shows "set xs = set ys"
  using assms member_provable sound by (metis subsetI subset_antisym)

end

definition tree_commit :: "hash_fn \<Rightarrow> u8 list list \<Rightarrow> bytes32 option" where
  "tree_commit hashv items = do { mt \<leftarrow> mt_new hashv items True; get_root mt }"

definition tree_prove :: "hash_fn \<Rightarrow> u8 list list \<Rightarrow> nat \<Rightarrow> bytes32 list option" where
  "tree_prove hashv items i = do { mt \<leftarrow> mt_new hashv items True; get_proof mt i }"

definition tree_check :: "hash_fn \<Rightarrow> bytes32 list \<Rightarrow> bytes32 \<Rightarrow> u8 list \<Rightarrow> bool" where
  "tree_check hashv proof root item = verify hashv proof root (hash_leaf hashv item)"

definition tree_clash_free :: "hash_fn \<Rightarrow> u8 list list \<Rightarrow> bytes32 list \<Rightarrow> u8 list \<Rightarrow> bool" where
  "tree_clash_free hashv items proof item = collision_free hashv (tree_inputs hashv items @ check_inputs hashv proof item)"

lemma tree_commit_root:
  "tree_commit hashv items =
     (if items = [] then None else Some (tree_root (pair_hash hashv True) (map (hash_leaf hashv) items)))"
proof (cases "items = []")
  case True
  then show ?thesis by (simp add: tree_commit_def mt_new_levels get_root_def levels.simps)
next
  case False
  then show ?thesis
    using get_root_mt_new [OF mt_new_levels False] by (simp add: tree_commit_def mt_new_levels)
qed

lemma tree_prove_siblings:
  "i < length items \<Longrightarrow>
   tree_prove hashv items i = Some (siblings (pair_hash hashv True) (map (hash_leaf hashv) items) i)"
  using get_proof_siblings [OF mt_new_levels] by (simp add: tree_prove_def mt_new_levels)

interpretation sorted_tree: membership_proofs
  "tree_commit hashv" "tree_prove hashv" "tree_check hashv" "tree_clash_free hashv" for hashv
proof unfold_locales
  fix items root i
  assume "tree_commit hashv items = Some root" "i < length items"
  then show "\<exists>p. tree_prove hashv items i = Some p \<and> tree_check hashv p root (items ! i)"
    using computed_hash_siblings [of i "map (hash_leaf hashv) items" hashv]
    by (auto simp: tree_commit_root tree_prove_siblings tree_check_def verify_def split: if_splits)
next
  fix items root p item
  assume "tree_commit hashv items = Some root" "tree_check hashv p root item" "tree_clash_free hashv items p item"
  then show "item \<in> set items"
    using verify_sound [of hashv items p item]
    by (auto simp: tree_commit_root tree_check_def tree_clash_free_def split: if_splits)
qed (simp add: tree_commit_root)

section \<open>Properties\<close>

text \<open>C22: \<^verbatim>\<open>MerkleTree::new\<close> never indexes out of range, and the vector it fills with index arithmetic
  is the concatenation of the levels of the tree: the hashed items, then each level made from the
  pairs of the one below (an odd last node paired with itself), up to a single root.\<close>

theorem merkle_new_refines_levels:
  "map_option mt_nodes (mt_new hashv items sorted_hashes)
     = Some (concat (levels (pair_hash hashv sorted_hashes) (map (hash_leaf hashv) items)))"
  by (simp add: mt_new_levels)

text \<open>C11: Completeness of the sorted tree, for every hash function: for each item of a non-empty list
  the tree has a root, \<^verbatim>\<open>get_proof\<close> returns a proof without panicking, and the program's \<^verbatim>\<open>verify\<close>
  accepts that proof for the item's leaf.\<close>

theorem merkle_proof_complete:
  assumes "i < length items"
  shows "\<exists>mt root proof. mt_new hashv items True = Some mt \<and> get_root mt = Some root
           \<and> get_proof mt i = Some proof \<and> verify hashv proof root (hash_leaf hashv (items ! i))"
proof -
  have ne: "items \<noteq> []" using assms by auto
  obtain mt where mt: "mt_new hashv items True = Some mt" using mt_new_total by blast
  then obtain root where root: "tree_commit hashv items = Some root" "get_root mt = Some root"
    using ne by (simp add: tree_commit_def tree_commit_root get_root_mt_new)
  from sorted_tree.complete [OF root(1) assms] mt root(2) show ?thesis
    by (auto simp: tree_prove_def tree_check_def)
qed

theorem merkle_proof_complete_witness:
  "\<exists>mt root proof. mt_new (\<lambda>s. of_nat (length s)) [[1], [2], [3]] True = Some mt \<and> get_root mt = Some root
     \<and> get_proof mt 2 = Some proof
     \<and> verify (\<lambda>s. of_nat (length s)) proof root (hash_leaf (\<lambda>s. of_nat (length s)) [3])"
  using merkle_proof_complete [of 2 "[[1], [2], [3]]" "\<lambda>s. of_nat (length s)"] by simp

text \<open>C10: Soundness: a proof that \<^verbatim>\<open>verify\<close> accepts against the root of a tree is for one of the tree's
  items, as long as no two of the byte strings hashed to build the tree and to check the proof
  collide. The leaf and the intermediate prefix keep an inner node from passing as a leaf.\<close>

theorem merkle_proof_sound:
  assumes "mt_new hashv items True = Some mt" "get_root mt = Some root"
    and "verify hashv proof root (hash_leaf hashv item)"
    and "collision_free hashv (tree_inputs hashv items @ check_inputs hashv proof item)"
  shows "item \<in> set items"
proof -
  have "tree_commit hashv items = Some root" using assms(1,2) by (simp add: tree_commit_def)
  then show ?thesis using assms(3,4) sorted_tree.sound by (simp add: tree_check_def tree_clash_free_def)
qed

definition toy_hash :: hash_fn where
  "toy_hash slices = (if hd slices = [0] then ucast (hd (last slices)) else 99)"

lemma toy_tree:
  "tree_inputs toy_hash [[1], [2]] = [[[0], [1]], [[0], [2]], sorted_pair 1 2]"
  "check_inputs toy_hash [2] [1] = [[[0], [1]], sorted_pair 1 2]"
  by (simp_all add: tree_inputs_def check_inputs_def level_inputs.simps toy_hash_def LEAF_PREFIX_def
      hash_leaf_def pair_hash_def hash_intermediate_def INTERMEDIATE_PREFIX_def)

lemma toy_hash_pair: "toy_hash (sorted_pair l r) = 99"
  by (simp add: toy_hash_def sorted_pair_def)

theorem merkle_proof_sound_witness:
  "mt_new toy_hash [[1], [2]] True = Some \<lparr>mt_leaf_count = 2, mt_nodes = [1, 2, 99]\<rparr>
   \<and> verify toy_hash [2] 99 (hash_leaf toy_hash [1]) \<and> [1] \<in> set [[1], [2 :: u8]]"
proof -
  have mt: "mt_new toy_hash [[1], [2]] True = Some \<lparr>mt_leaf_count = 2, mt_nodes = [1, 2, 99]\<rparr>"
    by (simp add: mt_new_levels levels.simps hash_leaf_def pair_hash_sorted toy_hash_pair)
      (simp add: toy_hash_def LEAF_PREFIX_def)
  have v: "verify toy_hash [2] 99 (hash_leaf toy_hash [1])" by (simp add: verify_def toy_hash_pair)
  have "collision_free toy_hash (tree_inputs toy_hash [[1], [2]] @ check_inputs toy_hash [2] [1])"
    by (simp add: toy_tree collision_free_def toy_hash_pair) (simp add: toy_hash_def)
  with merkle_proof_sound [OF mt _ v] mt v show ?thesis by (simp add: get_root_def)
qed

text \<open>For a tree without sorted hashing, \<^verbatim>\<open>find_path\<close> returns, for every leaf, a path whose entries
  \<^verbatim>\<open>Proof::verify\<close> accepts one by one, and folding them from the leaf ends at the root; an index
  that is no leaf gives \<^verbatim>\<open>None\<close>.\<close>

lemma find_path_verifies:
  "\<exists>mt. mt_new hashv items False = Some mt \<and>
     (if i < length items
      then \<exists>path. find_path mt i = Some (Some path) \<and> proof_verify hashv path (hash_leaf hashv (items ! i))
             \<and> proof_verify_fold hashv path (hash_leaf hashv (items ! i)) = get_root mt
      else find_path mt i = Some None)"
proof (cases "i < length items")
  case True
  obtain mt where mt: "mt_new hashv items False = Some mt" using mt_new_total by blast
  moreover have "get_root mt = Some (tree_root (pair_hash hashv False) (map (hash_leaf hashv) items))"
    using True by (intro get_root_mt_new [OF mt]) auto
  ultimately show ?thesis
    using True find_path_mt_new [OF mt True] proof_verify_fold_entries [of i "map (hash_leaf hashv) items" hashv]
    by (simp add: proof_verify_def)
next
  case False
  then show ?thesis by (simp add: mt_new_levels find_path_def)
qed

end
