(* ===== verification/Runtime.thy ===== *)
theory Runtime
  imports Claim_Status Merkle_Tree
begin

text \<open>
  What the on-chain programs see of the chain: the invocation (clock and signers), the token
  ledger, and the code that is not part of the repository. That code is a parameter, the record
  \<open>env\<close>: the hash, the derivation of program addresses, the associated token address, base-58
  decoding, and the token program's transfer and burn. What the programs rely on of it is stated
  as named predicates on \<open>env\<close> (\<open>transfer_effect\<close>, \<open>transfer_available\<close>, \<open>burn_effect\<close>, \<open>pda_law\<close>);
  \<open>ledger_transfer\<close> and \<open>ledger_burn\<close> are a plain ledger that meets them.

  A failed instruction changes nothing: an instruction returns \<open>Inl\<close> its error or \<open>Inr\<close> the new
  state of the chain. Rent and lamports are not modelled.
\<close>

section \<open>The token ledger\<close>

record token_account =
  ta_mint :: pubkey
  ta_owner :: pubkey
  ta_amount :: u64

record ledger =
  lg_accounts :: "pubkey \<Rightarrow> token_account option"
  lg_supply :: "pubkey \<Rightarrow> u64 option"

text \<open>The balance of an account, zero when there is none.\<close>

definition balance :: "ledger \<Rightarrow> pubkey \<Rightarrow> nat" where
  "balance l k = (case lg_accounts l k of Some a \<Rightarrow> unat (ta_amount a) | None \<Rightarrow> 0)"

definition moved :: "pubkey \<Rightarrow> pubkey \<Rightarrow> u64 \<Rightarrow> ledger \<Rightarrow> ledger" where
  "moved from to amount l =
     (if from = to then l
      else case (lg_accounts l from, lg_accounts l to) of
        (Some a, Some b) \<Rightarrow>
          l\<lparr>lg_accounts := (lg_accounts l)(from \<mapsto> a\<lparr>ta_amount := ta_amount a - amount\<rparr>,
                                            to \<mapsto> b\<lparr>ta_amount := ta_amount b + amount\<rparr>)\<rparr>
      | _ \<Rightarrow> l)"

definition burned :: "pubkey \<Rightarrow> pubkey \<Rightarrow> u64 \<Rightarrow> ledger \<Rightarrow> ledger" where
  "burned account mint amount l =
     (case (lg_accounts l account, lg_supply l mint) of
        (Some a, Some s) \<Rightarrow>
          l\<lparr>lg_accounts := (lg_accounts l)(account \<mapsto> a\<lparr>ta_amount := ta_amount a - amount\<rparr>),
            lg_supply := (lg_supply l)(mint \<mapsto> s - amount)\<rparr>
      | _ \<Rightarrow> l)"

section \<open>The code outside the repository\<close>

record env =
  program_id :: pubkey
  base58 :: "string \<Rightarrow> pubkey"
  hashv :: hash_fn
  find_program_address :: "u8 list list \<Rightarrow> pubkey \<Rightarrow> pubkey \<times> u8"
  create_program_address :: "u8 list list \<Rightarrow> pubkey \<Rightarrow> pubkey option"
  associated_token_address :: "pubkey \<Rightarrow> pubkey \<Rightarrow> pubkey"
  token_program_id :: pubkey
  associated_token_program_id :: pubkey
  system_program_id :: pubkey
  token_transfer :: "pubkey \<Rightarrow> pubkey \<Rightarrow> pubkey \<Rightarrow> u64 \<Rightarrow> ledger \<Rightarrow> string + ledger"
  token_burn :: "pubkey \<Rightarrow> pubkey \<Rightarrow> pubkey \<Rightarrow> u64 \<Rightarrow> ledger \<Rightarrow> string + ledger"

text \<open>A transfer that succeeds moved the amount between two accounts of one mint; both balances stay
  in range.\<close>

definition transfer_effect :: "env \<Rightarrow> bool" where
  "transfer_effect env \<longleftrightarrow>
     (\<forall>from to authority amount l l'. token_transfer env from to authority amount l = Inr l' \<longrightarrow>
        (\<exists>a b. lg_accounts l from = Some a \<and> lg_accounts l to = Some b \<and> ta_mint a = ta_mint b
          \<and> amount \<le> ta_amount a \<and> (from \<noteq> to \<longrightarrow> unat (ta_amount b) + unat amount < 2 ^ 64)
          \<and> l' = moved from to amount l))"

text \<open>A transfer signed by the owner between existing accounts of one mint, with enough balance and
  no overflow, succeeds (no account is frozen).\<close>

definition transfer_available :: "env \<Rightarrow> bool" where
  "transfer_available env \<longleftrightarrow>
     (\<forall>from to authority amount l a b.
        lg_accounts l from = Some a \<and> lg_accounts l to = Some b \<and> ta_mint a = ta_mint b
        \<and> ta_owner a = authority \<and> amount \<le> ta_amount a
        \<and> (from \<noteq> to \<longrightarrow> unat (ta_amount b) + unat amount < 2 ^ 64) \<longrightarrow>
        token_transfer env from to authority amount l = Inr (moved from to amount l))"

definition burn_effect :: "env \<Rightarrow> bool" where
  "burn_effect env \<longleftrightarrow>
     (\<forall>account mint authority amount l l'. token_burn env account mint authority amount l = Inr l' \<longrightarrow>
        (\<exists>a s. lg_accounts l account = Some a \<and> lg_supply l mint = Some s \<and> ta_mint a = mint
          \<and> amount \<le> ta_amount a \<and> amount \<le> s \<and> l' = burned account mint amount l))"

definition burn_available :: "env \<Rightarrow> bool" where
  "burn_available env \<longleftrightarrow>
     (\<forall>account mint authority amount l a s.
        lg_accounts l account = Some a \<and> lg_supply l mint = Some s \<and> ta_mint a = mint
        \<and> ta_owner a = authority \<and> amount \<le> ta_amount a \<and> amount \<le> s \<longrightarrow>
        token_burn env account mint authority amount l = Inr (burned account mint amount l))"

text \<open>The address found for some seeds is the one created from them and the found bump.\<close>

definition pda_law :: "env \<Rightarrow> bool" where
  "pda_law env \<longleftrightarrow>
     (\<forall>seeds program address bump. find_program_address env seeds program = (address, bump) \<longrightarrow>
        create_program_address env (seeds @ [[bump]]) program = Some address)"

section \<open>A plain ledger that meets the laws\<close>

definition ledger_transfer :: "pubkey \<Rightarrow> pubkey \<Rightarrow> pubkey \<Rightarrow> u64 \<Rightarrow> ledger \<Rightarrow> string + ledger" where
  "ledger_transfer from to authority amount l =
     (case (lg_accounts l from, lg_accounts l to) of
        (Some a, Some b) \<Rightarrow>
          require (ta_mint a = ta_mint b) ''mint mismatch'' (
          require (ta_owner a = authority) ''owner mismatch'' (
          require (amount \<le> ta_amount a) ''insufficient funds'' (
          require (from = to \<or> checked_add (ta_amount b) amount \<noteq> None) ''overflow'' (
          Inr (moved from to amount l)))))
      | _ \<Rightarrow> Inl ''no such account'')"

definition ledger_burn :: "pubkey \<Rightarrow> pubkey \<Rightarrow> pubkey \<Rightarrow> u64 \<Rightarrow> ledger \<Rightarrow> string + ledger" where
  "ledger_burn account mint authority amount l =
     (case (lg_accounts l account, lg_supply l mint) of
        (Some a, Some s) \<Rightarrow>
          require (ta_mint a = mint) ''mint mismatch'' (
          require (ta_owner a = authority) ''owner mismatch'' (
          require (amount \<le> ta_amount a \<and> amount \<le> s) ''insufficient funds'' (
          Inr (burned account mint amount l))))
      | _ \<Rightarrow> Inl ''no such account'')"

definition uses_ledger :: "env \<Rightarrow> bool" where
  "uses_ledger env \<longleftrightarrow> token_transfer env = ledger_transfer \<and> token_burn env = ledger_burn"

lemma ledger_laws:
  assumes "uses_ledger env"
  shows "transfer_effect env" "transfer_available env" "burn_effect env" "burn_available env"
  using assms
  by (auto simp: uses_ledger_def transfer_effect_def transfer_available_def burn_effect_def burn_available_def
      ledger_transfer_def ledger_burn_def ok_iff checked_add_def split: option.splits if_splits)

section \<open>The invocation and the checks Anchor makes\<close>

record ctx =
  cx_slot :: u64
  cx_unix_timestamp :: i64
  cx_signers :: "pubkey list"

definition require_signer :: "ctx \<Rightarrow> pubkey \<Rightarrow> (program_error + 'a) \<Rightarrow> program_error + 'a" where
  "require_signer cx k c = require (k \<in> set (cx_signers cx)) (AnchorError AccountNotSigner) c"

definition load_token :: "ledger \<Rightarrow> pubkey \<Rightarrow> program_error + token_account" where
  "load_token l k = ok_or (lg_accounts l k) (AnchorError AccountNotInitialized)"

definition load_mint :: "ledger \<Rightarrow> pubkey \<Rightarrow> program_error + u64" where
  "load_mint l k = ok_or (lg_supply l k) (AnchorError AccountNotInitialized)"

text \<open>\<^verbatim>\<open>associated_token::mint\<close> and \<^verbatim>\<open>associated_token::authority\<close>: the owner and the derived address.\<close>

definition require_associated ::
  "env \<Rightarrow> pubkey \<Rightarrow> token_account \<Rightarrow> pubkey \<Rightarrow> pubkey \<Rightarrow> (program_error + 'a) \<Rightarrow> program_error + 'a" where
  "require_associated env k a mint authority c =
     require (ta_owner a = authority) (AnchorError ConstraintTokenOwner) (
     require (k = associated_token_address env authority mint) (AnchorError ConstraintAssociated) c)"

lemma require_signer_Inr [ok_iff]: "require_signer cx k c = Inr x \<longleftrightarrow> k \<in> set (cx_signers cx) \<and> c = Inr x"
  by (simp add: require_signer_def ok_iff)

lemma load_token_Inr [ok_iff]: "load_token l k = Inr a \<longleftrightarrow> lg_accounts l k = Some a"
  by (simp add: load_token_def ok_iff)

lemma load_mint_Inr [ok_iff]: "load_mint l k = Inr s \<longleftrightarrow> lg_supply l k = Some s"
  by (simp add: load_mint_def ok_iff)

lemma require_associated_Inr [ok_iff]:
  "require_associated env k a mint authority c = Inr x \<longleftrightarrow>
     ta_owner a = authority \<and> k = associated_token_address env authority mint \<and> c = Inr x"
  by (auto simp: require_associated_def ok_iff)

section \<open>Balances under a transfer and a burn\<close>

text \<open>What a change of the ledger keeps of an account: it stays, with its mint and owner.\<close>

definition keeps_accounts :: "ledger \<Rightarrow> ledger \<Rightarrow> bool" where
  "keeps_accounts l l' \<longleftrightarrow>
     (\<forall>k a. lg_accounts l k = Some a \<longrightarrow>
        (\<exists>a'. lg_accounts l' k = Some a' \<and> ta_mint a' = ta_mint a \<and> ta_owner a' = ta_owner a))"

lemma keeps_accountsD:
  assumes "keeps_accounts l l'" "lg_accounts l k = Some a"
  obtains a' where "lg_accounts l' k = Some a'" "ta_mint a' = ta_mint a" "ta_owner a' = ta_owner a"
  using assms by (auto simp: keeps_accounts_def)

lemma keeps_accounts_refl [simp]: "keeps_accounts l l"
  by (simp add: keeps_accounts_def)

lemma moved_keeps [simp]: "keeps_accounts l (moved from to amount l)"
  by (auto simp: keeps_accounts_def moved_def split: option.split)

lemma burned_keeps [simp]: "keeps_accounts l (burned account mint amount l)"
  by (auto simp: keeps_accounts_def burned_def split: option.split)

lemma moved_supply [simp]: "lg_supply (moved from to amount l) = lg_supply l"
  by (simp add: moved_def split: option.split)

lemma transfer_effectE:
  assumes "transfer_effect env" "token_transfer env from to authority amount l = Inr l'"
  obtains a b where "lg_accounts l from = Some a" "lg_accounts l to = Some b" "ta_mint a = ta_mint b"
    "amount \<le> ta_amount a" "from \<noteq> to \<longrightarrow> unat (ta_amount b) + unat amount < 2 ^ 64"
    "l' = moved from to amount l"
  using assms unfolding transfer_effect_def by blast

lemma burn_effectE:
  assumes "burn_effect env" "token_burn env account mint authority amount l = Inr l'"
  obtains a s where "lg_accounts l account = Some a" "lg_supply l mint = Some s" "ta_mint a = mint"
    "amount \<le> ta_amount a" "amount \<le> s" "l' = burned account mint amount l"
  using assms unfolding burn_effect_def by blast

lemma transfer_keeps:
  assumes "transfer_effect env" "token_transfer env from to authority amount l = Inr l'"
  shows "keeps_accounts l l'" and "lg_supply l' = lg_supply l"
  using assms by (auto elim: transfer_effectE)

lemma transfer_balance:
  assumes "transfer_effect env" "token_transfer env from to authority amount l = Inr l'"
  shows "balance l' k + (if k = from \<and> from \<noteq> to then unat amount else 0)
       = balance l k + (if k = to \<and> from \<noteq> to then unat amount else 0)"
    and "unat amount \<le> balance l from"
proof -
  obtain a b where ab: "lg_accounts l from = Some a" "lg_accounts l to = Some b"
    "ta_mint a = ta_mint b" "amount \<le> ta_amount a" "from \<noteq> to \<longrightarrow> unat (ta_amount b) + unat amount < 2 ^ 64" "l' = moved from to amount l"
    using assms by (rule transfer_effectE)
  show "balance l' k + (if k = from \<and> from \<noteq> to then unat amount else 0)
       = balance l k + (if k = to \<and> from \<noteq> to then unat amount else 0)"
  proof (cases "from = to")
    case False
    then have "unat (ta_amount a - amount) = unat (ta_amount a) - unat amount"
      "unat (ta_amount b + amount) = unat (ta_amount b) + unat amount" "unat amount \<le> unat (ta_amount a)"
      using ab(4,5) by (simp_all add: unat_sub unat_add_ok word_le_nat_alt)
    then show ?thesis using ab False by (auto simp: balance_def moved_def)
  qed (simp add: ab(6) moved_def)
  show "unat amount \<le> balance l from" using ab by (simp add: balance_def word_le_nat_alt)
qed

lemma burn_keeps:
  assumes "burn_effect env" "token_burn env account mint authority amount l = Inr l'"
  shows "keeps_accounts l l'"
  using assms by (auto elim: burn_effectE)

lemma burn_balance:
  assumes "burn_effect env" "token_burn env account mint authority amount l = Inr l'"
  shows "balance l' k + (if k = account then unat amount else 0) = balance l k"
proof -
  obtain a s where as: "lg_accounts l account = Some a" "lg_supply l mint = Some s" "ta_mint a = mint"
    "amount \<le> ta_amount a" "amount \<le> s" "l' = burned account mint amount l"
    using assms by (rule burn_effectE)
  then have "unat (ta_amount a - amount) = unat (ta_amount a) - unat amount" "unat amount \<le> unat (ta_amount a)"
    by (simp_all add: unat_sub word_le_nat_alt)
  then show ?thesis using as by (auto simp: balance_def burned_def)
qed

end
