(* ===== verification/Distributor.thy ===== *)
theory Distributor
  imports Runtime
begin

text \<open>
  The program \<^verbatim>\<open>programs/merkle-distributor\<close>: the distributor account
  (\<^verbatim>\<open>state/merkle_distributor.rs\<close>), the events (\<^verbatim>\<open>state/claimed_event.rs\<close>) and one definition per
  instruction of \<^verbatim>\<open>instructions/\<close>. Each instruction is the whole of it: first the checks Anchor
  derives from its \<^verbatim>\<open>#[derive(Accounts)]\<close> structure, in the order of the structure, then the
  handler, statement by statement. \<open>exec\<close> is the dispatch of \<^verbatim>\<open>lib.rs\<close>.

  The accounts an instruction is called with are a record of their addresses; what is stored at
  them is the state of the chain. Log messages are left out, except where computing one can panic.
\<close>

section \<open>Accounts, events and the state of the chain\<close>

record merkle_distributor =
  md_bump :: u8
  md_version :: u64
  md_root :: bytes32
  md_mint :: pubkey
  md_token_vault :: pubkey
  md_max_total_claim :: u64
  md_max_num_nodes :: u64
  md_total_amount_claimed :: u64
  md_total_amount_forgone :: u64
  md_num_nodes_claimed :: u64
  md_start_ts :: i64
  md_end_ts :: i64
  md_clawback_start_ts :: i64
  md_clawback_receiver :: pubkey
  md_admin :: pubkey
  md_clawed_back :: bool
  md_enable_slot :: u64
  md_closable :: bool
  md_buffer_0 :: bytes32
  md_buffer_1 :: bytes32
  md_buffer_2 :: bytes32

definition merkle_distributor_default :: merkle_distributor where
  "merkle_distributor_default =
     \<lparr>md_bump = 0, md_version = 0, md_root = 0, md_mint = Pubkey 0, md_token_vault = Pubkey 0,
      md_max_total_claim = 0, md_max_num_nodes = 0, md_total_amount_claimed = 0,
      md_total_amount_forgone = 0, md_num_nodes_claimed = 0, md_start_ts = I64 0, md_end_ts = I64 0,
      md_clawback_start_ts = I64 0, md_clawback_receiver = Pubkey 0, md_admin = Pubkey 0,
      md_clawed_back = False, md_enable_slot = 0, md_closable = False, md_buffer_0 = 0,
      md_buffer_1 = 0, md_buffer_2 = 0\<rparr>"

datatype event =
    NewClaimEvent (ev_claimant: pubkey) (ev_timestamp: i64) (ev_amount_claimed: u64) (ev_amount_forgone: u64)
  | ClaimedEvent (ev_claimant: pubkey) (ev_amount: u64)
  | SetRootEvent (ev_distributor: pubkey) (ev_old_root: bytes32) (ev_new_root: bytes32)
      (ev_old_max_total_claim: u64) (ev_new_max_total_claim: u64) (ev_burned: u64)

record chain =
  ch_distributors :: "pubkey \<Rightarrow> merkle_distributor option"
  ch_claim_statuses :: "pubkey \<Rightarrow> claim_status option"
  ch_ledger :: ledger
  ch_events :: "event list"

definition SECONDS_PER_DAY :: i64 where "SECONDS_PER_DAY = i64_of (3600 * 24)"

definition admin_id :: "env \<Rightarrow> pubkey" where
  "admin_id env = base58 env ''prpHJmuXnqdaz92tBVdwsqmqyhqPLuq5Km35a5QWco3''"

definition DFX_MINTS :: "env \<Rightarrow> pubkey list" where
  "DFX_MINTS env = [base58 env ''dfxQsZjikuu5DGXPgX7yEpRog74HT5cJgytT3i5iLtw'',
                    base58 env ''dfxKL8VLUjLMCnFiJ57ZjrjGDiDMLRX8tHmg8biUV39'']"

definition ascii :: "string \<Rightarrow> u8 list" where
  "ascii s = map of_char s"

definition distributor_seeds :: "pubkey \<Rightarrow> u64 \<Rightarrow> u8 list list" where
  "distributor_seeds mint version = [ascii ''MerkleDistributor'', to_bytes mint, le_bytes version]"

definition claim_status_seeds :: "pubkey \<Rightarrow> pubkey \<Rightarrow> u8 list list" where
  "claim_status_seeds claimant distributor = [ascii ''ClaimStatus'', to_bytes claimant, to_bytes distributor]"

definition claim_status_key :: "env \<Rightarrow> pubkey \<Rightarrow> pubkey \<Rightarrow> pubkey" where
  "claim_status_key env claimant distributor =
     fst (find_program_address env (claim_status_seeds claimant distributor) (program_id env))"

section \<open>Shared steps\<close>

definition load_distributor :: "chain \<Rightarrow> pubkey \<Rightarrow> program_error + merkle_distributor" where
  "load_distributor c k = ok_or (ch_distributors c k) (AnchorError AccountNotInitialized)"

definition load_claim_status :: "chain \<Rightarrow> pubkey \<Rightarrow> program_error + claim_status" where
  "load_claim_status c k = ok_or (ch_claim_statuses c k) (AnchorError AccountNotInitialized)"

text \<open>\<^verbatim>\<open>init\<close>: nothing is stored at the address yet.\<close>

definition require_unused :: "chain \<Rightarrow> pubkey \<Rightarrow> (program_error + 'a) \<Rightarrow> program_error + 'a" where
  "require_unused c k r =
     require (ch_distributors c k = None \<and> ch_claim_statuses c k = None
              \<and> lg_accounts (ch_ledger c) k = None \<and> lg_supply (ch_ledger c) k = None)
       (AnchorError AccountAlreadyInUse) r"

text \<open>A call into the token program signed with the distributor's seeds: the runtime lets it through
  only if the seeds give the address of the authority.\<close>

definition signer_seeds :: "merkle_distributor \<Rightarrow> u8 list list" where
  "signer_seeds md = distributor_seeds (md_mint md) (md_version md) @ [[md_bump md]]"

definition vault_transfer ::
  "env \<Rightarrow> merkle_distributor \<Rightarrow> pubkey \<Rightarrow> pubkey \<Rightarrow> pubkey \<Rightarrow> u64 \<Rightarrow> ledger \<Rightarrow> program_error + ledger" where
  "vault_transfer env md authority from to amount l =
     require (create_program_address env (signer_seeds md) (program_id env) = Some authority)
       (AnchorError PrivilegeEscalation)
       (map_err CpiError (token_transfer env from to authority amount l))"

definition vault_burn ::
  "env \<Rightarrow> merkle_distributor \<Rightarrow> pubkey \<Rightarrow> pubkey \<Rightarrow> pubkey \<Rightarrow> u64 \<Rightarrow> ledger \<Rightarrow> program_error + ledger" where
  "vault_burn env md authority account mint amount l =
     require (create_program_address env (signer_seeds md) (program_id env) = Some authority)
       (AnchorError PrivilegeEscalation)
       (map_err CpiError (token_burn env account mint authority amount l))"

section \<open>\<^verbatim>\<open>new_distributor\<close>\<close>

record new_distributor_accounts =
  nd_distributor :: pubkey
  nd_clawback_receiver :: pubkey
  nd_mint :: pubkey
  nd_token_vault :: pubkey
  nd_admin :: pubkey
  nd_system_program :: pubkey
  nd_associated_token_program :: pubkey
  nd_token_program :: pubkey

record new_distributor_args =
  na_version :: u64
  na_root :: bytes32
  na_max_total_claim :: u64
  na_max_num_nodes :: u64
  na_start_vesting_ts :: i64
  na_end_vesting_ts :: i64
  na_clawback_start_ts :: i64
  na_enable_slot :: u64
  na_closable :: bool

definition check_new_distributor ::
  "env \<Rightarrow> ctx \<Rightarrow> new_distributor_accounts \<Rightarrow> u64 \<Rightarrow> chain \<Rightarrow> program_error + u8" where
  "check_new_distributor env cx a version c =
     (let (address, bump) = find_program_address env (distributor_seeds (nd_mint a) version) (program_id env) in
     require (nd_distributor a = address) (AnchorError ConstraintSeeds) (
     require_unused c (nd_distributor a) (
     and_then (load_token (ch_ledger c) (nd_clawback_receiver a)) (\<lambda>receiver.
     and_then (load_mint (ch_ledger c) (nd_mint a)) (\<lambda>_.
     and_then (load_token (ch_ledger c) (nd_token_vault a)) (\<lambda>vault.
     require_signer cx (nd_admin a) (
     require (nd_system_program a = system_program_id env) (AnchorError InvalidProgramId) (
     require (nd_associated_token_program a = associated_token_program_id env) (AnchorError InvalidProgramId) (
     require (nd_token_program a = token_program_id env) (AnchorError InvalidProgramId) (
     require (ta_mint receiver = nd_mint a) (AnchorError ConstraintTokenMint) (
     require_associated env (nd_token_vault a) vault (nd_mint a) (nd_distributor a) (
     require (nd_admin a = admin_id env) (AnchorError ConstraintAddress) (
     Inr bump)))))))))))))"

definition handle_new_distributor ::
  "ctx \<Rightarrow> new_distributor_accounts \<Rightarrow> new_distributor_args \<Rightarrow> u8 \<Rightarrow> merkle_distributor
     \<Rightarrow> program_error + merkle_distributor" where
  "handle_new_distributor cx a args bump distributor =
     (let curr_ts = cx_unix_timestamp cx in
     require (na_start_vesting_ts args < na_end_vesting_ts args) (ErrorCode StartTimestampAfterEnd) (
     require (curr_ts < na_end_vesting_ts args \<and> curr_ts < na_clawback_start_ts args)
       (ErrorCode TimestampsNotInFuture) (
     require (na_end_vesting_ts args < na_clawback_start_ts args) (ErrorCode ClawbackDuringVesting) (
     and_then (ok_or (checked_add_i64 (na_end_vesting_ts args) SECONDS_PER_DAY) (ErrorCode ArithmeticError))
       (\<lambda>earliest.
     require (earliest \<le> na_clawback_start_ts args) (ErrorCode InsufficientClawbackDelay) (
     Inr (distributor\<lparr>
       md_bump := bump,
       md_version := na_version args,
       md_root := na_root args,
       md_mint := nd_mint a,
       md_token_vault := nd_token_vault a,
       md_max_total_claim := na_max_total_claim args,
       md_max_num_nodes := na_max_num_nodes args,
       md_total_amount_claimed := 0,
       md_num_nodes_claimed := 0,
       md_start_ts := na_start_vesting_ts args,
       md_end_ts := na_end_vesting_ts args,
       md_clawback_start_ts := na_clawback_start_ts args,
       md_clawback_receiver := nd_clawback_receiver a,
       md_admin := nd_admin a,
       md_clawed_back := False,
       md_enable_slot := na_enable_slot args,
       md_closable := na_closable args\<rparr>)))))))"

definition new_distributor ::
  "env \<Rightarrow> ctx \<Rightarrow> new_distributor_accounts \<Rightarrow> new_distributor_args \<Rightarrow> chain \<Rightarrow> program_error + chain" where
  "new_distributor env cx a args c =
     and_then (check_new_distributor env cx a (na_version args) c) (\<lambda>bump.
     and_then (handle_new_distributor cx a args bump merkle_distributor_default) (\<lambda>md.
     Inr (c\<lparr>ch_distributors := (ch_distributors c)(nd_distributor a \<mapsto> md)\<rparr>)))"

section \<open>\<^verbatim>\<open>new_claim\<close>\<close>

record new_claim_accounts =
  nc_distributor :: pubkey
  nc_claim_status :: pubkey
  nc_from :: pubkey
  nc_to :: pubkey
  nc_claimant :: pubkey
  nc_token_program :: pubkey
  nc_system_program :: pubkey

definition check_new_claim ::
  "env \<Rightarrow> ctx \<Rightarrow> new_claim_accounts \<Rightarrow> chain \<Rightarrow> program_error + merkle_distributor" where
  "check_new_claim env cx a c =
     and_then (load_distributor c (nc_distributor a)) (\<lambda>md.
     require (nc_claim_status a = claim_status_key env (nc_claimant a) (nc_distributor a))
       (AnchorError ConstraintSeeds) (
     require_unused c (nc_claim_status a) (
     and_then (load_token (ch_ledger c) (nc_from a)) (\<lambda>from.
     and_then (load_token (ch_ledger c) (nc_to a)) (\<lambda>to.
     require_signer cx (nc_claimant a) (
     require (nc_token_program a = token_program_id env) (AnchorError InvalidProgramId) (
     require (nc_system_program a = system_program_id env) (AnchorError InvalidProgramId) (
     require (nc_from a = md_token_vault md) (AnchorError ConstraintAddress) (
     require_associated env (nc_from a) from (md_mint md) (nc_distributor a) (
     require (ta_mint to = md_mint md) (AnchorError ConstraintTokenMint) (
     require (ta_owner to = nc_claimant a) (AnchorError ConstraintTokenOwner) (
     require (nc_claimant a = ta_owner to) (ErrorCode OwnerMismatch) (
     Inr md)))))))))))))"

definition handle_new_claim ::
  "env \<Rightarrow> ctx \<Rightarrow> new_claim_accounts \<Rightarrow> u64 \<Rightarrow> u64 \<Rightarrow> bytes32 list \<Rightarrow> merkle_distributor \<Rightarrow> claim_status
     \<Rightarrow> chain \<Rightarrow> program_error + chain" where
  "handle_new_claim env cx a amount_unlocked amount_locked proof distributor claim_status c =
     (let curr_ts = cx_unix_timestamp cx; curr_slot = cx_slot cx in
     require (\<not> md_clawed_back distributor) (ErrorCode ClaimExpired) (
     require (md_enable_slot distributor \<le> curr_slot) (ErrorCode ClaimingIsNotStarted) (
     require (md_start_ts distributor \<le> curr_ts) (ErrorCode ClaimingIsNotStarted) (
     and_then (ok_or (checked_add (md_num_nodes_claimed distributor) 1) (ErrorCode ArithmeticError))
       (\<lambda>num_nodes_claimed.
     require (num_nodes_claimed \<le> md_max_num_nodes distributor) (ErrorCode MaxNodesExceeded) (
     let node = hashv env [to_bytes (nc_claimant a), le_bytes amount_unlocked, le_bytes amount_locked];
         leaf = hashv env [LEAF_PREFIX, be_bytes node] in
     require (verify (hashv env) proof (md_root distributor) leaf) (ErrorCode InvalidProof) (
     and_then (update_unlocked_amount_claimed
         (claim_status\<lparr>cs_claimant := nc_claimant a, cs_locked_amount := amount_locked,
            cs_locked_amount_withdrawn := 0, cs_unlocked_amount := amount_unlocked,
            cs_closable := md_closable distributor, cs_distributor := nc_distributor a\<rparr>)
         curr_ts (md_start_ts distributor) (md_end_ts distributor)) (\<lambda>claim_status.
     and_then (get_unlocked_amount_forgone claim_status) (\<lambda>amount_forgone.
     and_then (vault_transfer env distributor (nc_distributor a) (nc_from a) (nc_to a)
         (cs_unlocked_amount_claimed claim_status) (ch_ledger c)) (\<lambda>ledger.
     and_then (ok_or (checked_add (md_total_amount_claimed distributor)
         (cs_unlocked_amount_claimed claim_status)) (ErrorCode ArithmeticError)) (\<lambda>total_amount_claimed.
     and_then (ok_or (checked_add (md_total_amount_forgone distributor) amount_forgone)
         (ErrorCode ArithmeticError)) (\<lambda>total_amount_forgone.
     and_then (ok_or (checked_add total_amount_claimed total_amount_forgone) (ErrorCode ArithmeticError))
       (\<lambda>settled.
     require (settled \<le> md_max_total_claim distributor) (ErrorCode ExceededMaxClaim) (
     Inr (c\<lparr>ch_distributors := (ch_distributors c)(nc_distributor a \<mapsto>
              distributor\<lparr>md_num_nodes_claimed := num_nodes_claimed,
                           md_total_amount_claimed := total_amount_claimed,
                           md_total_amount_forgone := total_amount_forgone\<rparr>),
            ch_claim_statuses := (ch_claim_statuses c)(nc_claim_status a \<mapsto> claim_status),
            ch_ledger := ledger,
            ch_events := ch_events c @ [NewClaimEvent (nc_claimant a) curr_ts
              (cs_unlocked_amount_claimed claim_status) amount_forgone]\<rparr>)))))))))))))))"

definition new_claim ::
  "env \<Rightarrow> ctx \<Rightarrow> new_claim_accounts \<Rightarrow> u64 \<Rightarrow> u64 \<Rightarrow> bytes32 list \<Rightarrow> chain \<Rightarrow> program_error + chain" where
  "new_claim env cx a amount_unlocked amount_locked proof c =
     and_then (check_new_claim env cx a c) (\<lambda>md.
     handle_new_claim env cx a amount_unlocked amount_locked proof md claim_status_default c)"

section \<open>\<^verbatim>\<open>claim_locked\<close>\<close>

record claim_locked_accounts =
  cl_distributor :: pubkey
  cl_claim_status :: pubkey
  cl_from :: pubkey
  cl_to :: pubkey
  cl_claimant :: pubkey
  cl_token_program :: pubkey

definition check_claim_locked ::
  "env \<Rightarrow> ctx \<Rightarrow> claim_locked_accounts \<Rightarrow> chain \<Rightarrow> program_error + (merkle_distributor \<times> claim_status)" where
  "check_claim_locked env cx a c =
     and_then (load_distributor c (cl_distributor a)) (\<lambda>md.
     and_then (load_claim_status c (cl_claim_status a)) (\<lambda>cs.
     and_then (load_token (ch_ledger c) (cl_from a)) (\<lambda>from.
     and_then (load_token (ch_ledger c) (cl_to a)) (\<lambda>to.
     require_signer cx (cl_claimant a) (
     require (cl_token_program a = token_program_id env) (AnchorError InvalidProgramId) (
     require (cl_claim_status a = claim_status_key env (cl_claimant a) (cl_distributor a))
       (AnchorError ConstraintSeeds) (
     require (cl_from a = md_token_vault md) (AnchorError ConstraintAddress) (
     require_associated env (cl_from a) from (md_mint md) (cl_distributor a) (
     require (ta_owner to = cl_claimant a) (AnchorError ConstraintTokenOwner) (
     require (cl_claimant a = ta_owner to) (ErrorCode OwnerMismatch) (
     Inr (md, cs))))))))))))"

definition handle_claim_locked ::
  "env \<Rightarrow> ctx \<Rightarrow> claim_locked_accounts \<Rightarrow> merkle_distributor \<Rightarrow> claim_status \<Rightarrow> chain \<Rightarrow> program_error + chain" where
  "handle_claim_locked env cx a distributor claim_status c =
     (let curr_ts = cx_unix_timestamp cx; curr_slot = cx_slot cx in
     require (\<not> md_clawed_back distributor) (ErrorCode ClaimExpired) (
     require (md_enable_slot distributor \<le> curr_slot) (ErrorCode ClaimingIsNotStarted) (
     and_then (amount_withdrawable claim_status curr_ts (md_start_ts distributor) (md_end_ts distributor))
       (\<lambda>amount.
     require (0 < amount) (ErrorCode InsufficientUnlockedTokens) (
     and_then (vault_transfer env distributor (cl_distributor a) (cl_from a) (cl_to a) amount (ch_ledger c))
       (\<lambda>ledger.
     and_then (ok_or (checked_add (cs_locked_amount_withdrawn claim_status) amount) (ErrorCode ArithmeticError))
       (\<lambda>locked_amount_withdrawn.
     require (locked_amount_withdrawn \<le> cs_locked_amount claim_status) (ErrorCode ExceededMaxClaim) (
     and_then (ok_or (checked_add (md_total_amount_claimed distributor) amount) (ErrorCode ArithmeticError))
       (\<lambda>total_amount_claimed.
     require (total_amount_claimed \<le> md_max_total_claim distributor) (ErrorCode ExceededMaxClaim) (
     and_then (if curr_ts < md_end_ts distributor
               then ok_or (checked_sub_i64 (md_end_ts distributor) curr_ts) Panic else Inr (I64 0))
       (\<lambda>remaining_seconds.
     Inr (c\<lparr>ch_distributors := (ch_distributors c)(cl_distributor a \<mapsto>
              distributor\<lparr>md_total_amount_claimed := total_amount_claimed\<rparr>),
            ch_claim_statuses := (ch_claim_statuses c)(cl_claim_status a \<mapsto>
              claim_status\<lparr>cs_locked_amount_withdrawn := locked_amount_withdrawn\<rparr>),
            ch_ledger := ledger,
            ch_events := ch_events c @ [ClaimedEvent (cl_claimant a) amount]\<rparr>))))))))))))"

definition claim_locked ::
  "env \<Rightarrow> ctx \<Rightarrow> claim_locked_accounts \<Rightarrow> chain \<Rightarrow> program_error + chain" where
  "claim_locked env cx a c =
     and_then (check_claim_locked env cx a c) (\<lambda>(md, cs). handle_claim_locked env cx a md cs c)"

section \<open>\<^verbatim>\<open>clawback\<close>\<close>

record clawback_accounts =
  cb_distributor :: pubkey
  cb_from :: pubkey
  cb_to :: pubkey
  cb_claimant :: pubkey
  cb_system_program :: pubkey
  cb_token_program :: pubkey

definition check_clawback ::
  "env \<Rightarrow> ctx \<Rightarrow> clawback_accounts \<Rightarrow> chain \<Rightarrow> program_error + (merkle_distributor \<times> token_account)" where
  "check_clawback env cx a c =
     and_then (load_distributor c (cb_distributor a)) (\<lambda>md.
     and_then (load_token (ch_ledger c) (cb_from a)) (\<lambda>from.
     and_then (load_token (ch_ledger c) (cb_to a)) (\<lambda>to.
     require_signer cx (cb_claimant a) (
     require (cb_system_program a = system_program_id env) (AnchorError InvalidProgramId) (
     require (cb_token_program a = token_program_id env) (AnchorError InvalidProgramId) (
     require (cb_from a = md_token_vault md) (AnchorError ConstraintAddress) (
     require_associated env (cb_from a) from (md_mint md) (cb_distributor a) (
     require (cb_to a = md_clawback_receiver md) (AnchorError ConstraintAddress) (
     Inr (md, from))))))))))"

definition handle_clawback ::
  "env \<Rightarrow> ctx \<Rightarrow> clawback_accounts \<Rightarrow> merkle_distributor \<Rightarrow> token_account \<Rightarrow> chain \<Rightarrow> program_error + chain" where
  "handle_clawback env cx a distributor from c =
     require (\<not> md_clawed_back distributor) (ErrorCode ClawbackAlreadyClaimed) (
     let curr_ts = cx_unix_timestamp cx in
     if curr_ts < md_clawback_start_ts distributor then Inl (ErrorCode ClawbackBeforeStart)
     else
       and_then (vault_transfer env distributor (cb_distributor a) (cb_from a) (cb_to a) (ta_amount from)
         (ch_ledger c)) (\<lambda>ledger.
       Inr (c\<lparr>ch_distributors := (ch_distributors c)(cb_distributor a \<mapsto> distributor\<lparr>md_clawed_back := True\<rparr>),
              ch_ledger := ledger\<rparr>)))"

definition clawback :: "env \<Rightarrow> ctx \<Rightarrow> clawback_accounts \<Rightarrow> chain \<Rightarrow> program_error + chain" where
  "clawback env cx a c =
     and_then (check_clawback env cx a c) (\<lambda>(md, from). handle_clawback env cx a md from c)"

section \<open>Closing accounts\<close>

record close_distributor_accounts =
  cd_distributor :: pubkey
  cd_token_vault :: pubkey
  cd_admin :: pubkey
  cd_destination_token_account :: pubkey
  cd_token_program :: pubkey

definition check_close_distributor ::
  "env \<Rightarrow> ctx \<Rightarrow> close_distributor_accounts \<Rightarrow> chain \<Rightarrow> program_error + (merkle_distributor \<times> token_account)" where
  "check_close_distributor env cx a c =
     and_then (load_distributor c (cd_distributor a)) (\<lambda>md.
     and_then (load_token (ch_ledger c) (cd_token_vault a)) (\<lambda>vault.
     require_signer cx (cd_admin a) (
     and_then (load_token (ch_ledger c) (cd_destination_token_account a)) (\<lambda>_.
     require (cd_token_program a = token_program_id env) (AnchorError InvalidProgramId) (
     require (md_admin md = cd_admin a) (AnchorError ConstraintHasOne) (
     require (md_token_vault md = cd_token_vault a) (AnchorError ConstraintHasOne) (
     require (md_closable md) (ErrorCode CannotCloseDistributor) (
     Inr (md, vault)))))))))"

definition handle_close_distributor ::
  "env \<Rightarrow> close_distributor_accounts \<Rightarrow> merkle_distributor \<Rightarrow> token_account \<Rightarrow> chain \<Rightarrow> program_error + chain" where
  "handle_close_distributor env a distributor vault c =
     and_then (vault_transfer env distributor (cd_distributor a) (cd_token_vault a)
       (cd_destination_token_account a) (ta_amount vault) (ch_ledger c)) (\<lambda>ledger.
     Inr (c\<lparr>ch_ledger := ledger\<rparr>))"

text \<open>\<^verbatim>\<open>close = admin\<close> removes the account after the handler.\<close>

definition close_distributor ::
  "env \<Rightarrow> ctx \<Rightarrow> close_distributor_accounts \<Rightarrow> chain \<Rightarrow> program_error + chain" where
  "close_distributor env cx a c =
     and_then (check_close_distributor env cx a c) (\<lambda>(md, vault).
     and_then (handle_close_distributor env a md vault c) (\<lambda>c'.
     Inr (c'\<lparr>ch_distributors := (ch_distributors c')(cd_distributor a := None)\<rparr>)))"

record close_claim_status_accounts =
  cc_claim_status :: pubkey
  cc_claimant :: pubkey
  cc_admin :: pubkey
  cc_distributor :: pubkey

definition check_close_claim_status ::
  "ctx \<Rightarrow> close_claim_status_accounts \<Rightarrow> chain \<Rightarrow> program_error + unit" where
  "check_close_claim_status cx a c =
     and_then (load_claim_status c (cc_claim_status a)) (\<lambda>cs.
     require_signer cx (cc_admin a) (
     and_then (load_distributor c (cc_distributor a)) (\<lambda>md.
     require (cs_claimant cs = cc_claimant a) (AnchorError ConstraintHasOne) (
     require (cs_distributor cs = cc_distributor a) (AnchorError ConstraintHasOne) (
     require (cs_closable cs) (ErrorCode CannotCloseClaimStatus) (
     require (md_admin md = cc_admin a) (AnchorError ConstraintHasOne) (
     Inr ())))))))"

definition handle_close_status :: "program_error + unit" where
  "handle_close_status = Inl Panic"

definition close_claim_status ::
  "ctx \<Rightarrow> close_claim_status_accounts \<Rightarrow> chain \<Rightarrow> program_error + chain" where
  "close_claim_status cx a c =
     and_then (check_close_claim_status cx a c) (\<lambda>_.
     and_then handle_close_status (\<lambda>_.
     Inr (c\<lparr>ch_claim_statuses := (ch_claim_statuses c)(cc_claim_status a := None)\<rparr>)))"

section \<open>\<^verbatim>\<open>set_root\<close>\<close>

record set_root_accounts =
  sr_distributor :: pubkey
  sr_token_vault :: pubkey
  sr_mint :: pubkey
  sr_admin :: pubkey
  sr_token_program :: pubkey

definition check_set_root ::
  "env \<Rightarrow> ctx \<Rightarrow> set_root_accounts \<Rightarrow> chain \<Rightarrow> program_error + (merkle_distributor \<times> token_account)" where
  "check_set_root env cx a c =
     and_then (load_distributor c (sr_distributor a)) (\<lambda>md.
     and_then (load_token (ch_ledger c) (sr_token_vault a)) (\<lambda>vault.
     and_then (load_mint (ch_ledger c) (sr_mint a)) (\<lambda>_.
     require_signer cx (sr_admin a) (
     require (sr_token_program a = token_program_id env) (AnchorError InvalidProgramId) (
     require (sr_token_vault a = md_token_vault md) (AnchorError ConstraintAddress) (
     require (sr_mint a = md_mint md) (AnchorError ConstraintAddress) (
     require (sr_admin a = md_admin md) (ErrorCode Unauthorized) (
     Inr (md, vault)))))))))"

definition validate_set_root ::
  "env \<Rightarrow> merkle_distributor \<Rightarrow> u64 \<Rightarrow> bytes32 \<Rightarrow> u64 \<Rightarrow> u64 \<Rightarrow> program_error + u64" where
  "validate_set_root env distributor vault_amount expected_old_root expected_num_nodes_claimed new_max_total_claim =
     require (md_mint distributor \<in> set (DFX_MINTS env)) (ErrorCode MintNotReRootable) (
     require (\<not> md_clawed_back distributor) (ErrorCode ClawbackAlreadyClaimed) (
     require (md_enable_slot distributor = - 1) (ErrorCode DistributorNotPaused) (
     require (md_root distributor = expected_old_root) (ErrorCode RootMismatch) (
     require (md_num_nodes_claimed distributor = expected_num_nodes_claimed) (ErrorCode ClaimCountMismatch) (
     require (new_max_total_claim \<le> md_max_total_claim distributor) (ErrorCode MaxTotalClaimIncrease) (
     and_then (ok_or (checked_add (md_total_amount_claimed distributor) (md_total_amount_forgone distributor))
       (ErrorCode ArithmeticError)) (\<lambda>settled.
     require (settled \<le> new_max_total_claim) (ErrorCode ExceededMaxClaim) (
     and_then (ok_or (checked_sub (md_max_total_claim distributor) (md_total_amount_claimed distributor)) Panic)
       (\<lambda>owed.
     require (owed \<le> vault_amount) (ErrorCode InsufficientUnlockedTokens) (
     ok_or (checked_sub (md_max_total_claim distributor) new_max_total_claim) Panic))))))))))"

definition handle_set_root ::
  "env \<Rightarrow> set_root_accounts \<Rightarrow> bytes32 \<Rightarrow> bytes32 \<Rightarrow> u64 \<Rightarrow> u64 \<Rightarrow> merkle_distributor \<Rightarrow> token_account
     \<Rightarrow> chain \<Rightarrow> program_error + chain" where
  "handle_set_root env a new_root expected_old_root expected_num_nodes_claimed new_max_total_claim distributor vault c =
     and_then (validate_set_root env distributor (ta_amount vault) expected_old_root expected_num_nodes_claimed
       new_max_total_claim) (\<lambda>burn_amount.
     and_then (if 0 < burn_amount
               then vault_burn env distributor (sr_distributor a) (sr_token_vault a) (sr_mint a) burn_amount (ch_ledger c)
               else Inr (ch_ledger c)) (\<lambda>ledger.
     Inr (c\<lparr>ch_distributors := (ch_distributors c)(sr_distributor a \<mapsto>
              distributor\<lparr>md_root := new_root, md_max_total_claim := new_max_total_claim\<rparr>),
            ch_ledger := ledger,
            ch_events := ch_events c @ [SetRootEvent (sr_distributor a) (md_root distributor) new_root
              (md_max_total_claim distributor) new_max_total_claim burn_amount]\<rparr>)))"

definition set_root ::
  "env \<Rightarrow> ctx \<Rightarrow> set_root_accounts \<Rightarrow> bytes32 \<Rightarrow> bytes32 \<Rightarrow> u64 \<Rightarrow> u64 \<Rightarrow> chain \<Rightarrow> program_error + chain" where
  "set_root env cx a new_root expected_old_root expected_num_nodes_claimed new_max_total_claim c =
     and_then (check_set_root env cx a c) (\<lambda>(md, vault).
     handle_set_root env a new_root expected_old_root expected_num_nodes_claimed new_max_total_claim md vault c)"

section \<open>The admin's settings\<close>

record set_admin_accounts =
  sa_distributor :: pubkey
  sa_admin :: pubkey
  sa_new_admin :: pubkey

definition check_set_admin ::
  "ctx \<Rightarrow> set_admin_accounts \<Rightarrow> chain \<Rightarrow> program_error + merkle_distributor" where
  "check_set_admin cx a c =
     and_then (load_distributor c (sa_distributor a)) (\<lambda>md.
     require_signer cx (sa_admin a) (
     require (sa_admin a = md_admin md) (ErrorCode Unauthorized) (
     Inr md)))"

definition handle_set_admin :: "set_admin_accounts \<Rightarrow> merkle_distributor \<Rightarrow> program_error + merkle_distributor" where
  "handle_set_admin a distributor =
     require (sa_admin a \<noteq> sa_new_admin a) (ErrorCode SameAdmin) (
     Inr (distributor\<lparr>md_admin := sa_new_admin a\<rparr>))"

definition store_distributor :: "chain \<Rightarrow> pubkey \<Rightarrow> merkle_distributor \<Rightarrow> chain" where
  "store_distributor c k md = c\<lparr>ch_distributors := (ch_distributors c)(k \<mapsto> md)\<rparr>"

definition set_admin :: "ctx \<Rightarrow> set_admin_accounts \<Rightarrow> chain \<Rightarrow> program_error + chain" where
  "set_admin cx a c =
     and_then (check_set_admin cx a c) (\<lambda>md.
     and_then (handle_set_admin a md) (\<lambda>md'. Inr (store_distributor c (sa_distributor a) md')))"

record set_clawback_receiver_accounts =
  scr_distributor :: pubkey
  scr_new_clawback_account :: pubkey
  scr_admin :: pubkey

definition check_set_clawback_receiver ::
  "ctx \<Rightarrow> set_clawback_receiver_accounts \<Rightarrow> chain \<Rightarrow> program_error + merkle_distributor" where
  "check_set_clawback_receiver cx a c =
     and_then (load_distributor c (scr_distributor a)) (\<lambda>md.
     and_then (load_token (ch_ledger c) (scr_new_clawback_account a)) (\<lambda>account.
     require_signer cx (scr_admin a) (
     require (ta_mint account = md_mint md) (AnchorError ConstraintTokenMint) (
     require (scr_admin a = md_admin md) (ErrorCode Unauthorized) (
     Inr md)))))"

definition handle_set_clawback_receiver ::
  "set_clawback_receiver_accounts \<Rightarrow> merkle_distributor \<Rightarrow> program_error + merkle_distributor" where
  "handle_set_clawback_receiver a distributor =
     require (md_clawback_receiver distributor \<noteq> scr_new_clawback_account a) (ErrorCode SameClawbackReceiver) (
     Inr (distributor\<lparr>md_clawback_receiver := scr_new_clawback_account a\<rparr>))"

definition set_clawback_receiver ::
  "ctx \<Rightarrow> set_clawback_receiver_accounts \<Rightarrow> chain \<Rightarrow> program_error + chain" where
  "set_clawback_receiver cx a c =
     and_then (check_set_clawback_receiver cx a c) (\<lambda>md.
     and_then (handle_set_clawback_receiver a md) (\<lambda>md'. Inr (store_distributor c (scr_distributor a) md')))"

record set_clawback_start_ts_accounts =
  scs_distributor :: pubkey
  scs_admin :: pubkey

definition check_set_clawback_start_ts ::
  "ctx \<Rightarrow> set_clawback_start_ts_accounts \<Rightarrow> chain \<Rightarrow> program_error + merkle_distributor" where
  "check_set_clawback_start_ts cx a c =
     and_then (load_distributor c (scs_distributor a)) (\<lambda>md.
     require_signer cx (scs_admin a) (
     require (scs_admin a = md_admin md) (ErrorCode Unauthorized) (
     Inr md)))"

definition validate_clawback_start_ts :: "merkle_distributor \<Rightarrow> i64 \<Rightarrow> i64 \<Rightarrow> program_error + unit" where
  "validate_clawback_start_ts distributor clawback_start_ts curr_ts =
     require (\<not> md_clawed_back distributor) (ErrorCode ClawbackAlreadyClaimed) (
     require (curr_ts < clawback_start_ts) (ErrorCode TimestampsNotInFuture) (
     and_then (ok_or (checked_add_i64 (md_end_ts distributor) SECONDS_PER_DAY) (ErrorCode ArithmeticError))
       (\<lambda>earliest.
     require (earliest \<le> clawback_start_ts) (ErrorCode InsufficientClawbackDelay) (
     Inr ()))))"

definition handle_set_clawback_start_ts ::
  "ctx \<Rightarrow> i64 \<Rightarrow> merkle_distributor \<Rightarrow> program_error + merkle_distributor" where
  "handle_set_clawback_start_ts cx clawback_start_ts distributor =
     and_then (validate_clawback_start_ts distributor clawback_start_ts (cx_unix_timestamp cx)) (\<lambda>_.
     Inr (distributor\<lparr>md_clawback_start_ts := clawback_start_ts\<rparr>))"

definition set_clawback_start_ts ::
  "ctx \<Rightarrow> set_clawback_start_ts_accounts \<Rightarrow> i64 \<Rightarrow> chain \<Rightarrow> program_error + chain" where
  "set_clawback_start_ts cx a clawback_start_ts c =
     and_then (check_set_clawback_start_ts cx a c) (\<lambda>md.
     and_then (handle_set_clawback_start_ts cx clawback_start_ts md) (\<lambda>md'.
     Inr (store_distributor c (scs_distributor a) md')))"

record set_enable_slot_accounts =
  ses_distributor :: pubkey
  ses_admin :: pubkey

definition check_set_enable_slot ::
  "ctx \<Rightarrow> set_enable_slot_accounts \<Rightarrow> chain \<Rightarrow> program_error + merkle_distributor" where
  "check_set_enable_slot cx a c =
     and_then (load_distributor c (ses_distributor a)) (\<lambda>md.
     require_signer cx (ses_admin a) (
     require (md_admin md = ses_admin a) (AnchorError ConstraintHasOne) (
     Inr md)))"

definition handle_set_enable_slot :: "u64 \<Rightarrow> merkle_distributor \<Rightarrow> program_error + merkle_distributor" where
  "handle_set_enable_slot enable_slot distributor = Inr (distributor\<lparr>md_enable_slot := enable_slot\<rparr>)"

definition set_enable_slot ::
  "ctx \<Rightarrow> set_enable_slot_accounts \<Rightarrow> u64 \<Rightarrow> chain \<Rightarrow> program_error + chain" where
  "set_enable_slot cx a enable_slot c =
     and_then (check_set_enable_slot cx a c) (\<lambda>md.
     and_then (handle_set_enable_slot enable_slot md) (\<lambda>md'.
     Inr (store_distributor c (ses_distributor a) md')))"

section \<open>The program\<close>

datatype instruction =
    NewDistributor new_distributor_accounts new_distributor_args
  | CloseDistributor close_distributor_accounts
  | CloseClaimStatus close_claim_status_accounts
  | SetEnableSlot set_enable_slot_accounts u64
  | SetRoot set_root_accounts bytes32 bytes32 u64 u64
  | NewClaim new_claim_accounts u64 u64 "bytes32 list"
  | ClaimLocked claim_locked_accounts
  | Clawback clawback_accounts
  | SetClawbackReceiver set_clawback_receiver_accounts
  | SetClawbackStartTs set_clawback_start_ts_accounts i64
  | SetAdmin set_admin_accounts

fun exec :: "env \<Rightarrow> ctx \<Rightarrow> instruction \<Rightarrow> chain \<Rightarrow> program_error + chain" where
  "exec env cx (NewDistributor a args) c = new_distributor env cx a args c"
| "exec env cx (CloseDistributor a) c = close_distributor env cx a c"
| "exec env cx (CloseClaimStatus a) c = close_claim_status cx a c"
| "exec env cx (SetEnableSlot a slot) c = set_enable_slot cx a slot c"
| "exec env cx (SetRoot a new_root old_root nodes new_max) c = set_root env cx a new_root old_root nodes new_max c"
| "exec env cx (NewClaim a unlocked locked proof) c = new_claim env cx a unlocked locked proof c"
| "exec env cx (ClaimLocked a) c = claim_locked env cx a c"
| "exec env cx (Clawback a) c = clawback env cx a c"
| "exec env cx (SetClawbackReceiver a) c = set_clawback_receiver cx a c"
| "exec env cx (SetClawbackStartTs a ts) c = set_clawback_start_ts cx a ts c"
| "exec env cx (SetAdmin a) c = set_admin cx a c"

end
