(* ===== verification/Distributor_Effects.thy ===== *)
theory Distributor_Effects
  imports Distributor
begin

text \<open>
  What a successful instruction did, one elimination rule per instruction: the accounts it found,
  the conditions it checked, the amounts it computed as natural numbers, and the state it left.
  The invariants and the properties of the program rest on these rules and not on the
  definitions.
\<close>

lemma load_distributor_Inr [ok_iff]: "load_distributor c k = Inr md \<longleftrightarrow> ch_distributors c k = Some md"
  by (simp add: load_distributor_def ok_iff)

lemma load_claim_status_Inr [ok_iff]: "load_claim_status c k = Inr cs \<longleftrightarrow> ch_claim_statuses c k = Some cs"
  by (simp add: load_claim_status_def ok_iff)

lemma require_unused_Inr [ok_iff]:
  "require_unused c k r = Inr x \<longleftrightarrow>
     ch_distributors c k = None \<and> ch_claim_statuses c k = None \<and> lg_accounts (ch_ledger c) k = None
     \<and> lg_supply (ch_ledger c) k = None \<and> r = Inr x"
  by (auto simp: require_unused_def ok_iff)

lemma vault_transfer_Inr [ok_iff]:
  "vault_transfer env md authority from to amount l = Inr l' \<longleftrightarrow>
     create_program_address env (signer_seeds md) (program_id env) = Some authority
     \<and> token_transfer env from to authority amount l = Inr l'"
  by (auto simp: vault_transfer_def ok_iff)

lemma vault_burn_Inr [ok_iff]:
  "vault_burn env md authority account mint amount l = Inr l' \<longleftrightarrow>
     create_program_address env (signer_seeds md) (program_id env) = Some authority
     \<and> token_burn env account mint authority amount l = Inr l'"
  by (auto simp: vault_burn_def ok_iff)

lemma SECONDS_PER_DAY_val [simp]: "ival SECONDS_PER_DAY = 86400"
  by (simp add: SECONDS_PER_DAY_def)

lemma get_unlocked_amount_forgone_Inr [ok_iff]:
  "get_unlocked_amount_forgone cs = Inr f \<longleftrightarrow>
     unat (cs_unlocked_amount cs) = unat (cs_unlocked_amount_claimed cs) + unat f"
  by (simp add: get_unlocked_amount_forgone_def ok_iff checked_sub_Some)

section \<open>\<^verbatim>\<open>new_distributor\<close>\<close>

definition fresh_distributor :: "new_distributor_accounts \<Rightarrow> new_distributor_args \<Rightarrow> u8 \<Rightarrow> merkle_distributor" where
  "fresh_distributor a args bump =
     \<lparr>md_bump = bump, md_version = na_version args, md_root = na_root args, md_mint = nd_mint a,
      md_token_vault = nd_token_vault a, md_max_total_claim = na_max_total_claim args,
      md_max_num_nodes = na_max_num_nodes args, md_total_amount_claimed = 0, md_total_amount_forgone = 0,
      md_num_nodes_claimed = 0, md_start_ts = na_start_vesting_ts args, md_end_ts = na_end_vesting_ts args,
      md_clawback_start_ts = na_clawback_start_ts args, md_clawback_receiver = nd_clawback_receiver a,
      md_admin = nd_admin a, md_clawed_back = False, md_enable_slot = na_enable_slot args,
      md_closable = na_closable args, md_buffer_0 = 0, md_buffer_1 = 0, md_buffer_2 = 0\<rparr>"

lemma new_distributorE:
  assumes "new_distributor env cx a args c = Inr c'"
  obtains bump vault where
    "find_program_address env (distributor_seeds (nd_mint a) (na_version args)) (program_id env)
       = (nd_distributor a, bump)"
    "ch_distributors c (nd_distributor a) = None" "ch_claim_statuses c (nd_distributor a) = None"
    "lg_accounts (ch_ledger c) (nd_token_vault a) = Some vault" "ta_owner vault = nd_distributor a"
    "nd_token_vault a = associated_token_address env (nd_distributor a) (nd_mint a)"
    "nd_admin a = admin_id env" "admin_id env \<in> set (cx_signers cx)"
    "na_start_vesting_ts args < na_end_vesting_ts args" "cx_unix_timestamp cx < na_end_vesting_ts args"
    "ival (na_end_vesting_ts args) + 86400 \<le> ival (na_clawback_start_ts args)"
    "c' = c\<lparr>ch_distributors := (ch_distributors c)(nd_distributor a \<mapsto> fresh_distributor a args bump)\<rparr>"
  using assms
  by (auto simp: new_distributor_def check_new_distributor_def handle_new_distributor_def
      merkle_distributor_default_def fresh_distributor_def ok_iff checked_add_i64_Some less_eq_i64_def Let_def
      split: prod.splits)

section \<open>\<^verbatim>\<open>new_claim\<close>\<close>

definition claim_leaf :: "env \<Rightarrow> pubkey \<Rightarrow> u64 \<Rightarrow> u64 \<Rightarrow> bytes32" where
  "claim_leaf env claimant unlocked locked =
     hashv env [LEAF_PREFIX, be_bytes (hashv env [to_bytes claimant, le_bytes unlocked, le_bytes locked])]"

definition fresh_claim :: "merkle_distributor \<Rightarrow> new_claim_accounts \<Rightarrow> u64 \<Rightarrow> u64 \<Rightarrow> u64 \<Rightarrow> claim_status" where
  "fresh_claim md a unlocked locked paid =
     \<lparr>cs_claimant = nc_claimant a, cs_locked_amount = locked, cs_locked_amount_withdrawn = 0,
      cs_unlocked_amount = unlocked, cs_unlocked_amount_claimed = paid,
      cs_closable = md_closable md, cs_distributor = nc_distributor a\<rparr>"

lemma check_new_claim_Inr [ok_iff]:
  "check_new_claim env cx a c = Inr md \<longleftrightarrow>
     ch_distributors c (nc_distributor a) = Some md
     \<and> nc_claim_status a = claim_status_key env (nc_claimant a) (nc_distributor a)
     \<and> ch_distributors c (nc_claim_status a) = None \<and> ch_claim_statuses c (nc_claim_status a) = None
     \<and> lg_accounts (ch_ledger c) (nc_claim_status a) = None \<and> lg_supply (ch_ledger c) (nc_claim_status a) = None
     \<and> nc_claimant a \<in> set (cx_signers cx)
     \<and> nc_token_program a = token_program_id env \<and> nc_system_program a = system_program_id env
     \<and> nc_from a = md_token_vault md
     \<and> nc_from a = associated_token_address env (nc_distributor a) (md_mint md)
     \<and> (\<exists>from to. lg_accounts (ch_ledger c) (nc_from a) = Some from \<and> ta_owner from = nc_distributor a
          \<and> lg_accounts (ch_ledger c) (nc_to a) = Some to \<and> ta_mint to = md_mint md
          \<and> ta_owner to = nc_claimant a)"
  by (auto simp: check_new_claim_def ok_iff)

lemma handle_new_claim_Inr [ok_iff]:
  "handle_new_claim env cx a unlocked locked proof md claim_status_default c = Inr c' \<longleftrightarrow>
     \<not> md_clawed_back md \<and> md_enable_slot md \<le> cx_slot cx \<and> md_start_ts md \<le> cx_unix_timestamp cx
     \<and> verify (hashv env) proof (md_root md) (claim_leaf env (nc_claimant a) unlocked locked)
     \<and> (\<exists>num cs f led claimed forgone settled.
          checked_add (md_num_nodes_claimed md) 1 = Some num \<and> num \<le> md_max_num_nodes md
          \<and> update_unlocked_amount_claimed (fresh_claim md a unlocked locked 0)
              (cx_unix_timestamp cx) (md_start_ts md) (md_end_ts md) = Inr cs
          \<and> get_unlocked_amount_forgone cs = Inr f
          \<and> vault_transfer env md (nc_distributor a) (nc_from a) (nc_to a) (cs_unlocked_amount_claimed cs)
              (ch_ledger c) = Inr led
          \<and> checked_add (md_total_amount_claimed md) (cs_unlocked_amount_claimed cs) = Some claimed
          \<and> checked_add (md_total_amount_forgone md) f = Some forgone
          \<and> checked_add claimed forgone = Some settled \<and> settled \<le> md_max_total_claim md
          \<and> c' = c\<lparr>
              ch_distributors := (ch_distributors c)(nc_distributor a \<mapsto> md\<lparr>md_num_nodes_claimed := num,
                md_total_amount_claimed := claimed, md_total_amount_forgone := forgone\<rparr>),
              ch_claim_statuses := (ch_claim_statuses c)(nc_claim_status a \<mapsto> cs), ch_ledger := led,
              ch_events := ch_events c
                @ [NewClaimEvent (nc_claimant a) (cx_unix_timestamp cx) (cs_unlocked_amount_claimed cs) f]\<rparr>)"
proof -
  have fresh: "claim_status_default\<lparr>cs_claimant := nc_claimant a, cs_locked_amount := locked,
      cs_locked_amount_withdrawn := 0, cs_unlocked_amount := unlocked, cs_closable := md_closable md,
      cs_distributor := nc_distributor a\<rparr> = fresh_claim md a unlocked locked 0"
    by (simp add: claim_status_default_def fresh_claim_def)
  show ?thesis
    unfolding handle_new_claim_def fresh Let_def ok_iff(1-4) claim_leaf_def by blast
qed

lemma fresh_claim_paid:
  assumes "update_unlocked_amount_claimed (fresh_claim md a unlocked locked 0) curr_ts start_ts end_ts = Inr cs"
  shows "cs = fresh_claim md a unlocked locked (cs_unlocked_amount_claimed cs)"
    and "unat (cs_unlocked_amount_claimed cs) = bonus_vested (unat unlocked) (ival curr_ts) (ival start_ts) (ival end_ts)"
    and "unat (cs_unlocked_amount_claimed cs) \<le> unat unlocked"
proof -
  note upd = update_unlocked_Inr [OF assms]
  show "cs = fresh_claim md a unlocked locked (cs_unlocked_amount_claimed cs)"
    by (subst upd(1)) (simp add: fresh_claim_def)
  show paid: "unat (cs_unlocked_amount_claimed cs) = bonus_vested (unat unlocked) (ival curr_ts) (ival start_ts) (ival end_ts)"
    using upd(2) by (simp add: fresh_claim_def)
  show "unat (cs_unlocked_amount_claimed cs) \<le> unat unlocked" unfolding paid by (rule bonus.at_most_all)
qed

lemma new_claimE:
  assumes "new_claim env cx a unlocked locked proof c = Inr c'"
  obtains md paid led num claimed forgone f where
    "ch_distributors c (nc_distributor a) = Some md"
    "nc_claim_status a = claim_status_key env (nc_claimant a) (nc_distributor a)"
    "ch_claim_statuses c (nc_claim_status a) = None"
    "nc_claimant a \<in> set (cx_signers cx)"
    "\<exists>to. lg_accounts (ch_ledger c) (nc_to a) = Some to \<and> ta_owner to = nc_claimant a"
    "\<not> md_clawed_back md" "md_enable_slot md \<le> cx_slot cx" "md_start_ts md \<le> cx_unix_timestamp cx"
    "verify (hashv env) proof (md_root md) (claim_leaf env (nc_claimant a) unlocked locked)"
    "unat paid = bonus_vested (unat unlocked) (ival (cx_unix_timestamp cx)) (ival (md_start_ts md)) (ival (md_end_ts md))"
    "unat paid + unat f = unat unlocked"
    "token_transfer env (md_token_vault md) (nc_to a) (nc_distributor a) paid (ch_ledger c) = Inr led"
    "unat num = unat (md_num_nodes_claimed md) + 1" "unat num \<le> unat (md_max_num_nodes md)"
    "unat claimed = unat (md_total_amount_claimed md) + unat paid"
    "unat forgone = unat (md_total_amount_forgone md) + unat f"
    "unat claimed + unat forgone \<le> unat (md_max_total_claim md)"
    "c' = c\<lparr>ch_distributors := (ch_distributors c)(nc_distributor a \<mapsto> md\<lparr>md_num_nodes_claimed := num,
         md_total_amount_claimed := claimed, md_total_amount_forgone := forgone\<rparr>),
       ch_claim_statuses := (ch_claim_statuses c)(nc_claim_status a \<mapsto> fresh_claim md a unlocked locked paid),
       ch_ledger := led,
       ch_events := ch_events c @ [NewClaimEvent (nc_claimant a) (cx_unix_timestamp cx) paid f]\<rparr>"
proof -
  from assms obtain md where ok: "check_new_claim env cx a c = Inr md"
    "handle_new_claim env cx a unlocked locked proof md claim_status_default c = Inr c'"
    by (auto simp: new_claim_def and_then_Inr)
  note chk = ok(1) [unfolded check_new_claim_Inr]
  from ok(2) [unfolded handle_new_claim_Inr] obtain num cs f led claimed forgone settled where
      time: "\<not> md_clawed_back md" "md_enable_slot md \<le> cx_slot cx" "md_start_ts md \<le> cx_unix_timestamp cx"
        "verify (hashv env) proof (md_root md) (claim_leaf env (nc_claimant a) unlocked locked)"
    and num: "checked_add (md_num_nodes_claimed md) 1 = Some num" "num \<le> md_max_num_nodes md"
    and upd: "update_unlocked_amount_claimed (fresh_claim md a unlocked locked 0)
        (cx_unix_timestamp cx) (md_start_ts md) (md_end_ts md) = Inr cs"
    and f: "get_unlocked_amount_forgone cs = Inr f"
    and tr: "vault_transfer env md (nc_distributor a) (nc_from a) (nc_to a) (cs_unlocked_amount_claimed cs)
        (ch_ledger c) = Inr led"
    and sums: "checked_add (md_total_amount_claimed md) (cs_unlocked_amount_claimed cs) = Some claimed"
        "checked_add (md_total_amount_forgone md) f = Some forgone"
        "checked_add claimed forgone = Some settled" "settled \<le> md_max_total_claim md"
    and c': "c' = c\<lparr>
        ch_distributors := (ch_distributors c)(nc_distributor a \<mapsto> md\<lparr>md_num_nodes_claimed := num,
          md_total_amount_claimed := claimed, md_total_amount_forgone := forgone\<rparr>),
        ch_claim_statuses := (ch_claim_statuses c)(nc_claim_status a \<mapsto> cs), ch_ledger := led,
        ch_events := ch_events c
          @ [NewClaimEvent (nc_claimant a) (cx_unix_timestamp cx) (cs_unlocked_amount_claimed cs) f]\<rparr>"
    by blast
  note cs = fresh_claim_paid [OF upd]
  have "cs_unlocked_amount cs = unlocked" by (subst cs(1)) (simp add: fresh_claim_def)
  with f have "unat (cs_unlocked_amount_claimed cs) + unat f = unat unlocked" by (simp add: ok_iff)
  then show thesis
    using chk time cs(1,2) num sums tr c'
    by (intro that [of md "cs_unlocked_amount_claimed cs" f led num claimed forgone])
      (auto simp: checked_add_Some word_le_nat_alt vault_transfer_Inr)
qed

section \<open>\<^verbatim>\<open>claim_locked\<close>\<close>

lemma check_claim_locked_Inr [ok_iff]:
  "check_claim_locked env cx a c = Inr (md, cs) \<longleftrightarrow>
     ch_distributors c (cl_distributor a) = Some md \<and> ch_claim_statuses c (cl_claim_status a) = Some cs
     \<and> cl_claim_status a = claim_status_key env (cl_claimant a) (cl_distributor a)
     \<and> cl_claimant a \<in> set (cx_signers cx) \<and> cl_token_program a = token_program_id env
     \<and> cl_from a = md_token_vault md
     \<and> cl_from a = associated_token_address env (cl_distributor a) (md_mint md)
     \<and> (\<exists>from to. lg_accounts (ch_ledger c) (cl_from a) = Some from \<and> ta_owner from = cl_distributor a
          \<and> lg_accounts (ch_ledger c) (cl_to a) = Some to \<and> ta_owner to = cl_claimant a)"
  by (auto simp: check_claim_locked_def ok_iff)

lemma handle_claim_locked_Inr [ok_iff]:
  "handle_claim_locked env cx a md cs c = Inr c' \<longleftrightarrow>
     \<not> md_clawed_back md \<and> md_enable_slot md \<le> cx_slot cx
     \<and> (\<exists>amount led withdrawn claimed.
          amount_withdrawable cs (cx_unix_timestamp cx) (md_start_ts md) (md_end_ts md) = Inr amount
          \<and> 0 < amount
          \<and> vault_transfer env md (cl_distributor a) (cl_from a) (cl_to a) amount (ch_ledger c) = Inr led
          \<and> checked_add (cs_locked_amount_withdrawn cs) amount = Some withdrawn \<and> withdrawn \<le> cs_locked_amount cs
          \<and> checked_add (md_total_amount_claimed md) amount = Some claimed \<and> claimed \<le> md_max_total_claim md
          \<and> (cx_unix_timestamp cx < md_end_ts md \<longrightarrow> checked_sub_i64 (md_end_ts md) (cx_unix_timestamp cx) \<noteq> None)
          \<and> c' = c\<lparr>
              ch_distributors := (ch_distributors c)(cl_distributor a \<mapsto> md\<lparr>md_total_amount_claimed := claimed\<rparr>),
              ch_claim_statuses := (ch_claim_statuses c)(cl_claim_status a \<mapsto>
                cs\<lparr>cs_locked_amount_withdrawn := withdrawn\<rparr>),
              ch_ledger := led, ch_events := ch_events c @ [ClaimedEvent (cl_claimant a) amount]\<rparr>)"
proof -
  have log: "and_then (if curr_ts < end_ts then ok_or (checked_sub_i64 end_ts curr_ts) Panic else Inr z) (\<lambda>_. r) =
      require (curr_ts < end_ts \<longrightarrow> checked_sub_i64 end_ts curr_ts \<noteq> None) Panic r" for curr_ts end_ts z r
    by (cases "checked_sub_i64 end_ts curr_ts") (simp_all add: require_def)
  show ?thesis unfolding handle_claim_locked_def Let_def log require_Inr and_then_Inr ok_or_Inr by blast
qed

lemma claim_lockedE:
  assumes "claim_locked env cx a c = Inr c'"
  obtains md cs amount led withdrawn claimed where
    "ch_distributors c (cl_distributor a) = Some md" "ch_claim_statuses c (cl_claim_status a) = Some cs"
    "cl_claim_status a = claim_status_key env (cl_claimant a) (cl_distributor a)"
    "cl_claimant a \<in> set (cx_signers cx)"
    "\<exists>to. lg_accounts (ch_ledger c) (cl_to a) = Some to \<and> ta_owner to = cl_claimant a"
    "\<not> md_clawed_back md" "md_enable_slot md \<le> cx_slot cx"
    "unat withdrawn = linear_vested (unat (cs_locked_amount cs))
       (ival (cx_unix_timestamp cx)) (ival (md_start_ts md)) (ival (md_end_ts md))"
    "unat withdrawn = unat (cs_locked_amount_withdrawn cs) + unat amount" "0 < unat amount"
    "unat withdrawn \<le> unat (cs_locked_amount cs)"
    "token_transfer env (md_token_vault md) (cl_to a) (cl_distributor a) amount (ch_ledger c) = Inr led"
    "unat claimed = unat (md_total_amount_claimed md) + unat amount" "unat claimed \<le> unat (md_max_total_claim md)"
    "c' = c\<lparr>ch_distributors := (ch_distributors c)(cl_distributor a \<mapsto> md\<lparr>md_total_amount_claimed := claimed\<rparr>),
       ch_claim_statuses := (ch_claim_statuses c)(cl_claim_status a \<mapsto>
         cs\<lparr>cs_locked_amount_withdrawn := withdrawn\<rparr>),
       ch_ledger := led, ch_events := ch_events c @ [ClaimedEvent (cl_claimant a) amount]\<rparr>"
proof -
  from assms obtain md cs where ok: "check_claim_locked env cx a c = Inr (md, cs)"
    "handle_claim_locked env cx a md cs c = Inr c'"
    by (auto simp: claim_locked_def and_then_Inr)
  note chk = ok(1) [unfolded check_claim_locked_Inr]
  from ok(2) [unfolded handle_claim_locked_Inr] obtain amount led withdrawn claimed where
      time: "\<not> md_clawed_back md" "md_enable_slot md \<le> cx_slot cx"
    and am: "amount_withdrawable cs (cx_unix_timestamp cx) (md_start_ts md) (md_end_ts md) = Inr amount" "0 < amount"
    and tr: "vault_transfer env md (cl_distributor a) (cl_from a) (cl_to a) amount (ch_ledger c) = Inr led"
    and wd: "checked_add (cs_locked_amount_withdrawn cs) amount = Some withdrawn" "withdrawn \<le> cs_locked_amount cs"
    and cl: "checked_add (md_total_amount_claimed md) amount = Some claimed" "claimed \<le> md_max_total_claim md"
    and c': "c' = c\<lparr>
        ch_distributors := (ch_distributors c)(cl_distributor a \<mapsto> md\<lparr>md_total_amount_claimed := claimed\<rparr>),
        ch_claim_statuses := (ch_claim_statuses c)(cl_claim_status a \<mapsto>
          cs\<lparr>cs_locked_amount_withdrawn := withdrawn\<rparr>),
        ch_ledger := led, ch_events := ch_events c @ [ClaimedEvent (cl_claimant a) amount]\<rparr>"
    by blast
  show thesis
    using chk time am(2) amount_withdrawable_Inr [OF am(1)] tr wd cl c'
    by (intro that [of md cs withdrawn amount led claimed])
      (auto simp: checked_add_Some word_le_nat_alt word_less_nat_alt vault_transfer_Inr)
qed

section \<open>\<^verbatim>\<open>clawback\<close> and closing\<close>

lemma clawbackE:
  assumes "clawback env cx a c = Inr c'"
  obtains md vault led where
    "ch_distributors c (cb_distributor a) = Some md"
    "lg_accounts (ch_ledger c) (md_token_vault md) = Some vault"
    "cb_to a = md_clawback_receiver md" "cb_claimant a \<in> set (cx_signers cx)"
    "\<not> md_clawed_back md" "md_clawback_start_ts md \<le> cx_unix_timestamp cx"
    "token_transfer env (md_token_vault md) (md_clawback_receiver md) (cb_distributor a) (ta_amount vault)
       (ch_ledger c) = Inr led"
    "c' = c\<lparr>ch_distributors := (ch_distributors c)(cb_distributor a \<mapsto> md\<lparr>md_clawed_back := True\<rparr>),
       ch_ledger := led\<rparr>"
  using assms
  by (auto simp: clawback_def check_clawback_def handle_clawback_def ok_iff Let_def not_less split: if_splits)

lemma close_distributorE:
  assumes "close_distributor env cx a c = Inr c'"
  obtains md vault led where
    "ch_distributors c (cd_distributor a) = Some md"
    "lg_accounts (ch_ledger c) (md_token_vault md) = Some vault"
    "md_admin md \<in> set (cx_signers cx)" "md_closable md"
    "token_transfer env (md_token_vault md) (cd_destination_token_account a) (cd_distributor a) (ta_amount vault)
       (ch_ledger c) = Inr led"
    "c' = c\<lparr>ch_distributors := (ch_distributors c)(cd_distributor a := None), ch_ledger := led\<rparr>"
  using assms
  by (auto simp: close_distributor_def check_close_distributor_def handle_close_distributor_def ok_iff)

lemma close_claim_status_fails: "close_claim_status cx a c \<noteq> Inr c'"
  by (simp add: close_claim_status_def handle_close_status_def and_then_Inr)

section \<open>\<^verbatim>\<open>set_root\<close>\<close>

lemma validate_set_root_Inr [ok_iff]:
  "validate_set_root env md vault_amount old_root nodes new_max = Inr burn \<longleftrightarrow>
     md_mint md \<in> set (DFX_MINTS env) \<and> \<not> md_clawed_back md \<and> md_enable_slot md = - 1
     \<and> md_root md = old_root \<and> md_num_nodes_claimed md = nodes
     \<and> unat (md_total_amount_claimed md) + unat (md_total_amount_forgone md) \<le> unat new_max
     \<and> unat (md_max_total_claim md) \<le> unat (md_total_amount_claimed md) + unat vault_amount
     \<and> unat (md_max_total_claim md) = unat new_max + unat burn" (is "_ \<longleftrightarrow> ?spec")
proof
  assume "validate_set_root env md vault_amount old_root nodes new_max = Inr burn"
  then show ?spec
    by (auto simp: validate_set_root_def ok_iff checked_add_Some checked_sub_Some word_le_nat_alt)
next
  assume spec: ?spec
  let ?cl = "md_total_amount_claimed md" and ?fg = "md_total_amount_forgone md" and ?mx = "md_max_total_claim md"
  have "unat ?cl + unat ?fg < 2 ^ LENGTH(64)"
    using spec unat_bound [of new_max] by simp
  then obtain settled where settled: "checked_add ?cl ?fg = Some settled"
    by (cases rule: checked_add_cases [of ?cl ?fg]) auto
  have "?cl \<le> ?mx" "new_max \<le> ?mx" using spec by (simp_all add: word_le_nat_alt)
  then have subs: "checked_sub ?mx ?cl = Some (?mx - ?cl)" "checked_sub ?mx new_max = Some burn"
    using spec by (simp_all add: checked_sub_def flip: checked_sub_Some)
  have "settled \<le> new_max" "?mx - ?cl \<le> vault_amount" "new_max \<le> ?mx"
    using spec settled [unfolded checked_add_Some] subs(1) [unfolded checked_sub_Some]
    by (simp_all add: word_le_nat_alt)
  with spec settled subs show "validate_set_root env md vault_amount old_root nodes new_max = Inr burn"
    by (simp add: validate_set_root_def)
qed

lemma set_rootE:
  assumes "set_root env cx a new_root old_root nodes new_max c = Inr c'"
  obtains md vault led burn where
    "ch_distributors c (sr_distributor a) = Some md"
    "lg_accounts (ch_ledger c) (md_token_vault md) = Some vault"
    "md_admin md \<in> set (cx_signers cx)"
    "md_mint md \<in> set (DFX_MINTS env)" "\<not> md_clawed_back md" "md_enable_slot md = - 1"
    "md_root md = old_root" "md_num_nodes_claimed md = nodes"
    "unat (md_total_amount_claimed md) + unat (md_total_amount_forgone md) \<le> unat new_max"
    "unat (md_max_total_claim md) \<le> unat (md_total_amount_claimed md) + unat (ta_amount vault)"
    "unat (md_max_total_claim md) = unat new_max + unat burn"
    "if 0 < burn then token_burn env (md_token_vault md) (md_mint md) (sr_distributor a) burn (ch_ledger c) = Inr led
     else led = ch_ledger c"
    "c' = c\<lparr>ch_distributors := (ch_distributors c)(sr_distributor a \<mapsto>
         md\<lparr>md_root := new_root, md_max_total_claim := new_max\<rparr>),
       ch_ledger := led,
       ch_events := ch_events c @ [SetRootEvent (sr_distributor a) (md_root md) new_root
         (md_max_total_claim md) new_max burn]\<rparr>"
proof -
  from assms obtain md vault where ok: "check_set_root env cx a c = Inr (md, vault)"
    "handle_set_root env a new_root old_root nodes new_max md vault c = Inr c'"
    by (auto simp: set_root_def and_then_Inr)
  from ok(2) obtain burn led where h: "validate_set_root env md (ta_amount vault) old_root nodes new_max = Inr burn"
    "(if 0 < burn then vault_burn env md (sr_distributor a) (sr_token_vault a) (sr_mint a) burn (ch_ledger c)
      else Inr (ch_ledger c)) = Inr led"
    "c' = c\<lparr>ch_distributors := (ch_distributors c)(sr_distributor a \<mapsto>
         md\<lparr>md_root := new_root, md_max_total_claim := new_max\<rparr>),
       ch_ledger := led,
       ch_events := ch_events c @ [SetRootEvent (sr_distributor a) (md_root md) new_root
         (md_max_total_claim md) new_max burn]\<rparr>"
    by (auto simp: handle_set_root_def and_then_Inr)
  from ok(1) have chk: "ch_distributors c (sr_distributor a) = Some md"
    "lg_accounts (ch_ledger c) (md_token_vault md) = Some vault"
    "md_admin md \<in> set (cx_signers cx)" "sr_token_vault a = md_token_vault md" "sr_mint a = md_mint md"
    by (auto simp: check_set_root_def ok_iff)
  have "if 0 < burn then token_burn env (md_token_vault md) (md_mint md) (sr_distributor a) burn (ch_ledger c) = Inr led
     else led = ch_ledger c"
    using h(2) chk(4,5) by (auto simp: vault_burn_Inr split: if_splits)
  with chk(1-3) h(1) [unfolded validate_set_root_Inr] h(3) show thesis by (intro that) auto
qed

section \<open>The admin's settings\<close>

lemma set_adminE:
  assumes "set_admin cx a c = Inr c'"
  obtains md where "ch_distributors c (sa_distributor a) = Some md" "md_admin md \<in> set (cx_signers cx)"
    "sa_new_admin a \<noteq> md_admin md"
    "c' = store_distributor c (sa_distributor a) (md\<lparr>md_admin := sa_new_admin a\<rparr>)"
  using assms by (auto simp: set_admin_def check_set_admin_def handle_set_admin_def ok_iff)

lemma set_clawback_receiverE:
  assumes "set_clawback_receiver cx a c = Inr c'"
  obtains md account where "ch_distributors c (scr_distributor a) = Some md" "md_admin md \<in> set (cx_signers cx)"
    "scr_new_clawback_account a \<noteq> md_clawback_receiver md"
    "lg_accounts (ch_ledger c) (scr_new_clawback_account a) = Some account" "ta_mint account = md_mint md"
    "c' = store_distributor c (scr_distributor a) (md\<lparr>md_clawback_receiver := scr_new_clawback_account a\<rparr>)"
  using assms
  by (auto simp: set_clawback_receiver_def check_set_clawback_receiver_def handle_set_clawback_receiver_def ok_iff)

lemma set_clawback_start_tsE:
  assumes "set_clawback_start_ts cx a ts c = Inr c'"
  obtains md where "ch_distributors c (scs_distributor a) = Some md" "md_admin md \<in> set (cx_signers cx)"
    "\<not> md_clawed_back md" "cx_unix_timestamp cx < ts" "ival (md_end_ts md) + 86400 \<le> ival ts"
    "c' = store_distributor c (scs_distributor a) (md\<lparr>md_clawback_start_ts := ts\<rparr>)"
  using assms
  by (auto simp: set_clawback_start_ts_def check_set_clawback_start_ts_def handle_set_clawback_start_ts_def
      validate_clawback_start_ts_def ok_iff checked_add_i64_Some less_eq_i64_def)

lemma set_enable_slotE:
  assumes "set_enable_slot cx a slot c = Inr c'"
  obtains md where "ch_distributors c (ses_distributor a) = Some md" "md_admin md \<in> set (cx_signers cx)"
    "c' = store_distributor c (ses_distributor a) (md\<lparr>md_enable_slot := slot\<rparr>)"
  using assms by (auto simp: set_enable_slot_def check_set_enable_slot_def handle_set_enable_slot_def ok_iff)

section \<open>Any instruction\<close>

fun is_setting :: "instruction \<Rightarrow> bool" where
  "is_setting (SetAdmin a) = True"
| "is_setting (SetClawbackReceiver a) = True"
| "is_setting (SetClawbackStartTs a ts) = True"
| "is_setting (SetEnableSlot a slot) = True"
| "is_setting _ = False"

lemma exec_cases:
  assumes "exec env cx i c = Inr c'"
  obtains (create) a args where "i = NewDistributor a args" "new_distributor env cx a args c = Inr c'"
    | (close) a where "i = CloseDistributor a" "close_distributor env cx a c = Inr c'"
    | (reroot) a r old n m where "i = SetRoot a r old n m" "set_root env cx a r old n m c = Inr c'"
    | (claim) a u l p where "i = NewClaim a u l p" "new_claim env cx a u l p c = Inr c'"
    | (draw) a where "i = ClaimLocked a" "claim_locked env cx a c = Inr c'"
    | (claw) a where "i = Clawback a" "clawback env cx a c = Inr c'"
    | (setting) "is_setting i"
  using assms by (cases i) (auto simp: close_claim_status_fails)

end
