(* ===== verification/Distributor_Inv.thy ===== *)
theory Distributor_Inv
  imports Distributor_Effects
begin

text \<open>
  The program over time. A step is a successful instruction or a change of the ledger by other
  programs, which cannot take tokens out of accounts owned by a distributor (only the program
  signs for its addresses). A run is a sequence of steps with its labels.

  The locale \<open>kept_by_steps\<close> carries a state predicate from steps to runs; the well-formedness of
  the accounts (\<open>good\<close>), the books of the claims (\<open>books\<close>) and the lasting claim records interpret
  it.
\<close>

section \<open>Steps and runs\<close>

datatype label = Call ctx instruction | Outside

definition outside_ok :: "chain \<Rightarrow> ledger \<Rightarrow> bool" where
  "outside_ok c l' \<longleftrightarrow>
     (\<forall>k a. lg_accounts (ch_ledger c) k = Some a \<and> ch_distributors c (ta_owner a) \<noteq> None \<longrightarrow>
        (\<exists>a'. lg_accounts l' k = Some a' \<and> ta_mint a' = ta_mint a \<and> ta_owner a' = ta_owner a
              \<and> ta_amount a \<le> ta_amount a'))"

inductive step :: "env \<Rightarrow> chain \<Rightarrow> label \<Rightarrow> chain \<Rightarrow> bool" for env where
  call: "exec env cx i c = Inr c' \<Longrightarrow> step env c (Call cx i) c'"
| outside: "outside_ok c l' \<Longrightarrow> step env c Outside (c\<lparr>ch_ledger := l'\<rparr>)"

inductive run :: "env \<Rightarrow> chain \<Rightarrow> label list \<Rightarrow> chain \<Rightarrow> bool" for env where
  start: "run env c [] c"
| more: "run env c tr c' \<Longrightarrow> step env c' l c'' \<Longrightarrow> run env c (tr @ [l]) c''"

inductive_cases step_CallE [elim!]: "step env c (Call cx i) c'"
inductive_cases step_OutsideE [elim!]: "step env c Outside c'"

definition initial :: "chain \<Rightarrow> bool" where
  "initial c \<longleftrightarrow> ch_distributors c = (\<lambda>_. None) \<and> ch_claim_statuses c = (\<lambda>_. None)"

definition env_ok :: "env \<Rightarrow> bool" where
  "env_ok env \<longleftrightarrow> transfer_effect env \<and> burn_effect env"

locale kept_by_steps =
  fixes I :: "env \<Rightarrow> chain \<Rightarrow> bool" and allowed :: "label \<Rightarrow> bool"
  assumes initially: "initial c \<Longrightarrow> I env c"
    and kept: "env_ok env \<Longrightarrow> step env c l c' \<Longrightarrow> allowed l \<Longrightarrow> I env c \<Longrightarrow> I env c'"
begin

lemma kept_by_runs:
  "run env c tr c' \<Longrightarrow> env_ok env \<Longrightarrow> list_all allowed tr \<Longrightarrow> I env c \<Longrightarrow> I env c'"
  by (induction rule: run.induct) (auto intro: kept)

lemma always:
  "env_ok env \<Longrightarrow> initial c \<Longrightarrow> run env c tr c' \<Longrightarrow> list_all allowed tr \<Longrightarrow> I env c'"
  using initially kept_by_runs by blast

end

section \<open>Well-formed accounts\<close>

definition owned_vault :: "ledger \<Rightarrow> pubkey \<Rightarrow> pubkey \<Rightarrow> bool" where
  "owned_vault l d k \<longleftrightarrow> (\<exists>a. lg_accounts l k = Some a \<and> ta_owner a = d)"

definition md_ok :: "env \<Rightarrow> ledger \<Rightarrow> pubkey \<Rightarrow> merkle_distributor \<Rightarrow> bool" where
  "md_ok env l d md \<longleftrightarrow>
     unat (md_total_amount_claimed md) \<le> unat (md_max_total_claim md)
     \<and> unat (md_num_nodes_claimed md) \<le> unat (md_max_num_nodes md)
     \<and> md_start_ts md < md_end_ts md
     \<and> ival (md_end_ts md) + 86400 \<le> ival (md_clawback_start_ts md)
     \<and> find_program_address env (distributor_seeds (md_mint md) (md_version md)) (program_id env) = (d, md_bump md)
     \<and> md_token_vault md = associated_token_address env d (md_mint md)
     \<and> owned_vault l d (associated_token_address env d (md_mint md))"

definition cs_ok :: "env \<Rightarrow> pubkey \<Rightarrow> claim_status \<Rightarrow> bool" where
  "cs_ok env k cs \<longleftrightarrow>
     k = claim_status_key env (cs_claimant cs) (cs_distributor cs)
     \<and> unat (cs_locked_amount_withdrawn cs) \<le> unat (cs_locked_amount cs)
     \<and> unat (cs_unlocked_amount_claimed cs) \<le> unat (cs_unlocked_amount cs)"

definition good :: "env \<Rightarrow> chain \<Rightarrow> bool" where
  "good env c \<longleftrightarrow>
     (\<forall>d md. ch_distributors c d = Some md \<longrightarrow> md_ok env (ch_ledger c) d md)
     \<and> (\<forall>k cs. ch_claim_statuses c k = Some cs \<longrightarrow> cs_ok env k cs)"

lemma owned_vault_keeps: "keeps_accounts l l' \<Longrightarrow> owned_vault l d k \<Longrightarrow> owned_vault l' d k"
  by (auto simp: owned_vault_def elim!: keeps_accountsD)

lemma md_ok_keeps: "md_ok env l d md \<Longrightarrow> keeps_accounts l l' \<Longrightarrow> md_ok env l' d md"
  by (auto simp: md_ok_def intro: owned_vault_keeps)

lemma md_ok_vault: "md_ok env l d md \<Longrightarrow> owned_vault l d (md_token_vault md)"
  by (simp add: md_ok_def)

lemma goodD: "good env c \<Longrightarrow> ch_distributors c d = Some md \<Longrightarrow> md_ok env (ch_ledger c) d md"
  by (simp add: good_def)

text \<open>An instruction replaces at most one distributor and one claim status.\<close>

lemma good_update:
  assumes "good env c" "keeps_accounts (ch_ledger c) l'"
    and "md_ok env l' d md"
    and "ds = (ch_distributors c)(d \<mapsto> md)"
    and "cs = ch_claim_statuses c \<or> (\<exists>k st. cs = (ch_claim_statuses c)(k \<mapsto> st) \<and> cs_ok env k st)"
  shows "good env (c\<lparr>ch_distributors := ds, ch_claim_statuses := cs, ch_ledger := l', ch_events := evs\<rparr>)"
  using assms by (auto simp: good_def intro: md_ok_keeps split: if_splits)

lemma store_good:
  assumes "good env c" "md_ok env (ch_ledger c) d md"
  shows "good env (store_distributor c d md)"
  using assms by (auto simp: good_def store_distributor_def split: if_splits)

lemma new_distributor_good:
  assumes "good env c" "new_distributor env cx a args c = Inr c'"
  shows "good env c'"
  using assms(2)
proof (rule new_distributorE)
  fix bump vault
  assume h: "find_program_address env (distributor_seeds (nd_mint a) (na_version args)) (program_id env)
       = (nd_distributor a, bump)"
    "lg_accounts (ch_ledger c) (nd_token_vault a) = Some vault" "ta_owner vault = nd_distributor a"
    "nd_token_vault a = associated_token_address env (nd_distributor a) (nd_mint a)"
    "na_start_vesting_ts args < na_end_vesting_ts args"
    "ival (na_end_vesting_ts args) + 86400 \<le> ival (na_clawback_start_ts args)"
    "c' = c\<lparr>ch_distributors := (ch_distributors c)(nd_distributor a \<mapsto> fresh_distributor a args bump)\<rparr>"
  then have "md_ok env (ch_ledger c) (nd_distributor a) (fresh_distributor a args bump)"
    by (auto simp: md_ok_def fresh_distributor_def owned_vault_def)
  from store_good [OF assms(1) this] h(7) show ?thesis by (simp add: store_distributor_def)
qed

lemma new_claim_good:
  assumes "env_ok env" "good env c" "new_claim env cx a u l p c = Inr c'"
  shows "good env c'"
  using assms(3)
proof (rule new_claimE)
  fix md paid f led num claimed forgone
  assume h: "ch_distributors c (nc_distributor a) = Some md"
    "nc_claim_status a = claim_status_key env (nc_claimant a) (nc_distributor a)"
    "unat paid + unat f = unat u"
    "token_transfer env (md_token_vault md) (nc_to a) (nc_distributor a) paid (ch_ledger c) = Inr led"
    "unat num \<le> unat (md_max_num_nodes md)" "unat claimed + unat forgone \<le> unat (md_max_total_claim md)"
    and c': "c' = c\<lparr>ch_distributors := (ch_distributors c)(nc_distributor a \<mapsto> md\<lparr>md_num_nodes_claimed := num,
         md_total_amount_claimed := claimed, md_total_amount_forgone := forgone\<rparr>),
       ch_claim_statuses := (ch_claim_statuses c)(nc_claim_status a \<mapsto> fresh_claim md a u l paid),
       ch_ledger := led,
       ch_events := ch_events c @ [NewClaimEvent (nc_claimant a) (cx_unix_timestamp cx) paid f]\<rparr>"
  have keeps: "keeps_accounts (ch_ledger c) led" using assms(1) h(4) by (auto simp: env_ok_def intro: transfer_keeps)
  have "md_ok env led (nc_distributor a) md" using goodD [OF assms(2) h(1)] keeps by (rule md_ok_keeps)
  then have "md_ok env led (nc_distributor a) (md\<lparr>md_num_nodes_claimed := num,
         md_total_amount_claimed := claimed, md_total_amount_forgone := forgone\<rparr>)"
    using h(5,6) by (auto simp: md_ok_def)
  moreover have "cs_ok env (nc_claim_status a) (fresh_claim md a u l paid)"
    using h(2,3) by (simp add: cs_ok_def fresh_claim_def)
  ultimately show ?thesis unfolding c' using assms(2) keeps by (intro good_update) auto
qed

lemma claim_locked_good:
  assumes "env_ok env" "good env c" "claim_locked env cx a c = Inr c'"
  shows "good env c'"
  using assms(3)
proof (rule claim_lockedE)
  fix md cs withdrawn amount led claimed
  assume h: "ch_distributors c (cl_distributor a) = Some md" "ch_claim_statuses c (cl_claim_status a) = Some cs"
    "unat withdrawn \<le> unat (cs_locked_amount cs)"
    "token_transfer env (md_token_vault md) (cl_to a) (cl_distributor a) amount (ch_ledger c) = Inr led"
    "unat claimed \<le> unat (md_max_total_claim md)"
    and c': "c' = c\<lparr>ch_distributors := (ch_distributors c)(cl_distributor a \<mapsto> md\<lparr>md_total_amount_claimed := claimed\<rparr>),
       ch_claim_statuses := (ch_claim_statuses c)(cl_claim_status a \<mapsto>
         cs\<lparr>cs_locked_amount_withdrawn := withdrawn\<rparr>),
       ch_ledger := led, ch_events := ch_events c @ [ClaimedEvent (cl_claimant a) amount]\<rparr>"
  have keeps: "keeps_accounts (ch_ledger c) led" using assms(1) h(4) by (auto simp: env_ok_def intro: transfer_keeps)
  have "md_ok env led (cl_distributor a) md" using goodD [OF assms(2) h(1)] keeps by (rule md_ok_keeps)
  then have "md_ok env led (cl_distributor a) (md\<lparr>md_total_amount_claimed := claimed\<rparr>)"
    using h(5) by (auto simp: md_ok_def)
  moreover have "cs_ok env (cl_claim_status a) cs" using assms(2) h(2) by (simp add: good_def)
  then have "cs_ok env (cl_claim_status a) (cs\<lparr>cs_locked_amount_withdrawn := withdrawn\<rparr>)"
    using h(3) by (auto simp: cs_ok_def)
  ultimately show ?thesis unfolding c' using assms(2) keeps by (intro good_update) auto
qed

lemma clawback_good:
  assumes "env_ok env" "good env c" "clawback env cx a c = Inr c'"
  shows "good env c'"
  using assms(3)
proof (rule clawbackE)
  fix md vault led
  assume h: "ch_distributors c (cb_distributor a) = Some md"
    "token_transfer env (md_token_vault md) (md_clawback_receiver md) (cb_distributor a) (ta_amount vault)
       (ch_ledger c) = Inr led"
    and c': "c' = c\<lparr>ch_distributors := (ch_distributors c)(cb_distributor a \<mapsto> md\<lparr>md_clawed_back := True\<rparr>),
       ch_ledger := led\<rparr>"
  have keeps: "keeps_accounts (ch_ledger c) led" using assms(1) h(2) by (auto simp: env_ok_def intro: transfer_keeps)
  have "md_ok env led (cb_distributor a) md" using goodD [OF assms(2) h(1)] keeps by (rule md_ok_keeps)
  then have "md_ok env led (cb_distributor a) (md\<lparr>md_clawed_back := True\<rparr>)" by (simp add: md_ok_def)
  from good_update [OF assms(2) keeps this refl disjI1 [OF refl], of "ch_events c"] show ?thesis
    unfolding c' by simp
qed

lemma close_distributor_good:
  assumes "env_ok env" "good env c" "close_distributor env cx a c = Inr c'"
  shows "good env c'"
  using assms(3)
proof (rule close_distributorE)
  fix md vault led
  assume tr: "token_transfer env (md_token_vault md) (cd_destination_token_account a) (cd_distributor a)
      (ta_amount vault) (ch_ledger c) = Inr led"
    and c': "c' = c\<lparr>ch_distributors := (ch_distributors c)(cd_distributor a := None), ch_ledger := led\<rparr>"
  have "keeps_accounts (ch_ledger c) led" using assms(1) tr by (auto simp: env_ok_def intro: transfer_keeps)
  then show ?thesis using assms(2) unfolding c' by (auto simp: good_def intro: md_ok_keeps split: if_splits)
qed

lemma set_root_good:
  assumes "env_ok env" "good env c" "set_root env cx a r old n m c = Inr c'"
  shows "good env c'"
  using assms(3)
proof (rule set_rootE)
  fix md vault led burn
  assume h: "ch_distributors c (sr_distributor a) = Some md"
    "unat (md_total_amount_claimed md) + unat (md_total_amount_forgone md) \<le> unat m"
    "if 0 < burn then token_burn env (md_token_vault md) (md_mint md) (sr_distributor a) burn (ch_ledger c) = Inr led
     else led = ch_ledger c"
    and c': "c' = c\<lparr>ch_distributors := (ch_distributors c)(sr_distributor a \<mapsto>
         md\<lparr>md_root := r, md_max_total_claim := m\<rparr>),
       ch_ledger := led,
       ch_events := ch_events c @ [SetRootEvent (sr_distributor a) (md_root md) r
         (md_max_total_claim md) m burn]\<rparr>"
  have keeps: "keeps_accounts (ch_ledger c) led"
    using assms(1) h(3) by (auto simp: env_ok_def intro: burn_keeps split: if_splits)
  have "md_ok env led (sr_distributor a) md" using goodD [OF assms(2) h(1)] keeps by (rule md_ok_keeps)
  then have "md_ok env led (sr_distributor a) (md\<lparr>md_root := r, md_max_total_claim := m\<rparr>)"
    using h(2) by (auto simp: md_ok_def)
  from good_update [OF assms(2) keeps this refl disjI1 [OF refl]] show ?thesis unfolding c' by simp
qed

lemma settings_good:
  assumes "good env c"
  shows "set_admin cx a c = Inr c' \<Longrightarrow> good env c'"
    and "set_clawback_receiver cx a1 c = Inr c' \<Longrightarrow> good env c'"
    and "set_clawback_start_ts cx a2 ts c = Inr c' \<Longrightarrow> good env c'"
    and "set_enable_slot cx a3 slot c = Inr c' \<Longrightarrow> good env c'"
  using goodD [OF assms]
  by (auto elim!: set_adminE set_clawback_receiverE set_clawback_start_tsE set_enable_slotE
      intro!: store_good [OF assms] simp: md_ok_def)

lemma exec_good:
  assumes "env_ok env" "good env c" "exec env cx i c = Inr c'"
  shows "good env c'"
  using assms
  by (cases i) (auto intro: new_distributor_good new_claim_good claim_locked_good clawback_good close_distributor_good
      set_root_good settings_good simp: close_claim_status_fails)

lemma outside_good:
  assumes "good env c" "outside_ok c l'"
  shows "good env (c\<lparr>ch_ledger := l'\<rparr>)"
proof -
  have "owned_vault l' d k" if "ch_distributors c d = Some md" "owned_vault (ch_ledger c) d k" for d md k
    using assms(2) that unfolding owned_vault_def outside_ok_def by (metis option.distinct(1))
  then show ?thesis using assms(1) by (auto simp: good_def md_ok_def)
qed

interpretation well_formed: kept_by_steps good "\<lambda>_. True"
proof unfold_locales
  fix c env
  assume "initial c"
  then show "good env c" by (simp add: initial_def good_def)
next
  fix env c l c'
  assume "env_ok env" "step env c l c'" "good env c"
  then show "good env c'" by (cases l) (auto intro: exec_good outside_good)
qed

end
