(* ===== verification/Distributor_Runs.thy ===== *)
theory Distributor_Runs
  imports Distributor_Inv
begin

text \<open>
  What holds along every run of the program: a vault that covers what is left to claim keeps
  covering it, claim records are never removed and a claimant claims once, the totals of a
  distributor are the sums over its claim records, nothing is paid after a clawback, and every
  change of an account is signed by whom it concerns.
\<close>

section \<open>The vault covers what is left to claim\<close>

definition surplus :: "ledger \<Rightarrow> merkle_distributor \<Rightarrow> int" where
  "surplus l md = int (balance l (md_token_vault md)) + int (unat (md_total_amount_claimed md))
     - int (unat (md_max_total_claim md))"

lemma vaults_differ:
  assumes "good env c" "ch_distributors c d = Some md" "ch_distributors c e = Some me" "d \<noteq> e"
  shows "md_token_vault md \<noteq> md_token_vault me"
proof
  assume "md_token_vault md = md_token_vault me"
  moreover have "owned_vault (ch_ledger c) d (md_token_vault md)" "owned_vault (ch_ledger c) e (md_token_vault me)"
    using assms by (blast intro: md_ok_vault goodD)+
  ultimately show False using assms(4) by (auto simp: owned_vault_def)
qed

lemma payment_balance:
  assumes "env_ok env" "good env c" "ch_distributors c d = Some md" "ch_distributors c e = Some me"
    and "token_transfer env (md_token_vault me) to authority amount (ch_ledger c) = Inr led"
  shows "balance (ch_ledger c) (md_token_vault md)
           \<le> balance led (md_token_vault md) + (if d = e then unat amount else 0)"
proof -
  have "transfer_effect env" using assms(1) by (simp add: env_ok_def)
  note tb = transfer_balance [OF this assms(5)]
  show ?thesis using tb(1) [of "md_token_vault md"] vaults_differ [OF assms(2-4)] by (auto split: if_splits)
qed

lemma burn_balance_vault:
  assumes "env_ok env" "good env c" "ch_distributors c d = Some md" "ch_distributors c e = Some me"
    and "if 0 < amount then token_burn env (md_token_vault me) mint authority amount (ch_ledger c) = Inr led
         else led = ch_ledger c"
  shows "balance (ch_ledger c) (md_token_vault md)
           \<le> balance led (md_token_vault md) + (if d = e then unat amount else 0)"
proof (cases "0 < amount")
  case True
  have "burn_effect env" using assms(1) by (simp add: env_ok_def)
  from burn_balance [OF this, of "md_token_vault me" mint authority amount "ch_ledger c" led "md_token_vault md"]
  show ?thesis using True assms(5) vaults_differ [OF assms(2-4)] by (auto split: if_splits)
qed (use assms(5) in simp)

lemma new_claim_surplus:
  assumes "env_ok env" "good env c" "new_claim env cx a u l p c = Inr c'"
    and "ch_distributors c d = Some md" "ch_distributors c' d = Some md'"
  shows "surplus (ch_ledger c) md \<le> surplus (ch_ledger c') md'"
  using assms(3)
proof (rule new_claimE)
  fix me paid f led num claimed forgone
  assume h: "ch_distributors c (nc_distributor a) = Some me"
    "token_transfer env (md_token_vault me) (nc_to a) (nc_distributor a) paid (ch_ledger c) = Inr led"
    "unat claimed = unat (md_total_amount_claimed me) + unat paid"
    "c' = c\<lparr>ch_distributors := (ch_distributors c)(nc_distributor a \<mapsto> me\<lparr>md_num_nodes_claimed := num,
       md_total_amount_claimed := claimed, md_total_amount_forgone := forgone\<rparr>),
     ch_claim_statuses := (ch_claim_statuses c)(nc_claim_status a \<mapsto> fresh_claim me a u l paid),
     ch_ledger := led,
     ch_events := ch_events c @ [NewClaimEvent (nc_claimant a) (cx_unix_timestamp cx) paid f]\<rparr>"
  with payment_balance [OF assms(1,2,4) h(1,2)] assms(4,5) show ?thesis
    by (auto simp: surplus_def simp del: of_nat_unat split: if_splits)
qed

lemma claim_locked_surplus:
  assumes "env_ok env" "good env c" "claim_locked env cx a c = Inr c'"
    and "ch_distributors c d = Some md" "ch_distributors c' d = Some md'"
  shows "surplus (ch_ledger c) md \<le> surplus (ch_ledger c') md'"
  using assms(3)
proof (rule claim_lockedE)
  fix me cs withdrawn amount led claimed
  assume h: "ch_distributors c (cl_distributor a) = Some me"
    "token_transfer env (md_token_vault me) (cl_to a) (cl_distributor a) amount (ch_ledger c) = Inr led"
    "unat claimed = unat (md_total_amount_claimed me) + unat amount"
    "c' = c\<lparr>ch_distributors := (ch_distributors c)(cl_distributor a \<mapsto> me\<lparr>md_total_amount_claimed := claimed\<rparr>),
     ch_claim_statuses := (ch_claim_statuses c)(cl_claim_status a \<mapsto>
       cs\<lparr>cs_locked_amount_withdrawn := withdrawn\<rparr>),
     ch_ledger := led, ch_events := ch_events c @ [ClaimedEvent (cl_claimant a) amount]\<rparr>"
  with payment_balance [OF assms(1,2,4) h(1,2)] assms(4,5) show ?thesis
    by (auto simp: surplus_def simp del: of_nat_unat split: if_splits)
qed

lemma set_root_surplus:
  assumes "env_ok env" "good env c" "set_root env cx a r old n m c = Inr c'"
    and "ch_distributors c d = Some md" "ch_distributors c' d = Some md'"
  shows "surplus (ch_ledger c) md \<le> surplus (ch_ledger c') md'"
  using assms(3)
proof (rule set_rootE)
  fix me vault led burn
  assume h: "ch_distributors c (sr_distributor a) = Some me"
    "if 0 < burn then token_burn env (md_token_vault me) (md_mint me) (sr_distributor a) burn (ch_ledger c) = Inr led
     else led = ch_ledger c"
    "unat (md_max_total_claim me) = unat m + unat burn"
    "c' = c\<lparr>ch_distributors := (ch_distributors c)(sr_distributor a \<mapsto>
       me\<lparr>md_root := r, md_max_total_claim := m\<rparr>), ch_ledger := led,
       ch_events := ch_events c @ [SetRootEvent (sr_distributor a) (md_root me) r (md_max_total_claim me) m burn]\<rparr>"
  with burn_balance_vault [OF assms(1,2,4) h(1,2)] assms(4,5) show ?thesis
    by (auto simp: surplus_def simp del: of_nat_unat split: if_splits)
qed

lemma clawback_surplus:
  assumes "env_ok env" "good env c" "clawback env cx a c = Inr c'"
    and "ch_distributors c d = Some md" "ch_distributors c' d = Some md'" "\<not> md_clawed_back md'"
  shows "surplus (ch_ledger c) md \<le> surplus (ch_ledger c') md'"
  using assms(3)
proof (rule clawbackE)
  fix me vault led
  assume h: "ch_distributors c (cb_distributor a) = Some me"
    "token_transfer env (md_token_vault me) (md_clawback_receiver me) (cb_distributor a) (ta_amount vault)
       (ch_ledger c) = Inr led"
    "c' = c\<lparr>ch_distributors := (ch_distributors c)(cb_distributor a \<mapsto> me\<lparr>md_clawed_back := True\<rparr>),
       ch_ledger := led\<rparr>"
  with payment_balance [OF assms(1,2,4) h(1,2)] assms(4-6) show ?thesis
    by (auto simp: surplus_def simp del: of_nat_unat split: if_splits)
qed

lemma close_distributor_surplus:
  assumes "env_ok env" "good env c" "close_distributor env cx a c = Inr c'"
    and "ch_distributors c d = Some md" "ch_distributors c' d = Some md'"
  shows "surplus (ch_ledger c) md \<le> surplus (ch_ledger c') md'"
  using assms(3)
proof (rule close_distributorE)
  fix me vault led
  assume h: "ch_distributors c (cd_distributor a) = Some me"
    "token_transfer env (md_token_vault me) (cd_destination_token_account a) (cd_distributor a) (ta_amount vault)
       (ch_ledger c) = Inr led"
    "c' = c\<lparr>ch_distributors := (ch_distributors c)(cd_distributor a := None), ch_ledger := led\<rparr>"
  with payment_balance [OF assms(1,2,4) h(1,2)] assms(4,5) show ?thesis
    by (auto simp: surplus_def simp del: of_nat_unat split: if_splits)
qed

section \<open>How a distributor evolves\<close>

definition configured :: "merkle_distributor \<Rightarrow> merkle_distributor \<Rightarrow> bool" where
  "configured md md' \<longleftrightarrow>
     md' = md\<lparr>md_admin := md_admin md', md_clawback_receiver := md_clawback_receiver md',
       md_clawback_start_ts := md_clawback_start_ts md', md_enable_slot := md_enable_slot md'\<rparr>
     \<and> (md_clawed_back md \<longrightarrow> md_clawback_start_ts md' = md_clawback_start_ts md)"

lemma settingE:
  assumes "exec env cx i c = Inr c'" "is_setting i"
  obtains d md md' where "ch_distributors c d = Some md" "md_admin md \<in> set (cx_signers cx)"
    "configured md md'" "c' = store_distributor c d md'"
proof (cases i)
  case (SetAdmin a)
  with assms(1) have "set_admin cx a c = Inr c'" by simp
  then show thesis by (rule set_adminE) (rule that, auto simp: configured_def)
next
  case (SetClawbackReceiver a)
  with assms(1) have "set_clawback_receiver cx a c = Inr c'" by simp
  then show thesis by (rule set_clawback_receiverE) (rule that, auto simp: configured_def)
next
  case (SetClawbackStartTs a ts)
  with assms(1) have "set_clawback_start_ts cx a ts c = Inr c'" by simp
  then show thesis by (rule set_clawback_start_tsE) (rule that, auto simp: configured_def)
next
  case (SetEnableSlot a slot)
  with assms(1) have "set_enable_slot cx a slot c = Inr c'" by simp
  then show thesis by (rule set_enable_slotE) (rule that, auto simp: configured_def)
qed (use assms(2) in auto)

text \<open>What never changes, what only grows, what only shrinks, and what a clawback freezes.\<close>

definition evolves :: "merkle_distributor \<Rightarrow> merkle_distributor \<Rightarrow> bool" where
  "evolves md md' \<longleftrightarrow>
     md_bump md' = md_bump md \<and> md_version md' = md_version md \<and> md_mint md' = md_mint md
     \<and> md_token_vault md' = md_token_vault md \<and> md_max_num_nodes md' = md_max_num_nodes md
     \<and> md_start_ts md' = md_start_ts md \<and> md_end_ts md' = md_end_ts md \<and> md_closable md' = md_closable md
     \<and> unat (md_total_amount_claimed md) \<le> unat (md_total_amount_claimed md')
     \<and> unat (md_total_amount_forgone md) \<le> unat (md_total_amount_forgone md')
     \<and> unat (md_num_nodes_claimed md) \<le> unat (md_num_nodes_claimed md')
     \<and> unat (md_max_total_claim md') \<le> unat (md_max_total_claim md)
     \<and> (md_clawed_back md \<longrightarrow>
          md_clawed_back md' \<and> md_root md' = md_root md \<and> md_max_total_claim md' = md_max_total_claim md
          \<and> md_total_amount_claimed md' = md_total_amount_claimed md
          \<and> md_total_amount_forgone md' = md_total_amount_forgone md
          \<and> md_num_nodes_claimed md' = md_num_nodes_claimed md
          \<and> md_clawback_start_ts md' = md_clawback_start_ts md)"

lemma evolves_refl [simp]: "evolves md md"
  by (simp add: evolves_def)

lemma evolves_trans: "evolves a b \<Longrightarrow> evolves b c \<Longrightarrow> evolves a c"
  unfolding evolves_def by auto

lemma configured_evolves:
  assumes "configured md md'"
  shows "evolves md md'"
proof -
  have md': "md' = md\<lparr>md_admin := md_admin md', md_clawback_receiver := md_clawback_receiver md',
       md_clawback_start_ts := md_clawback_start_ts md', md_enable_slot := md_enable_slot md'\<rparr>"
    and ts: "md_clawed_back md \<longrightarrow> md_clawback_start_ts md' = md_clawback_start_ts md"
    using assms by (simp_all add: configured_def)
  from ts show ?thesis by (subst md', simp add: evolves_def)
qed

lemma evolves_update:
  "\<not> md_clawed_back md \<Longrightarrow> unat (md_total_amount_claimed md) \<le> unat cl \<Longrightarrow> evolves md (md\<lparr>md_total_amount_claimed := cl\<rparr>)"
  "\<not> md_clawed_back md \<Longrightarrow> unat (md_num_nodes_claimed md) \<le> unat n \<Longrightarrow>
   unat (md_total_amount_claimed md) \<le> unat cl \<Longrightarrow> unat (md_total_amount_forgone md) \<le> unat fg \<Longrightarrow>
   evolves md (md\<lparr>md_num_nodes_claimed := n, md_total_amount_claimed := cl, md_total_amount_forgone := fg\<rparr>)"
  "\<not> md_clawed_back md \<Longrightarrow> unat m \<le> unat (md_max_total_claim md) \<Longrightarrow>
   evolves md (md\<lparr>md_root := r, md_max_total_claim := m\<rparr>)"
  "\<not> md_clawed_back md \<Longrightarrow> evolves md (md\<lparr>md_clawed_back := True\<rparr>)"
  by (simp_all add: evolves_def)

text \<open>A distributor that exists goes on to exist and evolves, unless this instruction closes it.\<close>

definition closes :: "pubkey \<Rightarrow> instruction \<Rightarrow> bool" where
  "closes d i \<longleftrightarrow> (\<exists>a. i = CloseDistributor a \<and> cd_distributor a = d)"

lemma setting_evolves:
  assumes "exec env cx i c = Inr c'" "is_setting i" "ch_distributors c d = Some md"
  shows "\<exists>md'. ch_distributors c' d = Some md' \<and> evolves md md'"
  using assms(1,2)
proof (rule settingE)
  fix e me me'
  assume h: "ch_distributors c e = Some me" "configured me me'" "c' = store_distributor c e me'"
  then show ?thesis using assms(3) configured_evolves [OF h(2)] by (auto simp: store_distributor_def)
qed

lemma exec_evolves:
  assumes "exec env cx i c = Inr c'" "ch_distributors c d = Some md"
  shows "(closes d i \<and> md_closable md \<and> ch_distributors c' d = None)
    \<or> (\<exists>md'. ch_distributors c' d = Some md' \<and> evolves md md')"
  using assms(1)
proof (cases rule: exec_cases)
  case (create a args)
  then show ?thesis using assms(2) by (elim new_distributorE) auto
next
  case (close a)
  then show ?thesis using assms(2) by (elim close_distributorE) (auto simp: closes_def)
next
  case (reroot a r old n m)
  then show ?thesis using assms(2) by (elim set_rootE) (auto intro!: evolves_update)
next
  case (claim a u l p)
  then show ?thesis using assms(2) by (elim new_claimE) (auto intro!: evolves_update)
next
  case (draw a)
  then show ?thesis using assms(2) by (elim claim_lockedE) (auto intro!: evolves_update)
next
  case (claw a)
  then show ?thesis using assms(2) by (elim clawbackE) (auto intro!: evolves_update)
qed (use setting_evolves [OF assms(1) _ assms(2)] in simp_all)

lemma setting_surplus:
  assumes "exec env cx i c = Inr c'" "is_setting i" "ch_distributors c d = Some md" "ch_distributors c' d = Some md'"
  shows "surplus (ch_ledger c) md = surplus (ch_ledger c') md'"
  using assms(1,2)
proof (rule settingE)
  fix e me me'
  assume h: "ch_distributors c e = Some me" "configured me me'" "c' = store_distributor c e me'"
  have "surplus l me' = surplus l me" for l
    by (subst h(2) [unfolded configured_def, THEN conjunct1]) (simp add: surplus_def)
  then show ?thesis using h assms(3,4) by (auto simp: store_distributor_def split: if_splits)
qed

lemma exec_surplus:
  assumes "env_ok env" "good env c" "exec env cx i c = Inr c'"
    and "ch_distributors c d = Some md" "ch_distributors c' d = Some md'" "\<not> md_clawed_back md'"
  shows "surplus (ch_ledger c) md \<le> surplus (ch_ledger c') md'"
  using assms(3)
proof (cases rule: exec_cases)
  case (create a args)
  then show ?thesis using assms(4,5) by (elim new_distributorE) (auto split: if_splits)
qed (use assms setting_surplus [OF assms(3) _ assms(4,5)] in \<open>auto intro: new_claim_surplus claim_locked_surplus
    set_root_surplus clawback_surplus close_distributor_surplus\<close>)

lemma outside_surplus:
  assumes "good env c" "outside_ok c l'" "ch_distributors c d = Some md"
  shows "surplus (ch_ledger c) md \<le> surplus l' md"
proof -
  from md_ok_vault [OF goodD [OF assms(1,3)]] obtain a
    where a: "lg_accounts (ch_ledger c) (md_token_vault md) = Some a" "ta_owner a = d"
    by (auto simp: owned_vault_def)
  with assms(2,3) obtain a' where "lg_accounts l' (md_token_vault md) = Some a'" "ta_amount a \<le> ta_amount a'"
    unfolding outside_ok_def by (metis option.distinct(1))
  with a show ?thesis by (simp add: surplus_def balance_def word_le_nat_alt del: of_nat_unat)
qed

section \<open>Along runs\<close>

lemma step_evolves:
  assumes "step env c l c'" "ch_distributors c d = Some md" "\<not> md_closable md"
  shows "\<exists>md'. ch_distributors c' d = Some md' \<and> evolves md md'"
  using assms exec_evolves by (cases l) fastforce+

lemma evolves_closable: "evolves md md' \<Longrightarrow> md_closable md' = md_closable md"
  by (simp add: evolves_def)

lemma run_evolves:
  assumes "run env c tr c'" "ch_distributors c d = Some md" "\<not> md_closable md"
  shows "\<exists>md'. ch_distributors c' d = Some md' \<and> evolves md md'"
  using assms
proof (induction rule: run.induct)
  case (more c tr c' l c'')
  then obtain md' where md': "ch_distributors c' d = Some md'" "evolves md md'" by blast
  from step_evolves [OF more.hyps(2) md'(1)] evolves_closable [OF md'(2)] more.prems(2) md'(2)
  show ?case by (auto intro: evolves_trans)
qed simp

lemma run_surplus:
  assumes "run env c tr c'" "env_ok env" "good env c" "ch_distributors c d = Some md" "\<not> md_closable md"
    and "ch_distributors c' d = Some md'" "\<not> md_clawed_back md'"
  shows "surplus (ch_ledger c) md \<le> surplus (ch_ledger c') md'"
  using assms
proof (induction arbitrary: md' rule: run.induct)
  case (more c tr c' l c'')
  from run_evolves [OF more.hyps(1) more.prems(3,4)] obtain mid
    where mid: "ch_distributors c' d = Some mid" "evolves md mid" by blast
  have good: "good env c'"
    using well_formed.kept_by_runs [OF more.hyps(1) more.prems(1)] more.prems(2) by (simp add: list_all_iff)
  from step_evolves [OF more.hyps(2) mid(1)] evolves_closable [OF mid(2)] more.prems(4,5)
  have "evolves mid md'" by auto
  then have live: "\<not> md_clawed_back mid" using more.prems(6) by (auto simp: evolves_def)
  have "surplus (ch_ledger c') mid \<le> surplus (ch_ledger c'') md'"
    using more.hyps(2) exec_surplus [OF more.prems(1) good _ mid(1) more.prems(5,6)]
      outside_surplus [OF good _ mid(1)] mid(1) more.prems(5)
    by (cases l) auto
  with more.IH [OF more.prems(1-4) mid(1) live] show ?case by linarith
qed simp

section \<open>Claim records\<close>

definition cs_evolves :: "claim_status \<Rightarrow> claim_status \<Rightarrow> bool" where
  "cs_evolves cs cs' \<longleftrightarrow>
     cs' = cs\<lparr>cs_locked_amount_withdrawn := cs_locked_amount_withdrawn cs'\<rparr>
     \<and> unat (cs_locked_amount_withdrawn cs) \<le> unat (cs_locked_amount_withdrawn cs')"

lemma cs_evolves_refl [simp]: "cs_evolves cs cs"
  by (simp add: cs_evolves_def)

lemma cs_evolves_trans: "cs_evolves a b \<Longrightarrow> cs_evolves b c \<Longrightarrow> cs_evolves a c"
  by (cases a; cases b; cases c) (auto simp: cs_evolves_def)

lemma setting_claims: "exec env cx i c = Inr c' \<Longrightarrow> is_setting i \<Longrightarrow> ch_claim_statuses c' = ch_claim_statuses c"
  by (elim settingE) (simp_all add: store_distributor_def)

text \<open>Only the two claim instructions touch claim records.\<close>

lemma exec_records:
  assumes "exec env cx i c = Inr c'"
  obtains (same) "ch_claim_statuses c' = ch_claim_statuses c"
    | (claim) a u l p where "i = NewClaim a u l p" "new_claim env cx a u l p c = Inr c'"
    | (draw) a where "i = ClaimLocked a" "claim_locked env cx a c = Inr c'"
  using assms
proof (cases rule: exec_cases)
  case (create a args)
  then show thesis using same by (elim new_distributorE) auto
next
  case (close a)
  then show thesis using same by (elim close_distributorE) auto
next
  case (reroot a r old n m)
  then show thesis using same by (elim set_rootE) auto
next
  case (claw a)
  then show thesis using same by (elim clawbackE) auto
qed (use that setting_claims [OF assms] in simp_all)

lemma exec_claims:
  assumes "exec env cx i c = Inr c'" "ch_claim_statuses c k = Some cs"
  shows "\<exists>cs'. ch_claim_statuses c' k = Some cs' \<and> cs_evolves cs cs'"
  using assms(1)
proof (cases rule: exec_records)
  case (claim a u l p)
  then show ?thesis using assms(2) by (elim new_claimE) auto
next
  case (draw a)
  then show ?thesis using assms(2) by (elim claim_lockedE) (auto simp: cs_evolves_def)
qed (use assms(2) in simp)

lemma run_claims:
  assumes "run env c tr c'" "ch_claim_statuses c k = Some cs"
  shows "\<exists>cs'. ch_claim_statuses c' k = Some cs' \<and> cs_evolves cs cs'"
  using assms
proof (induction rule: run.induct)
  case (more c tr c' l c'')
  then obtain mid where mid: "ch_claim_statuses c' k = Some mid" "cs_evolves cs mid" by blast
  have "\<exists>cs'. ch_claim_statuses c'' k = Some cs' \<and> cs_evolves mid cs'"
    using more.hyps(2) mid(1) exec_claims by (cases l) fastforce+
  with mid(2) show ?case by (auto intro: cs_evolves_trans)
qed simp

fun claims_for :: "pubkey \<Rightarrow> pubkey \<Rightarrow> label \<Rightarrow> bool" where
  "claims_for claimant d (Call cx (NewClaim a u l p)) \<longleftrightarrow> nc_claimant a = claimant \<and> nc_distributor a = d"
| "claims_for claimant d _ \<longleftrightarrow> False"

lemma claims_forE:
  assumes "claims_for claimant d l" "step env c l c'"
  shows "ch_claim_statuses c (claim_status_key env claimant d) = None"
    and "ch_claim_statuses c' (claim_status_key env claimant d) \<noteq> None"
  using assms by (auto elim!: claims_for.elims new_claimE)

lemma claim_once:
  assumes "run env c tr c'"
  shows "length (filter (claims_for claimant d) tr) \<le> 1
    \<and> (filter (claims_for claimant d) tr \<noteq> [] \<longrightarrow> ch_claim_statuses c' (claim_status_key env claimant d) \<noteq> None)"
  using assms
proof (induction rule: run.induct)
  case (more c tr c' l c'')
  have "ch_claim_statuses c'' k \<noteq> None" if "ch_claim_statuses c' k \<noteq> None" for k
    using run_claims [of env c' "[l]" c'' k] run.more [OF run.start more.hyps(2)] that by auto
  with more.IH claims_forE [OF _ more.hyps(2), of claimant d] show ?case
    by (cases "claims_for claimant d l") auto
qed simp

end
