(* ===== verification/Distributor_Books.thy ===== *)
theory Distributor_Books
  imports Distributor_Runs
begin

text \<open>
  The books of a distributor: its counters \<^verbatim>\<open>total_amount_claimed\<close>, \<^verbatim>\<open>total_amount_forgone\<close> and
  \<^verbatim>\<open>num_nodes_claimed\<close> are the sums over the claim records that name it, on every run that does not
  close it. The claim records are found by derived addresses, so this relies on the addresses of
  the (claimant, distributor) pairs that occur in the run being different.
\<close>

instance pubkey :: finite
proof
  have "(UNIV :: pubkey set) = range Pubkey" by (metis pubkey.exhaust surj_def)
  moreover have "finite (range Pubkey)" by (rule finite_imageI) simp
  ultimately show "finite (UNIV :: pubkey set)" by metis
qed

section \<open>Sums over claim records\<close>

definition claim_part :: "(claim_status \<Rightarrow> nat) \<Rightarrow> pubkey \<Rightarrow> claim_status option \<Rightarrow> nat" where
  "claim_part f d r = (case r of Some cs \<Rightarrow> if cs_distributor cs = d then f cs else 0 | None \<Rightarrow> 0)"

definition claim_sum :: "(claim_status \<Rightarrow> nat) \<Rightarrow> (pubkey \<Rightarrow> claim_status option) \<Rightarrow> pubkey \<Rightarrow> nat" where
  "claim_sum f records d = (\<Sum>k\<in>UNIV. claim_part f d (records k))"

definition paid_out :: "claim_status \<Rightarrow> nat" where
  "paid_out cs = unat (cs_unlocked_amount_claimed cs) + unat (cs_locked_amount_withdrawn cs)"

definition given_up :: "claim_status \<Rightarrow> nat" where
  "given_up cs = unat (cs_unlocked_amount cs) - unat (cs_unlocked_amount_claimed cs)"

definition totals :: "merkle_distributor option \<Rightarrow> nat \<times> nat \<times> nat" where
  "totals r =
     (case r of
        Some md \<Rightarrow> (unat (md_total_amount_claimed md), unat (md_total_amount_forgone md), unat (md_num_nodes_claimed md))
      | None \<Rightarrow> (0, 0, 0))"

definition balanced :: "chain \<Rightarrow> pubkey \<Rightarrow> bool" where
  "balanced c d \<longleftrightarrow>
     totals (ch_distributors c d) =
       (claim_sum paid_out (ch_claim_statuses c) d, claim_sum given_up (ch_claim_statuses c) d,
        claim_sum (\<lambda>_. 1) (ch_claim_statuses c) d)"

lemma claim_sum_upd:
  "claim_sum f (records(k := r)) d + claim_part f d (records k) = claim_sum f records d + claim_part f d r"
  unfolding claim_sum_def
  by (simp add: sum.remove [of UNIV k])

lemma claim_sum_empty [simp]: "claim_sum f (\<lambda>_. None) d = 0"
  by (simp add: claim_sum_def claim_part_def)

text \<open>Replacing one record changes the three sums by what the records differ.\<close>

lemma balanced_update:
  assumes "balanced c d"
    and "ch_claim_statuses c' = (ch_claim_statuses c)(k \<mapsto> cs)"
    and "totals (ch_distributors c d) = (p, g, n)"
    and "totals (ch_distributors c' d) = (p', g', n')"
    and "p' + claim_part paid_out d (ch_claim_statuses c k) = p + claim_part paid_out d (Some cs)"
    and "g' + claim_part given_up d (ch_claim_statuses c k) = g + claim_part given_up d (Some cs)"
    and "n' + claim_part (\<lambda>_. 1) d (ch_claim_statuses c k) = n + claim_part (\<lambda>_. 1) d (Some cs)"
  shows "balanced c' d"
  using assms claim_sum_upd [of paid_out "ch_claim_statuses c" k "Some cs" d]
    claim_sum_upd [of given_up "ch_claim_statuses c" k "Some cs" d]
    claim_sum_upd [of "\<lambda>_. 1" "ch_claim_statuses c" k "Some cs" d]
  by (simp add: balanced_def)

section \<open>Every instruction keeps the books\<close>

lemma new_claim_balanced:
  assumes "balanced c d" "new_claim env cx a u l p c = Inr c'"
  shows "balanced c' d"
  using assms(2)
proof (rule new_claimE)
  fix md paid f led num claimed forgone
  assume h: "ch_distributors c (nc_distributor a) = Some md" "ch_claim_statuses c (nc_claim_status a) = None"
    "unat paid + unat f = unat u" "unat num = unat (md_num_nodes_claimed md) + 1"
    "unat claimed = unat (md_total_amount_claimed md) + unat paid"
    "unat forgone = unat (md_total_amount_forgone md) + unat f"
    "c' = c\<lparr>ch_distributors := (ch_distributors c)(nc_distributor a \<mapsto> md\<lparr>md_num_nodes_claimed := num,
         md_total_amount_claimed := claimed, md_total_amount_forgone := forgone\<rparr>),
       ch_claim_statuses := (ch_claim_statuses c)(nc_claim_status a \<mapsto> fresh_claim md a u l paid),
       ch_ledger := led,
       ch_events := ch_events c @ [NewClaimEvent (nc_claimant a) (cx_unix_timestamp cx) paid f]\<rparr>"
  obtain p g n where t: "totals (ch_distributors c d) = (p, g, n)" by (metis prod_cases3)
  have f: "unat u - unat paid = unat f" using h(3) by simp
  show ?thesis
  proof (cases "nc_distributor a = d")
    case True
    then show ?thesis using h t f
      by (intro balanced_update [OF assms(1) _ t, of c' "nc_claim_status a" "fresh_claim md a u l paid"
            "p + unat paid" "g + unat f" "n + 1"])
        (auto simp: totals_def claim_part_def paid_out_def given_up_def fresh_claim_def)
  next
    case False
    then show ?thesis using h t
      by (intro balanced_update [OF assms(1) _ t, of c' "nc_claim_status a" "fresh_claim md a u l paid" p g n])
        (auto simp: claim_part_def fresh_claim_def)
  qed
qed

lemma claim_locked_balanced:
  assumes "balanced c d" "claim_locked env cx a c = Inr c'"
    and own: "\<And>cs. ch_claim_statuses c (cl_claim_status a) = Some cs \<Longrightarrow> cs_distributor cs = cl_distributor a"
  shows "balanced c' d"
  using assms(2)
proof (rule claim_lockedE)
  fix md cs withdrawn amount led claimed
  assume h: "ch_distributors c (cl_distributor a) = Some md" "ch_claim_statuses c (cl_claim_status a) = Some cs"
    "unat withdrawn = unat (cs_locked_amount_withdrawn cs) + unat amount"
    "unat claimed = unat (md_total_amount_claimed md) + unat amount"
    "c' = c\<lparr>ch_distributors := (ch_distributors c)(cl_distributor a \<mapsto> md\<lparr>md_total_amount_claimed := claimed\<rparr>),
       ch_claim_statuses := (ch_claim_statuses c)(cl_claim_status a \<mapsto>
         cs\<lparr>cs_locked_amount_withdrawn := withdrawn\<rparr>),
       ch_ledger := led, ch_events := ch_events c @ [ClaimedEvent (cl_claimant a) amount]\<rparr>"
  obtain p g n where t: "totals (ch_distributors c d) = (p, g, n)" by (metis prod_cases3)
  let ?cs = "cs\<lparr>cs_locked_amount_withdrawn := withdrawn\<rparr>"
  show ?thesis
  proof (cases "cl_distributor a = d")
    case True
    then show ?thesis using h t own [OF h(2)]
      by (intro balanced_update [OF assms(1) _ t, of c' "cl_claim_status a" ?cs "p + unat amount" g n])
        (auto simp: totals_def claim_part_def paid_out_def given_up_def)
  next
    case False
    then show ?thesis using h t own [OF h(2)]
      by (intro balanced_update [OF assms(1) _ t, of c' "cl_claim_status a" ?cs p g n])
        (auto simp: claim_part_def)
  qed
qed

lemma balanced_same:
  "balanced c d \<Longrightarrow> ch_claim_statuses c' = ch_claim_statuses c \<Longrightarrow>
   totals (ch_distributors c' d) = totals (ch_distributors c d) \<Longrightarrow> balanced c' d"
  by (simp add: balanced_def)

lemma configured_totals: "configured md md' \<Longrightarrow> totals (Some md') = totals (Some md)"
  by (cases md; cases md') (simp add: configured_def totals_def)

lemma setting_balanced:
  assumes "balanced c d" "exec env cx i c = Inr c'" "is_setting i"
  shows "balanced c' d"
  using assms(2,3)
proof (rule settingE)
  fix e md md'
  assume h: "ch_distributors c e = Some md" "configured md md'" "c' = store_distributor c e md'"
  then show ?thesis using configured_totals [OF h(2)]
    by (intro balanced_same [OF assms(1)]) (auto simp: store_distributor_def)
qed

lemma exec_balanced:
  assumes "balanced c d" "exec env cx i c = Inr c'" "\<not> closes d i"
    and own: "\<And>a cs. i = ClaimLocked a \<Longrightarrow> ch_claim_statuses c (cl_claim_status a) = Some cs \<Longrightarrow>
      cs_distributor cs = cl_distributor a"
  shows "balanced c' d"
  using assms(2)
proof (cases rule: exec_cases)
  case (create a args)
  then show ?thesis
    by (elim new_distributorE) (auto intro!: balanced_same [OF assms(1)] simp: totals_def fresh_distributor_def)
next
  case (close a)
  then have "cd_distributor a \<noteq> d" using assms(3) by (auto simp: closes_def)
  with close(2) show ?thesis by (elim close_distributorE) (auto intro!: balanced_same [OF assms(1)])
next
  case (reroot a r old n m)
  then show ?thesis by (elim set_rootE) (auto intro!: balanced_same [OF assms(1)] simp: totals_def)
next
  case (claw a)
  then show ?thesis by (elim clawbackE) (auto intro!: balanced_same [OF assms(1)] simp: totals_def)
next
  case (claim a u l p)
  then show ?thesis using assms(1) by (auto intro: new_claim_balanced)
next
  case (draw a)
  from claim_locked_balanced [OF assms(1) draw(2) own [OF draw(1)]] show ?thesis .
qed (use setting_balanced [OF assms(1,2)] in simp_all)

text \<open>A claim record that was not there before is the one a claim made.\<close>

lemma exec_new_claim_record:
  assumes "exec env cx i c = Inr c'" "ch_claim_statuses c k = None" "ch_claim_statuses c' k = Some cs"
  shows "\<exists>a u l p. i = NewClaim a u l p \<and> cs_claimant cs = nc_claimant a \<and> cs_distributor cs = nc_distributor a"
  using assms(1)
proof (cases rule: exec_records)
  case (claim a u l p)
  then show ?thesis using assms(2,3) by (elim new_claimE) (auto simp: fresh_claim_def split: if_splits)
next
  case (draw a)
  then show ?thesis using assms(2,3) by (elim claim_lockedE) (auto split: if_splits)
qed (use assms(2,3) in simp)

section \<open>The books along runs\<close>

fun claim_pair :: "instruction \<Rightarrow> (pubkey \<times> pubkey) option" where
  "claim_pair (NewClaim a u l p) = Some (nc_claimant a, nc_distributor a)"
| "claim_pair (ClaimLocked a) = Some (cl_claimant a, cl_distributor a)"
| "claim_pair _ = None"

definition distinct_addresses :: "env \<Rightarrow> (pubkey \<times> pubkey) set \<Rightarrow> bool" where
  "distinct_addresses env S \<longleftrightarrow> inj_on (\<lambda>(claimant, d). claim_status_key env claimant d) S"

text \<open>The claims of a run are by the pairs of \<open>S\<close>, and the run does not close \<open>d\<close>.\<close>

definition in_books :: "pubkey \<Rightarrow> (pubkey \<times> pubkey) set \<Rightarrow> label \<Rightarrow> bool" where
  "in_books d S l \<longleftrightarrow>
     (case l of Call cx i \<Rightarrow> \<not> closes d i \<and> set_option (claim_pair i) \<subseteq> S | Outside \<Rightarrow> True)"

definition books :: "pubkey \<Rightarrow> (pubkey \<times> pubkey) set \<Rightarrow> env \<Rightarrow> chain \<Rightarrow> bool" where
  "books d S env c \<longleftrightarrow>
     good env c
     \<and> (\<forall>k cs. ch_claim_statuses c k = Some cs \<longrightarrow> (cs_claimant cs, cs_distributor cs) \<in> S)
     \<and> (distinct_addresses env S \<longrightarrow> balanced c d)"

lemma claim_locked_own:
  assumes "books d S env c" "distinct_addresses env S" "claim_locked env cx a c = Inr c'"
    and "(cl_claimant a, cl_distributor a) \<in> S" "ch_claim_statuses c (cl_claim_status a) = Some cs"
  shows "cs_distributor cs = cl_distributor a"
proof -
  have "cl_claim_status a = claim_status_key env (cl_claimant a) (cl_distributor a)"
    using assms(3) by (elim claim_lockedE)
  moreover have "cl_claim_status a = claim_status_key env (cs_claimant cs) (cs_distributor cs)"
    "(cs_claimant cs, cs_distributor cs) \<in> S"
    using assms(1,5) by (auto simp: books_def good_def cs_ok_def)
  ultimately have "(cs_claimant cs, cs_distributor cs) = (cl_claimant a, cl_distributor a)"
    using assms(4) by (intro inj_onD [OF assms(2) [unfolded distinct_addresses_def]]) simp_all
  then show ?thesis by simp
qed

lemma exec_pairs:
  assumes "exec env cx i c = Inr c'" "set_option (claim_pair i) \<subseteq> S"
    and "\<forall>k cs. ch_claim_statuses c k = Some cs \<longrightarrow> (cs_claimant cs, cs_distributor cs) \<in> S"
    and "ch_claim_statuses c' k = Some cs'"
  shows "(cs_claimant cs', cs_distributor cs') \<in> S"
proof (cases "ch_claim_statuses c k")
  case (Some cs)
  from exec_claims [OF assms(1) Some] assms(4) have "cs_evolves cs cs'" by simp
  then have "cs_claimant cs' = cs_claimant cs" "cs_distributor cs' = cs_distributor cs"
    by (cases cs; cases cs'; simp add: cs_evolves_def)+
  then show ?thesis using assms(3) Some by simp
next
  case None
  from exec_new_claim_record [OF assms(1) None assms(4)] obtain a u l p where
    "i = NewClaim a u l p" "cs_claimant cs' = nc_claimant a" "cs_distributor cs' = nc_distributor a" by blast
  then show ?thesis using assms(2) by simp
qed

interpretation claim_books: kept_by_steps "books d S" "in_books d S" for d S
proof unfold_locales
  fix c env
  assume "initial c"
  then show "books d S env c" by (auto simp: books_def good_def initial_def balanced_def totals_def)
next
  fix env c l c'
  assume h: "env_ok env" "step env c l c'" "in_books d S l" "books d S env c"
  show "books d S env c'"
  proof (cases l)
    case (Call cx i)
    with h have e: "exec env cx i c = Inr c'" "\<not> closes d i" "set_option (claim_pair i) \<subseteq> S"
      by (auto simp: in_books_def)
    have "balanced c' d" if dis: "distinct_addresses env S"
      using h(4) dis e claim_locked_own [OF h(4) dis]
      by (intro exec_balanced [OF _ e(1,2)]) (auto simp: books_def)
    then show ?thesis using h(4) exec_good [OF h(1) _ e(1)] exec_pairs [OF e(1,3)] by (auto simp: books_def)
  next
    case Outside
    with h show ?thesis by (auto simp: books_def balanced_def intro: outside_good)
  qed
qed

end
