(* ===== verification/Demo.thy ===== *)
theory Demo
  imports Distributor_Books
begin

text \<open>
  A concrete chain for the witnesses: a plain token ledger, the length as hash and table-like address
  derivation, one distributor for one claimant with 400 unlocked and 600 locked tokens, created at
  time 50 with the window from 100 to 200, claimed at 150 and drawn from at 175.
\<close>

definition demo_find :: "u8 list list \<Rightarrow> pubkey \<Rightarrow> pubkey \<times> u8" where
  "demo_find seeds program = (if length (hd seeds) = 17 then Pubkey 10 else Pubkey 60, 255)"

definition demo_env :: env where
  "demo_env =
     \<lparr>program_id = Pubkey 1, base58 = (\<lambda>s. if hd s = CHR ''p'' then Pubkey 2 else Pubkey 5),
      hashv = (\<lambda>xs. word_of_nat (length (concat xs))),
      find_program_address = demo_find,
      create_program_address = (\<lambda>seeds program. Some (fst (demo_find (butlast seeds) program))),
      associated_token_address = (\<lambda>owner mint. if owner = Pubkey 50 then Pubkey 51 else Pubkey 11), token_program_id = Pubkey 3,
      associated_token_program_id = Pubkey 4, system_program_id = Pubkey 0,
      token_transfer = ledger_transfer, token_burn = ledger_burn\<rparr>"

definition demo_account :: "pubkey \<Rightarrow> u64 \<Rightarrow> token_account" where
  "demo_account owner amount = \<lparr>ta_mint = Pubkey 5, ta_owner = owner, ta_amount = amount\<rparr>"

text \<open>The vault 11, the claimant's account 51, the clawback receiver 70.\<close>

definition demo_ledger :: "u64 \<Rightarrow> u64 \<Rightarrow> u64 \<Rightarrow> ledger" where
  "demo_ledger vault claimant receiver =
     \<lparr>lg_accounts = (\<lambda>_. None)(Pubkey 11 \<mapsto> demo_account (Pubkey 10) vault,
        Pubkey 51 \<mapsto> demo_account (Pubkey 50) claimant, Pubkey 70 \<mapsto> demo_account (Pubkey 71) receiver),
      lg_supply = (\<lambda>_. None)(Pubkey 5 \<mapsto> 5000)\<rparr>"

definition demo_start :: chain where
  "demo_start = \<lparr>ch_distributors = (\<lambda>_. None), ch_claim_statuses = (\<lambda>_. None),
     ch_ledger = demo_ledger 1000 0 0, ch_events = []\<rparr>"

definition demo_ctx :: "i64 \<Rightarrow> pubkey \<Rightarrow> ctx" where
  "demo_ctx ts signer = \<lparr>cx_slot = 1, cx_unix_timestamp = ts, cx_signers = [signer]\<rparr>"

definition demo_create :: instruction where
  "demo_create = NewDistributor
     \<lparr>nd_distributor = Pubkey 10, nd_clawback_receiver = Pubkey 70, nd_mint = Pubkey 5, nd_token_vault = Pubkey 11,
      nd_admin = Pubkey 2, nd_system_program = Pubkey 0, nd_associated_token_program = Pubkey 4,
      nd_token_program = Pubkey 3\<rparr>
     \<lparr>na_version = 0, na_root = 33, na_max_total_claim = 1000, na_max_num_nodes = 1, na_start_vesting_ts = I64 100,
      na_end_vesting_ts = I64 200, na_clawback_start_ts = I64 100000, na_enable_slot = 0, na_closable = False\<rparr>"

definition demo_distributor :: "u64 \<Rightarrow> u64 \<Rightarrow> u64 \<Rightarrow> bool \<Rightarrow> merkle_distributor" where
  "demo_distributor claimed forgone nodes clawed =
     \<lparr>md_bump = 255, md_version = 0, md_root = 33, md_mint = Pubkey 5, md_token_vault = Pubkey 11,
      md_max_total_claim = 1000, md_max_num_nodes = 1, md_total_amount_claimed = claimed,
      md_total_amount_forgone = forgone, md_num_nodes_claimed = nodes, md_start_ts = I64 100, md_end_ts = I64 200,
      md_clawback_start_ts = I64 100000, md_clawback_receiver = Pubkey 70, md_admin = Pubkey 2,
      md_clawed_back = clawed, md_enable_slot = 0, md_closable = False, md_buffer_0 = 0, md_buffer_1 = 0,
      md_buffer_2 = 0\<rparr>"

definition demo_created :: chain where
  "demo_created = demo_start\<lparr>ch_distributors := (\<lambda>_. None)(Pubkey 10 \<mapsto> demo_distributor 0 0 0 False)\<rparr>"

definition demo_claim_accounts :: new_claim_accounts where
  "demo_claim_accounts = \<lparr>nc_distributor = Pubkey 10, nc_claim_status = Pubkey 60, nc_from = Pubkey 11, nc_to = Pubkey 51,
      nc_claimant = Pubkey 50, nc_token_program = Pubkey 3, nc_system_program = Pubkey 0\<rparr>"

definition demo_claim :: instruction where
  "demo_claim = NewClaim demo_claim_accounts 400 600 []"

definition demo_status :: "u64 \<Rightarrow> claim_status" where
  "demo_status withdrawn =
     \<lparr>cs_claimant = Pubkey 50, cs_locked_amount = 600, cs_locked_amount_withdrawn = withdrawn, cs_unlocked_amount = 400,
      cs_unlocked_amount_claimed = 300, cs_closable = False, cs_distributor = Pubkey 10\<rparr>"

definition demo_claimed :: chain where
  "demo_claimed =
     \<lparr>ch_distributors = (\<lambda>_. None)(Pubkey 10 \<mapsto> demo_distributor 300 100 1 False),
      ch_claim_statuses = (\<lambda>_. None)(Pubkey 60 \<mapsto> demo_status 0),
      ch_ledger = demo_ledger 700 300 0,
      ch_events = [NewClaimEvent (Pubkey 50) (I64 150) 300 100]\<rparr>"

definition demo_locked_accounts :: claim_locked_accounts where
  "demo_locked_accounts = \<lparr>cl_distributor = Pubkey 10, cl_claim_status = Pubkey 60, cl_from = Pubkey 11,
     cl_to = Pubkey 51, cl_claimant = Pubkey 50, cl_token_program = Pubkey 3\<rparr>"

definition demo_drawn :: chain where
  "demo_drawn =
     \<lparr>ch_distributors = (\<lambda>_. None)(Pubkey 10 \<mapsto> demo_distributor 750 100 1 False),
      ch_claim_statuses = (\<lambda>_. None)(Pubkey 60 \<mapsto> demo_status 450),
      ch_ledger = demo_ledger 250 750 0,
      ch_events = [NewClaimEvent (Pubkey 50) (I64 150) 300 100, ClaimedEvent (Pubkey 50) 450]\<rparr>"

definition demo_clawback_accounts :: clawback_accounts where
  "demo_clawback_accounts = \<lparr>cb_distributor = Pubkey 10, cb_from = Pubkey 11, cb_to = Pubkey 70,
     cb_claimant = Pubkey 50, cb_system_program = Pubkey 0, cb_token_program = Pubkey 3\<rparr>"

definition demo_clawed :: chain where
  "demo_clawed = demo_drawn\<lparr>ch_distributors := (\<lambda>_. None)(Pubkey 10 \<mapsto> demo_distributor 750 100 1 True),
     ch_ledger := demo_ledger 0 750 250\<rparr>"

lemmas demo_defs = demo_env_def demo_find_def demo_account_def demo_ledger_def demo_start_def demo_ctx_def
  demo_create_def demo_distributor_def demo_created_def demo_claim_accounts_def demo_claim_def demo_status_def
  demo_claimed_def demo_locked_accounts_def demo_drawn_def demo_clawback_accounts_def demo_clawed_def

lemma length_ascii [simp]: "length (ascii s) = length s"
  by (simp add: ascii_def)

lemma demo_env_ok: "env_ok demo_env" "transfer_available demo_env" "pda_law demo_env"
proof -
  have "uses_ledger demo_env" by (simp add: uses_ledger_def demo_env_def)
  from ledger_laws [OF this] show "env_ok demo_env" "transfer_available demo_env" by (simp_all add: env_ok_def)
  show "pda_law demo_env" by (simp add: pda_law_def demo_env_def demo_find_def)
qed

lemma demo_initial: "initial demo_start"
  by (simp add: initial_def demo_start_def)

lemma demo_creates: "exec demo_env (demo_ctx (I64 50) (Pubkey 2)) demo_create demo_start = Inr demo_created"
  by (simp add: demo_defs new_distributor_def check_new_distributor_def handle_new_distributor_def require_unused_def
      load_token_def load_mint_def require_signer_def require_associated_def merkle_distributor_default_def
      distributor_seeds_def admin_id_def checked_add_i64_def SECONDS_PER_DAY_def less_i64_def less_eq_i64_def ival_def
      i64_of_def)

lemma demo_claims: "exec demo_env (demo_ctx (I64 150) (Pubkey 50)) demo_claim demo_created = Inr demo_claimed"
  by (simp add: demo_defs new_claim_def check_new_claim_def handle_new_claim_def require_unused_def load_distributor_def
      load_token_def require_signer_def require_associated_def claim_status_default_def claim_status_key_def
      claim_status_seeds_def verify_def LEAF_PREFIX_def update_unlocked_exact window_fits_def bonus_vested_def linear_vested_def
      get_unlocked_amount_forgone_def vault_transfer_def signer_seeds_def distributor_seeds_def ledger_transfer_def
      moved_def checked_add_def checked_sub_def less_i64_def less_eq_i64_def ival_def fun_eq_iff)

lemma demo_draws:
  "exec demo_env (demo_ctx (I64 175) (Pubkey 50)) (ClaimLocked demo_locked_accounts) demo_claimed = Inr demo_drawn"
  by (simp add: demo_defs claim_locked_def check_claim_locked_def handle_claim_locked_def load_distributor_def
      load_claim_status_def load_token_def require_signer_def require_associated_def claim_status_key_def
      claim_status_seeds_def amount_withdrawable_def unlocked_amount_exact window_fits_def linear_vested_def
      vault_transfer_def signer_seeds_def distributor_seeds_def ledger_transfer_def moved_def checked_add_def
      checked_sub_def checked_sub_i64_def less_i64_def less_eq_i64_def ival_def fun_eq_iff)

lemma demo_claws:
  "exec demo_env (demo_ctx (I64 100000) (Pubkey 50)) (Clawback demo_clawback_accounts) demo_drawn = Inr demo_clawed"
  by (simp add: demo_defs clawback_def check_clawback_def handle_clawback_def load_distributor_def
      load_token_def require_signer_def require_associated_def vault_transfer_def signer_seeds_def
      distributor_seeds_def ledger_transfer_def moved_def checked_add_def less_i64_def ival_def fun_eq_iff)

definition demo_trace :: "label list" where
  "demo_trace = [Call (demo_ctx (I64 50) (Pubkey 2)) demo_create, Call (demo_ctx (I64 150) (Pubkey 50)) demo_claim,
     Call (demo_ctx (I64 175) (Pubkey 50)) (ClaimLocked demo_locked_accounts),
     Call (demo_ctx (I64 100000) (Pubkey 50)) (Clawback demo_clawback_accounts)]"

lemma demo_runs:
  "run demo_env demo_start (take 1 demo_trace) demo_created"
  "run demo_env demo_start (take 3 demo_trace) demo_drawn"
  "run demo_env demo_start demo_trace demo_clawed"
  "run demo_env demo_created (drop 1 (take 3 demo_trace)) demo_drawn"
  "run demo_env demo_created (drop 1 demo_trace) demo_clawed"
  "run demo_env demo_start (take 2 demo_trace) demo_claimed"
proof -
  have one: "run env c [Call cx i] c'" if "exec env cx i c = Inr c'" for env cx i c c'
    using run.more [OF run.start step.call [OF that]] by simp
  have snoc: "run env c (tr @ [Call cx i]) c''" if "run env c tr c'" "exec env cx i c' = Inr c''" for env c tr c' cx i c''
    using that by (intro run.more step.call)
  note r1 = one [OF demo_creates] and s1 = one [OF demo_claims]
  note r3 = snoc [OF snoc [OF r1 demo_claims] demo_draws] and s3 = snoc [OF s1 demo_draws]
  show "run demo_env demo_start (take 1 demo_trace) demo_created" using r1 by (simp add: demo_trace_def)
  show "run demo_env demo_start (take 2 demo_trace) demo_claimed"
    using snoc [OF r1 demo_claims] by (simp add: demo_trace_def)
  show "run demo_env demo_start (take 3 demo_trace) demo_drawn" using r3 by (simp add: demo_trace_def)
  show "run demo_env demo_start demo_trace demo_clawed" using snoc [OF r3 demo_claws] by (simp add: demo_trace_def)
  show "run demo_env demo_created (drop 1 (take 3 demo_trace)) demo_drawn" using s3 by (simp add: demo_trace_def)
  show "run demo_env demo_created (drop 1 demo_trace) demo_clawed"
    using snoc [OF s3 demo_claws] by (simp add: demo_trace_def)
qed

end
