(* ===== verification/Distributor_Props.thy ===== *)
theory Distributor_Props
  imports Demo
begin

text \<open>
  The properties of the distributor program, each with a witness on the chain of theory \<open>Demo\<close>
  where it has hypotheses.
\<close>

section \<open>Helper lemmas\<close>

lemma funded_surplus:
  "unat (md_max_total_claim md) \<le> unat (md_total_amount_claimed md) + balance l (md_token_vault md) \<longleftrightarrow> 0 \<le> surplus l md"
  by (simp add: surplus_def del: of_nat_unat) linarith

lemma run_good: "env_ok env \<Longrightarrow> initial c \<Longrightarrow> run env c tr c' \<Longrightarrow> good env c'"
  using well_formed.always by (simp add: list_all_iff)

section \<open>Along every run\<close>

text \<open>C6: Solvency. Once the vault of a distributor (one that cannot be closed) covers what is left to
  claim, it covers it in every later state until the clawback: no sequence of claims, withdrawals,
  re-roots, admin changes, instructions on other distributors or transactions of other programs takes
  more out of the vault than it takes off the remaining claims.\<close>

theorem funded_stays_funded:
  assumes "env_ok env" "initial c0" "run env c0 tr0 c" "run env c tr c'"
    and "ch_distributors c d = Some md" "\<not> md_closable md"
    and "unat (md_max_total_claim md) \<le> unat (md_total_amount_claimed md) + balance (ch_ledger c) (md_token_vault md)"
  shows "\<exists>md'. ch_distributors c' d = Some md' \<and>
    (md_clawed_back md' \<or>
     unat (md_max_total_claim md') \<le> unat (md_total_amount_claimed md') + balance (ch_ledger c') (md_token_vault md'))"
proof -
  from run_evolves [OF assms(4-6)] obtain md' where md': "ch_distributors c' d = Some md'" by blast
  have "0 \<le> surplus (ch_ledger c') md'" if "\<not> md_clawed_back md'"
    using run_surplus [OF assms(4,1) run_good [OF assms(1-3)] assms(5,6) md' that] assms(7)
    by (simp add: funded_surplus)
  with md' show ?thesis by (auto simp: funded_surplus)
qed

theorem funded_stays_funded_witness:
  "ch_distributors demo_created (Pubkey 10) = Some (demo_distributor 0 0 0 False)
   \<and> (\<exists>md'. ch_distributors demo_drawn (Pubkey 10) = Some md' \<and>
        (md_clawed_back md' \<or> unat (md_max_total_claim md')
           \<le> unat (md_total_amount_claimed md') + balance (ch_ledger demo_drawn) (md_token_vault md')))"
proof -
  have "ch_distributors demo_created (Pubkey 10) = Some (demo_distributor 0 0 0 False)"
    by (simp add: demo_created_def)
  moreover have "\<not> md_closable (demo_distributor 0 0 0 False)"
    "unat (md_max_total_claim (demo_distributor 0 0 0 False))
       \<le> unat (md_total_amount_claimed (demo_distributor 0 0 0 False))
         + balance (ch_ledger demo_created) (md_token_vault (demo_distributor 0 0 0 False))"
    by (simp_all add: demo_defs balance_def)
  ultimately show ?thesis
    using funded_stays_funded [OF demo_env_ok(1) demo_initial demo_runs(1,4)] by blast
qed

text \<open>C8: The books. On every run from an empty chain that does not close the distributor, and in which the
  claim addresses of the occurring pairs differ, the distributor's counters are exactly the sums over
  its claim records: tokens paid out (unlocked and drawn), unlocked tokens given up, and the number of
  records.\<close>

theorem totals_are_sums:
  assumes "env_ok env" "initial c" "run env c tr c'" "list_all (in_books d S) tr" "distinct_addresses env S"
    and "ch_distributors c' d = Some md"
  shows "unat (md_total_amount_claimed md) = claim_sum paid_out (ch_claim_statuses c') d
    \<and> unat (md_total_amount_forgone md) = claim_sum given_up (ch_claim_statuses c') d
    \<and> unat (md_num_nodes_claimed md) = claim_sum (\<lambda>_. 1) (ch_claim_statuses c') d"
  using claim_books.always [OF assms(1-4)] assms(5,6) by (auto simp: books_def balanced_def totals_def)

theorem totals_are_sums_witness:
  "ch_distributors demo_drawn (Pubkey 10) = Some (demo_distributor 750 100 1 False)
   \<and> 750 = claim_sum paid_out (ch_claim_statuses demo_drawn) (Pubkey 10)
   \<and> 100 = claim_sum given_up (ch_claim_statuses demo_drawn) (Pubkey 10)
   \<and> 1 = claim_sum (\<lambda>_. 1) (ch_claim_statuses demo_drawn) (Pubkey 10)"
proof -
  have d: "ch_distributors demo_drawn (Pubkey 10) = Some (demo_distributor 750 100 1 False)"
    by (simp add: demo_drawn_def)
  have "list_all (in_books (Pubkey 10) {(Pubkey 50, Pubkey 10)}) (take 3 demo_trace)"
    by (simp add: demo_trace_def in_books_def closes_def demo_create_def demo_claim_def demo_claim_accounts_def
        demo_locked_accounts_def)
  from totals_are_sums [OF demo_env_ok(1) demo_initial demo_runs(2) this _ d] d show ?thesis
    by (simp add: distinct_addresses_def demo_distributor_def)
qed

text \<open>C14: In every reachable state: no distributor has paid out more than its cap or to more claimants than
  its tree has nodes, its vesting window is proper and ends at least a day before clawback may start, it
  is stored at its derived address and owns its vault; and no claim record has drawn more than its
  locked part or been paid more than its unlocked part.\<close>

theorem accounts_stay_well_formed:
  assumes "env_ok env" "initial c" "run env c tr c'"
  shows "(\<forall>d md. ch_distributors c' d = Some md \<longrightarrow>
        unat (md_total_amount_claimed md) \<le> unat (md_max_total_claim md)
        \<and> unat (md_num_nodes_claimed md) \<le> unat (md_max_num_nodes md)
        \<and> md_start_ts md < md_end_ts md \<and> ival (md_end_ts md) + 86400 \<le> ival (md_clawback_start_ts md)
        \<and> find_program_address env (distributor_seeds (md_mint md) (md_version md)) (program_id env) = (d, md_bump md)
        \<and> (\<exists>a. lg_accounts (ch_ledger c') (md_token_vault md) = Some a \<and> ta_owner a = d))
    \<and> (\<forall>k cs. ch_claim_statuses c' k = Some cs \<longrightarrow>
        k = claim_status_key env (cs_claimant cs) (cs_distributor cs)
        \<and> unat (cs_locked_amount_withdrawn cs) \<le> unat (cs_locked_amount cs)
        \<and> unat (cs_unlocked_amount_claimed cs) \<le> unat (cs_unlocked_amount cs))"
proof -
  note good = run_good [OF assms]
  have "md_ok env (ch_ledger c') d md \<and> owned_vault (ch_ledger c') d (md_token_vault md)"
    if "ch_distributors c' d = Some md" for d md
    using goodD [OF good that] md_ok_vault by blast
  moreover have "cs_ok env k cs" if "ch_claim_statuses c' k = Some cs" for k cs
    using good that by (simp add: good_def)
  ultimately show ?thesis unfolding md_ok_def cs_ok_def owned_vault_def by blast
qed

theorem accounts_stay_well_formed_witness:
  "ch_distributors demo_drawn (Pubkey 10) = Some (demo_distributor 750 100 1 False)
   \<and> unat (md_total_amount_claimed (demo_distributor 750 100 1 False))
       \<le> unat (md_max_total_claim (demo_distributor 750 100 1 False))"
proof -
  have d: "ch_distributors demo_drawn (Pubkey 10) = Some (demo_distributor 750 100 1 False)"
    by (simp add: demo_drawn_def)
  with accounts_stay_well_formed [OF demo_env_ok(1) demo_initial demo_runs(2)] show ?thesis by blast
qed

text \<open>C13: One claim each. In no run does the same claimant claim twice from the same distributor; once made,
  the claim record exists in every later state, keeps its claimant, distributor and amounts, and only its
  drawn amount grows.\<close>

theorem one_claim_each:
  assumes "run env c tr c'"
  shows "length (filter (claims_for claimant d) tr) \<le> 1
    \<and> (\<forall>k cs. ch_claim_statuses c k = Some cs \<longrightarrow>
         (\<exists>cs'. ch_claim_statuses c' k = Some cs'
            \<and> cs' = cs\<lparr>cs_locked_amount_withdrawn := cs_locked_amount_withdrawn cs'\<rparr>
            \<and> unat (cs_locked_amount_withdrawn cs) \<le> unat (cs_locked_amount_withdrawn cs')))"
  using claim_once [OF assms] run_claims [OF assms] unfolding cs_evolves_def by blast

theorem one_claim_each_witness:
  "length (filter (claims_for (Pubkey 50) (Pubkey 10)) demo_trace) \<le> 1
   \<and> filter (claims_for (Pubkey 50) (Pubkey 10)) demo_trace = [Call (demo_ctx (I64 150) (Pubkey 50)) demo_claim]"
  using one_claim_each [OF demo_runs(3), of "Pubkey 50" "Pubkey 10"]
  by (simp add: demo_trace_def demo_create_def demo_claim_def demo_claim_accounts_def)

text \<open>C19: The history of a distributor that cannot be closed: it exists in every later state with the same
  mint, version, vault, window and node limit, its counters only grow and its cap only shrinks; and once
  it is clawed back it stays so, with root, cap, counters and clawback time frozen.\<close>

theorem distributor_history:
  assumes "run env c tr c'" "ch_distributors c d = Some md" "\<not> md_closable md"
  shows "\<exists>md'. ch_distributors c' d = Some md' \<and> evolves md md'"
  using run_evolves [OF assms] .

theorem distributor_history_witness:
  "\<exists>md'. ch_distributors demo_clawed (Pubkey 10) = Some md' \<and> evolves (demo_distributor 0 0 0 False) md'"
  by (rule distributor_history [OF demo_runs(5)]) (simp_all add: demo_created_def demo_distributor_def)

section \<open>Who can do what\<close>

definition settings :: "merkle_distributor \<Rightarrow> pubkey \<times> pubkey \<times> i64 \<times> u64 \<times> bytes32 \<times> u64" where
  "settings md = (md_admin md, md_clawback_receiver md, md_clawback_start_ts md, md_enable_slot md, md_root md,
     md_max_total_claim md)"

definition signed_change :: "ctx \<Rightarrow> merkle_distributor \<Rightarrow> merkle_distributor option \<Rightarrow> bool" where
  "signed_change cx md r \<longleftrightarrow>
     (case r of
        None \<Rightarrow> md_admin md \<in> set (cx_signers cx) \<and> md_closable md
      | Some md' \<Rightarrow>
          (settings md' = settings md \<or> md_admin md \<in> set (cx_signers cx))
          \<and> (md_clawed_back md' = md_clawed_back md
             \<or> md_clawed_back md' \<and> md_clawback_start_ts md \<le> cx_unix_timestamp cx))"

lemma signed_change_refl [simp]: "signed_change cx md (Some md)"
  by (simp add: signed_change_def)

lemma configured_signed:
  "configured md md' \<Longrightarrow> md_admin md \<in> set (cx_signers cx) \<Longrightarrow> signed_change cx md (Some md')"
  by (cases md; cases md') (simp add: configured_def signed_change_def)

lemma setting_signed:
  assumes "exec env cx i c = Inr c'" "is_setting i" "ch_distributors c d = Some md"
  shows "signed_change cx md (ch_distributors c' d)"
  using assms(1,2)
proof (rule settingE)
  fix e me me'
  assume h: "ch_distributors c e = Some me" "md_admin me \<in> set (cx_signers cx)" "configured me me'"
    "c' = store_distributor c e me'"
  then show ?thesis using assms(3) configured_signed [OF h(3,2)] by (auto simp: store_distributor_def)
qed

lemma exec_signed:
  assumes "exec env cx i c = Inr c'" "ch_distributors c d = Some md"
  shows "signed_change cx md (ch_distributors c' d)"
  using assms(1)
proof (cases rule: exec_cases)
  case (create a args)
  then show ?thesis using assms(2) by (elim new_distributorE) auto
next
  case (close a)
  then show ?thesis using assms(2) by (elim close_distributorE) (auto simp: signed_change_def)
next
  case (reroot a r old n m)
  then show ?thesis using assms(2) by (elim set_rootE) (auto simp: signed_change_def)
next
  case (claim a u l p)
  then show ?thesis using assms(2) by (elim new_claimE) (auto simp: signed_change_def settings_def)
next
  case (draw a)
  then show ?thesis using assms(2) by (elim claim_lockedE) (auto simp: signed_change_def settings_def)
next
  case (claw a)
  then show ?thesis using assms(2) by (elim clawbackE) (auto simp: signed_change_def settings_def)
qed (use setting_signed [OF assms(1) _ assms(2)] in simp_all)

lemma exec_claim_signed:
  assumes "exec env cx i c = Inr c'" "ch_claim_statuses c' k \<noteq> ch_claim_statuses c k"
  shows "\<exists>claimant d. k = claim_status_key env claimant d \<and> claimant \<in> set (cx_signers cx)"
  using assms(1)
proof (cases rule: exec_records)
  case (claim a u l p)
  then show ?thesis using assms(2) by (elim new_claimE) (auto split: if_splits)
next
  case (draw a)
  then show ?thesis using assms(2) by (elim claim_lockedE) (auto split: if_splits)
qed (use assms(2) in simp)

text \<open>C12: Authorisation. An instruction changes a distributor's admin, receiver, clawback time, enable slot, root
  or cap, or closes it (a closable one), only with the signature of its admin; it marks it clawed back
  only from the clawback time on; and it creates or changes a claim record only with the signature of the
  claimant whose address it is.\<close>

theorem changes_are_signed:
  assumes "exec env cx i c = Inr c'"
  shows "(\<forall>d md. ch_distributors c d = Some md \<longrightarrow> signed_change cx md (ch_distributors c' d))
    \<and> (\<forall>k. ch_claim_statuses c' k \<noteq> ch_claim_statuses c k \<longrightarrow>
         (\<exists>claimant d. k = claim_status_key env claimant d \<and> claimant \<in> set (cx_signers cx)))"
  using exec_signed [OF assms] exec_claim_signed [OF assms] by blast

theorem changes_are_signed_witness:
  "ch_claim_statuses demo_claimed (Pubkey 60) \<noteq> ch_claim_statuses demo_created (Pubkey 60)
   \<and> (\<exists>claimant d. Pubkey 60 = claim_status_key demo_env claimant d
        \<and> claimant \<in> set (cx_signers (demo_ctx (I64 150) (Pubkey 50))))"
proof -
  have "ch_claim_statuses demo_claimed (Pubkey 60) \<noteq> ch_claim_statuses demo_created (Pubkey 60)"
    by (simp add: demo_claimed_def demo_created_def demo_start_def)
  with changes_are_signed [OF demo_claims] show ?thesis by blast
qed

text \<open>What lets tokens out of the vault of \<open>d\<close>.\<close>

definition pays_out :: "env \<Rightarrow> ctx \<Rightarrow> instruction \<Rightarrow> chain \<Rightarrow> pubkey \<Rightarrow> merkle_distributor \<Rightarrow> bool" where
  "pays_out env cx i c d md \<longleftrightarrow>
     (\<exists>a u l p to. i = NewClaim a u l p \<and> nc_distributor a = d \<and> nc_claimant a \<in> set (cx_signers cx)
        \<and> verify (hashv env) p (md_root md) (claim_leaf env (nc_claimant a) u l)
        \<and> lg_accounts (ch_ledger c) (nc_to a) = Some to \<and> ta_owner to = nc_claimant a)
     \<or> (\<exists>a cs to. i = ClaimLocked a \<and> cl_distributor a = d \<and> cl_claimant a \<in> set (cx_signers cx)
        \<and> ch_claim_statuses c (claim_status_key env (cl_claimant a) d) = Some cs
        \<and> lg_accounts (ch_ledger c) (cl_to a) = Some to \<and> ta_owner to = cl_claimant a)
     \<or> (\<exists>a. i = Clawback a \<and> cb_distributor a = d \<and> cb_to a = md_clawback_receiver md
        \<and> md_clawback_start_ts md \<le> cx_unix_timestamp cx)
     \<or> (\<exists>a r old n m. i = SetRoot a r old n m \<and> sr_distributor a = d \<and> md_admin md \<in> set (cx_signers cx)
        \<and> md_mint md \<in> set (DFX_MINTS env))
     \<or> (closes d i \<and> md_closable md \<and> md_admin md \<in> set (cx_signers cx))"

lemma drop_from_own_vault:
  assumes "env_ok env" "good env c" "ch_distributors c d = Some md" "ch_distributors c e = Some me"
    and "token_transfer env (md_token_vault me) to authority amount (ch_ledger c) = Inr led"
    and "balance led (md_token_vault md) < balance (ch_ledger c) (md_token_vault md)"
  shows "e = d \<and> me = md"
  using payment_balance [OF assms(1-5)] assms(3,4,6) by (cases "d = e") auto

lemma vault_drop:
  assumes "env_ok env" "good env c" "exec env cx i c = Inr c'" "ch_distributors c d = Some md"
    and drop: "balance (ch_ledger c') (md_token_vault md) < balance (ch_ledger c) (md_token_vault md)"
  shows "pays_out env cx i c d md"
  using assms(3)
proof (cases rule: exec_cases)
  case (create a args)
  then show ?thesis using drop by (elim new_distributorE) auto
next
  case (close a)
  then show ?thesis using drop
    by (elim close_distributorE) (auto simp: pays_out_def closes_def dest!: drop_from_own_vault [OF assms(1,2,4)])
next
  case (reroot a r old n m)
  then show ?thesis
  proof (elim set_rootE)
    fix me vault led burn
    assume h: "ch_distributors c (sr_distributor a) = Some me"
      "if 0 < burn then token_burn env (md_token_vault me) (md_mint me) (sr_distributor a) burn (ch_ledger c) = Inr led
       else led = ch_ledger c"
      "md_admin me \<in> set (cx_signers cx)" "md_mint me \<in> set (DFX_MINTS env)"
      "c' = c\<lparr>ch_distributors := (ch_distributors c)(sr_distributor a \<mapsto>
         me\<lparr>md_root := r, md_max_total_claim := m\<rparr>), ch_ledger := led,
         ch_events := ch_events c @ [SetRootEvent (sr_distributor a) (md_root me) r (md_max_total_claim me) m burn]\<rparr>"
    then have "sr_distributor a = d"
      using burn_balance_vault [OF assms(1,2,4) h(1,2)] drop by (cases "d = sr_distributor a") auto
    with h(1,3,4) assms(4) reroot(1) show ?thesis by (auto simp: pays_out_def)
  qed
next
  case (claim a u l p)
  then show ?thesis using drop
    by (elim new_claimE) (auto simp: pays_out_def dest!: drop_from_own_vault [OF assms(1,2,4)])
next
  case (draw a)
  then show ?thesis using drop
    by (elim claim_lockedE) (auto simp: pays_out_def dest!: drop_from_own_vault [OF assms(1,2,4)])
next
  case (claw a)
  then show ?thesis using drop
    by (elim clawbackE) (auto simp: pays_out_def dest!: drop_from_own_vault [OF assms(1,2,4)])
next
  case setting
  from assms(3) setting show ?thesis using drop by (elim settingE) (auto simp: store_distributor_def)
qed

text \<open>C7: Nothing else lets tokens out of a vault. In a reachable state, an instruction lowers the balance of a
  distributor's vault only as a claim by a signing claimant with a valid proof, paid to an account of
  that claimant; a withdrawal by a signing claimant with a claim record; a clawback from the clawback time
  on to the set receiver; or, signed by the admin, a re-root of a DFX distributor or the closing of a
  closable one.\<close>

theorem only_these_pay_out:
  assumes "env_ok env" "initial c0" "run env c0 tr c" "exec env cx i c = Inr c'" "ch_distributors c d = Some md"
    and "balance (ch_ledger c') (md_token_vault md) < balance (ch_ledger c) (md_token_vault md)"
  shows "pays_out env cx i c d md"
  using vault_drop [OF assms(1) run_good [OF assms(1-3)] assms(4-6)] .

theorem only_these_pay_out_witness:
  "balance (ch_ledger demo_claimed) (Pubkey 11) < balance (ch_ledger demo_created) (Pubkey 11)
   \<and> pays_out demo_env (demo_ctx (I64 150) (Pubkey 50)) demo_claim demo_created (Pubkey 10) (demo_distributor 0 0 0 False)"
proof -
  have drop: "balance (ch_ledger demo_claimed) (md_token_vault (demo_distributor 0 0 0 False))
      < balance (ch_ledger demo_created) (md_token_vault (demo_distributor 0 0 0 False))"
    and d: "ch_distributors demo_created (Pubkey 10) = Some (demo_distributor 0 0 0 False)"
    by (simp_all add: demo_defs balance_def)
  from only_these_pay_out [OF demo_env_ok(1) demo_initial demo_runs(1) demo_claims d drop] drop show ?thesis
    by (simp add: demo_distributor_def)
qed

end
