(* ===== verification/Distributor_Live.thy ===== *)
theory Distributor_Live
  imports Distributor_Props
begin

text \<open>
  When the instructions succeed: the exact conditions of the validations, and that a claim and a
  withdrawal go through when what they need is there. The token program and the address derivation
  are relied on to do what they document (\<open>transfer_available\<close>, \<open>pda_law\<close>).
\<close>

section \<open>Transfers out of a vault\<close>

lemma distributor_signs:
  assumes "pda_law env" "md_ok env l d md"
  shows "create_program_address env (signer_seeds md) (program_id env) = Some d"
  using assms unfolding pda_law_def md_ok_def signer_seeds_def by blast

lemma vault_transfer_ok:
  assumes "pda_law env" "transfer_available env" "good env c" "ch_distributors c d = Some md"
    and "lg_accounts (ch_ledger c) (md_token_vault md) = Some v" "lg_accounts (ch_ledger c) to = Some t"
    and "ta_mint v = ta_mint t" "amount \<le> ta_amount v" "unat (ta_amount t) + unat amount < 2 ^ 64"
  shows "vault_transfer env md d (md_token_vault md) to amount (ch_ledger c)
    = Inr (moved (md_token_vault md) to amount (ch_ledger c))" and "ta_owner v = d"
proof -
  have ok: "md_ok env (ch_ledger c) d md" using assms(3,4) by (rule goodD)
  show owner: "ta_owner v = d" using md_ok_vault [OF ok] assms(5) by (simp add: owned_vault_def)
  have "token_transfer env (md_token_vault md) to d amount (ch_ledger c)
      = Inr (moved (md_token_vault md) to amount (ch_ledger c))"
    using assms(2,5-9) owner unfolding transfer_available_def by blast
  then show "vault_transfer env md d (md_token_vault md) to amount (ch_ledger c)
    = Inr (moved (md_token_vault md) to amount (ch_ledger c))"
    using distributor_signs [OF assms(1) ok] by (simp add: vault_transfer_def)
qed

section \<open>A withdrawal goes through\<close>

lemma linear_started: "0 < linear_vested n t s e \<Longrightarrow> s \<le> t"
  by (simp add: linear_vested_def split: if_splits)

lemma log_does_not_panic:
  assumes "window_fits start_ts end_ts" "ival start_ts \<le> ival curr_ts" "curr_ts < end_ts"
  shows "checked_sub_i64 end_ts curr_ts \<noteq> None"
  using assms ival_range [of curr_ts] ival_range [of end_ts]
  by (auto simp: checked_sub_i64_def window_fits_def less_i64_def)

lemma claim_locked_ok:
  assumes "pda_law env" "transfer_available env" "good env c"
    and md: "ch_distributors c (cl_distributor a) = Some md"
    and cs: "ch_claim_statuses c (cl_claim_status a) = Some cs"
    and accs: "cl_claim_status a = claim_status_key env (cl_claimant a) (cl_distributor a)"
      "cl_from a = md_token_vault md" "cl_token_program a = token_program_id env"
      "cl_claimant a \<in> set (cx_signers cx)"
    and toks: "lg_accounts (ch_ledger c) (md_token_vault md) = Some v" "lg_accounts (ch_ledger c) (cl_to a) = Some t"
      "ta_mint v = ta_mint t" "ta_owner t = cl_claimant a"
    and live: "\<not> md_clawed_back md" "md_enable_slot md \<le> cx_slot cx" "window_fits (md_start_ts md) (md_end_ts md)"
    and due: "unat amount = linear_vested (unat (cs_locked_amount cs))
        (ival (cx_unix_timestamp cx)) (ival (md_start_ts md)) (ival (md_end_ts md))
        - unat (cs_locked_amount_withdrawn cs)" "0 < unat amount"
    and covered: "unat amount \<le> unat (ta_amount v)"
      "unat (md_total_amount_claimed md) + unat amount \<le> unat (md_max_total_claim md)"
      "unat (ta_amount t) + unat amount < 2 ^ 64"
  shows "\<exists>c' cs' md'. claim_locked env cx a c = Inr c'
    \<and> ch_claim_statuses c' (cl_claim_status a) = Some cs'
    \<and> unat (cs_locked_amount_withdrawn cs') = unat (cs_locked_amount_withdrawn cs) + unat amount
    \<and> ch_distributors c' (cl_distributor a) = Some md'
    \<and> unat (md_total_amount_claimed md') = unat (md_total_amount_claimed md) + unat amount
    \<and> ch_ledger c' = moved (md_token_vault md) (cl_to a) amount (ch_ledger c)"
proof -
  let ?v = "linear_vested (unat (cs_locked_amount cs)) (ival (cx_unix_timestamp cx)) (ival (md_start_ts md))
    (ival (md_end_ts md))"
  have le: "unat (cs_locked_amount_withdrawn cs) \<le> ?v" using due by simp
  obtain r where r: "amount_withdrawable cs (cx_unix_timestamp cx) (md_start_ts md) (md_end_ts md) = Inr r"
    using amount_withdrawable_ok [OF live(3) le] by blast
  have "unat r = unat amount" using amount_withdrawable_Inr [OF r] due(1) le by simp
  then have r: "amount_withdrawable cs (cx_unix_timestamp cx) (md_start_ts md) (md_end_ts md) = Inr amount"
    using r by (simp add: word_unat_eq_iff)
  have "?v \<le> unat (cs_locked_amount cs)" by (rule linear.at_most_all)
  then have "unat (cs_locked_amount_withdrawn cs) + unat amount \<le> unat (cs_locked_amount cs)"
    using due(1) le by simp
  then obtain w where w: "checked_add (cs_locked_amount_withdrawn cs) amount = Some w" "w \<le> cs_locked_amount cs"
    by (rule checked_add_within)
  obtain cl where cl: "checked_add (md_total_amount_claimed md) amount = Some cl" "cl \<le> md_max_total_claim md"
    using covered(2) by (rule checked_add_within)
  have tr: "vault_transfer env md (cl_distributor a) (md_token_vault md) (cl_to a) amount (ch_ledger c)
      = Inr (moved (md_token_vault md) (cl_to a) amount (ch_ledger c))" and own: "ta_owner v = cl_distributor a"
    using vault_transfer_ok [OF assms(1-3) md toks(1-3) _ covered(3)] covered(1) by (simp_all add: word_le_nat_alt)
  have ata: "md_token_vault md = associated_token_address env (cl_distributor a) (md_mint md)"
    using goodD [OF assms(3) md] by (simp add: md_ok_def)
  have chk: "check_claim_locked env cx a c = Inr (md, cs)"
    using md cs accs toks own ata by (simp add: check_claim_locked_Inr)
  have "0 < ?v" using due by simp
  then have "ival (md_start_ts md) \<le> ival (cx_unix_timestamp cx)" by (rule linear_started)
  then have "checked_sub_i64 (md_end_ts md) (cx_unix_timestamp cx) \<noteq> None" if "cx_unix_timestamp cx < md_end_ts md"
    using log_does_not_panic [OF live(3)] that by simp
  moreover have "0 < amount" using due(2) by (simp add: word_less_nat_alt)
  ultimately have "handle_claim_locked env cx a md cs c = Inr (c\<lparr>
      ch_distributors := (ch_distributors c)(cl_distributor a \<mapsto> md\<lparr>md_total_amount_claimed := cl\<rparr>),
      ch_claim_statuses := (ch_claim_statuses c)(cl_claim_status a \<mapsto> cs\<lparr>cs_locked_amount_withdrawn := w\<rparr>),
      ch_ledger := moved (md_token_vault md) (cl_to a) amount (ch_ledger c),
      ch_events := ch_events c @ [ClaimedEvent (cl_claimant a) amount]\<rparr>)"
    unfolding handle_claim_locked_Inr using r tr w cl live(1,2) accs(2) by auto
  with chk w(1) cl(1) show ?thesis
    unfolding claim_locked_def checked_add_Some by (intro exI conjI) simp+
qed

section \<open>A claim goes through\<close>

lemma fresh_claim_pays:
  assumes "window_fits (md_start_ts md) (md_end_ts md)" "md_start_ts md \<le> curr_ts"
  obtains paid f where
    "update_unlocked_amount_claimed (fresh_claim md a u l 0) curr_ts (md_start_ts md) (md_end_ts md)
       = Inr (fresh_claim md a u l paid)"
    "unat paid = bonus_vested (unat u) (ival curr_ts) (ival (md_start_ts md)) (ival (md_end_ts md))"
    "get_unlocked_amount_forgone (fresh_claim md a u l paid) = Inr f" "unat paid + unat f = unat u"
proof -
  from update_unlocked_refines [OF assms, of "fresh_claim md a u l 0"] obtain cs where
    upd: "update_unlocked_amount_claimed (fresh_claim md a u l 0) curr_ts (md_start_ts md) (md_end_ts md) = Inr cs"
    by blast
  note paid = fresh_claim_paid [OF upd]
  let ?paid = "cs_unlocked_amount_claimed cs"
  have "checked_sub u ?paid \<noteq> None" using paid(3) by (simp add: checked_sub_None)
  then obtain f where "checked_sub u ?paid = Some f" by blast
  then have f: "unat u = unat ?paid + unat f" by (simp add: checked_sub_Some)
  have "get_unlocked_amount_forgone (fresh_claim md a u l ?paid) = Inr f"
    unfolding get_unlocked_amount_forgone_Inr using f by (simp add: fresh_claim_def)
  with upd paid f show thesis by (intro that [of ?paid f]) auto
qed

lemma new_claim_ok:
  assumes "pda_law env" "transfer_available env" "good env c"
    and md: "ch_distributors c (nc_distributor a) = Some md"
    and accs: "nc_claim_status a = claim_status_key env (nc_claimant a) (nc_distributor a)"
      "ch_distributors c (nc_claim_status a) = None" "ch_claim_statuses c (nc_claim_status a) = None"
      "lg_accounts (ch_ledger c) (nc_claim_status a) = None" "lg_supply (ch_ledger c) (nc_claim_status a) = None"
      "nc_from a = md_token_vault md" "nc_token_program a = token_program_id env"
      "nc_system_program a = system_program_id env" "nc_claimant a \<in> set (cx_signers cx)"
    and toks: "lg_accounts (ch_ledger c) (md_token_vault md) = Some v" "lg_accounts (ch_ledger c) (nc_to a) = Some t"
      "ta_mint v = md_mint md" "ta_mint t = md_mint md" "ta_owner t = nc_claimant a"
    and live: "\<not> md_clawed_back md" "md_enable_slot md \<le> cx_slot cx" "md_start_ts md \<le> cx_unix_timestamp cx"
      "window_fits (md_start_ts md) (md_end_ts md)"
    and ver: "verify (hashv env) proof (md_root md) (claim_leaf env (nc_claimant a) u l)"
    and room: "unat (md_num_nodes_claimed md) + 1 \<le> unat (md_max_num_nodes md)"
      "unat (md_total_amount_claimed md) + unat (md_total_amount_forgone md) + unat u \<le> unat (md_max_total_claim md)"
      "unat u \<le> unat (ta_amount v)" "unat (ta_amount t) + unat u < 2 ^ 64"
  shows "\<exists>c' paid. new_claim env cx a u l proof c = Inr c'
    \<and> unat paid = bonus_vested (unat u) (ival (cx_unix_timestamp cx)) (ival (md_start_ts md)) (ival (md_end_ts md))
    \<and> ch_claim_statuses c' (nc_claim_status a) = Some (fresh_claim md a u l paid)
    \<and> ch_ledger c' = moved (md_token_vault md) (nc_to a) paid (ch_ledger c)"
proof -
  obtain paid f where upd: "update_unlocked_amount_claimed (fresh_claim md a u l 0) (cx_unix_timestamp cx)
        (md_start_ts md) (md_end_ts md) = Inr (fresh_claim md a u l paid)"
      "unat paid = bonus_vested (unat u) (ival (cx_unix_timestamp cx)) (ival (md_start_ts md)) (ival (md_end_ts md))"
      "get_unlocked_amount_forgone (fresh_claim md a u l paid) = Inr f" "unat paid + unat f = unat u"
    using live(4,3) by (rule fresh_claim_pays)
  have one: "unat (md_num_nodes_claimed md) + unat (1 :: u64) \<le> unat (md_max_num_nodes md)" using room(1) by simp
  obtain num where num: "checked_add (md_num_nodes_claimed md) 1 = Some num" "num \<le> md_max_num_nodes md"
    using one by (rule checked_add_within)
  have "unat (md_total_amount_claimed md) + unat paid \<le> unat (md_max_total_claim md)" using room(2) upd(4) by simp
  then obtain cl where cl: "checked_add (md_total_amount_claimed md) paid = Some cl"
      "unat cl = unat (md_total_amount_claimed md) + unat paid"
    by (rule checked_add_within)
  have "unat (md_total_amount_forgone md) + unat f \<le> unat (md_max_total_claim md)" using room(2) upd(4) by simp
  then obtain fg where fg: "checked_add (md_total_amount_forgone md) f = Some fg"
      "unat fg = unat (md_total_amount_forgone md) + unat f"
    by (rule checked_add_within)
  have "unat cl + unat fg \<le> unat (md_max_total_claim md)" using room(2) upd(4) cl(2) fg(2) by simp
  then obtain st where st: "checked_add cl fg = Some st" "st \<le> md_max_total_claim md" by (rule checked_add_within)
  have pay: "paid \<le> ta_amount v" "unat (ta_amount t) + unat paid < 2 ^ 64"
    using room(3,4) upd(4) by (simp_all add: word_le_nat_alt)
  have tr: "vault_transfer env md (nc_distributor a) (md_token_vault md) (nc_to a) paid (ch_ledger c)
      = Inr (moved (md_token_vault md) (nc_to a) paid (ch_ledger c))" and own: "ta_owner v = nc_distributor a"
    using vault_transfer_ok [OF assms(1-3) md toks(1,2) _ pay] toks(3,4) by simp_all
  have ata: "md_token_vault md = associated_token_address env (nc_distributor a) (md_mint md)"
    using goodD [OF assms(3) md] by (simp add: md_ok_def)
  have chk: "check_new_claim env cx a c = Inr md"
    using md accs toks own ata by (simp add: check_new_claim_Inr)
  have paid: "cs_unlocked_amount_claimed (fresh_claim md a u l paid) = paid" by (simp add: fresh_claim_def)
  have "handle_new_claim env cx a u l proof md claim_status_default c = Inr (c\<lparr>
      ch_distributors := (ch_distributors c)(nc_distributor a \<mapsto> md\<lparr>md_num_nodes_claimed := num,
        md_total_amount_claimed := cl, md_total_amount_forgone := fg\<rparr>),
      ch_claim_statuses := (ch_claim_statuses c)(nc_claim_status a \<mapsto> fresh_claim md a u l paid),
      ch_ledger := moved (md_token_vault md) (nc_to a) paid (ch_ledger c),
      ch_events := ch_events c @ [NewClaimEvent (nc_claimant a) (cx_unix_timestamp cx) paid f]\<rparr>)"
    unfolding handle_new_claim_Inr using live ver num upd(1,3) tr cl(1) fg(1) st accs(6)
    by (intro conjI) (assumption+, intro exI conjI, auto simp: paid)
  with chk upd(2) show ?thesis unfolding new_claim_def by (intro exI conjI) simp+
qed

section \<open>Properties\<close>

text \<open>C21: A withdrawal goes through. In every reachable state, a claimant with a claim record who signs and
  names an own account of the mint draws exactly what has vested of the locked part and was not drawn
  before, provided the distributor is live, something is due and the vault and the cap cover it: the
  tokens move from the vault to the account and record and counter grow by them.\<close>

theorem withdrawal_goes_through:
  assumes "env_ok env" "pda_law env" "transfer_available env" "initial c0" "run env c0 tr c"
    and "ch_distributors c (cl_distributor a) = Some md"
    and "ch_claim_statuses c (cl_claim_status a) = Some cs"
    and "cl_claim_status a = claim_status_key env (cl_claimant a) (cl_distributor a)"
      "cl_from a = md_token_vault md" "cl_token_program a = token_program_id env"
      "cl_claimant a \<in> set (cx_signers cx)"
    and "lg_accounts (ch_ledger c) (md_token_vault md) = Some v" "lg_accounts (ch_ledger c) (cl_to a) = Some t"
      "ta_mint v = ta_mint t" "ta_owner t = cl_claimant a"
    and "\<not> md_clawed_back md" "md_enable_slot md \<le> cx_slot cx" "window_fits (md_start_ts md) (md_end_ts md)"
    and "unat amount = linear_vested (unat (cs_locked_amount cs))
        (ival (cx_unix_timestamp cx)) (ival (md_start_ts md)) (ival (md_end_ts md))
        - unat (cs_locked_amount_withdrawn cs)" "0 < unat amount"
    and "unat amount \<le> unat (ta_amount v)"
      "unat (md_total_amount_claimed md) + unat amount \<le> unat (md_max_total_claim md)"
      "unat (ta_amount t) + unat amount < 2 ^ 64"
  shows "\<exists>c' cs' md'. exec env cx (ClaimLocked a) c = Inr c'
    \<and> ch_claim_statuses c' (cl_claim_status a) = Some cs'
    \<and> unat (cs_locked_amount_withdrawn cs') = unat (cs_locked_amount_withdrawn cs) + unat amount
    \<and> ch_distributors c' (cl_distributor a) = Some md'
    \<and> unat (md_total_amount_claimed md') = unat (md_total_amount_claimed md) + unat amount
    \<and> ch_ledger c' = moved (md_token_vault md) (cl_to a) amount (ch_ledger c)"
  using claim_locked_ok [OF assms(2,3) run_good [OF assms(1,4,5)] assms(6-)] by simp

theorem withdrawal_goes_through_witness:
  "\<exists>c'. exec demo_env (demo_ctx (I64 175) (Pubkey 50)) (ClaimLocked demo_locked_accounts) demo_claimed = Inr c'
     \<and> ch_ledger c' = moved (Pubkey 11) (Pubkey 51) 450 (ch_ledger demo_claimed)"
proof -
  have accs: "lg_accounts (ch_ledger demo_claimed) (md_token_vault (demo_distributor 300 100 1 False))
      = Some (demo_account (Pubkey 10) 700)"
    "lg_accounts (ch_ledger demo_claimed) (cl_to demo_locked_accounts) = Some (demo_account (Pubkey 50) 300)"
    by (simp_all add: demo_defs)
  have "\<exists>c' cs' md'. exec demo_env (demo_ctx (I64 175) (Pubkey 50)) (ClaimLocked demo_locked_accounts) demo_claimed = Inr c'
    \<and> ch_claim_statuses c' (cl_claim_status demo_locked_accounts) = Some cs'
    \<and> unat (cs_locked_amount_withdrawn cs') = unat (cs_locked_amount_withdrawn (demo_status 0)) + unat (450 :: u64)
    \<and> ch_distributors c' (cl_distributor demo_locked_accounts) = Some md'
    \<and> unat (md_total_amount_claimed md')
        = unat (md_total_amount_claimed (demo_distributor 300 100 1 False)) + unat (450 :: u64)
    \<and> ch_ledger c' = moved (md_token_vault (demo_distributor 300 100 1 False)) (cl_to demo_locked_accounts) 450
        (ch_ledger demo_claimed)"
    by (rule withdrawal_goes_through [OF demo_env_ok(1,3,2) demo_initial demo_runs(6) _ _ _ _ _ _ accs])
      (simp_all add: demo_defs claim_status_key_def claim_status_seeds_def window_fits_def linear_vested_def ival_def)
  then show ?thesis by (auto simp: demo_distributor_def demo_locked_accounts_def)
qed

text \<open>C20: A first claim goes through. In every reachable state, a signing claimant without a claim record who
  shows a proof for its amounts is paid exactly the vested share of the unlocked part and gets a claim
  record with both amounts, provided the distributor is live and started, and nodes, cap and vault have
  room for the claim.\<close>

theorem claim_goes_through:
  assumes "env_ok env" "pda_law env" "transfer_available env" "initial c0" "run env c0 tr c"
    and "ch_distributors c (nc_distributor a) = Some md"
    and "nc_claim_status a = claim_status_key env (nc_claimant a) (nc_distributor a)"
      "ch_distributors c (nc_claim_status a) = None" "ch_claim_statuses c (nc_claim_status a) = None"
      "lg_accounts (ch_ledger c) (nc_claim_status a) = None" "lg_supply (ch_ledger c) (nc_claim_status a) = None"
      "nc_from a = md_token_vault md" "nc_token_program a = token_program_id env"
      "nc_system_program a = system_program_id env" "nc_claimant a \<in> set (cx_signers cx)"
    and "lg_accounts (ch_ledger c) (md_token_vault md) = Some v" "lg_accounts (ch_ledger c) (nc_to a) = Some t"
      "ta_mint v = md_mint md" "ta_mint t = md_mint md" "ta_owner t = nc_claimant a"
    and "\<not> md_clawed_back md" "md_enable_slot md \<le> cx_slot cx" "md_start_ts md \<le> cx_unix_timestamp cx"
      "window_fits (md_start_ts md) (md_end_ts md)"
    and "verify (hashv env) proof (md_root md) (claim_leaf env (nc_claimant a) u l)"
    and "unat (md_num_nodes_claimed md) + 1 \<le> unat (md_max_num_nodes md)"
      "unat (md_total_amount_claimed md) + unat (md_total_amount_forgone md) + unat u \<le> unat (md_max_total_claim md)"
      "unat u \<le> unat (ta_amount v)" "unat (ta_amount t) + unat u < 2 ^ 64"
  shows "\<exists>c' paid. exec env cx (NewClaim a u l proof) c = Inr c'
    \<and> unat paid = bonus_vested (unat u) (ival (cx_unix_timestamp cx)) (ival (md_start_ts md)) (ival (md_end_ts md))
    \<and> ch_claim_statuses c' (nc_claim_status a) = Some (fresh_claim md a u l paid)
    \<and> ch_ledger c' = moved (md_token_vault md) (nc_to a) paid (ch_ledger c)"
  using new_claim_ok [OF assms(2,3) run_good [OF assms(1,4,5)] assms(6-)] by simp

theorem claim_goes_through_witness:
  "\<exists>c' paid. exec demo_env (demo_ctx (I64 150) (Pubkey 50)) demo_claim demo_created = Inr c'
     \<and> unat paid = bonus_vested 400 150 100 200
     \<and> ch_ledger c' = moved (Pubkey 11) (Pubkey 51) paid (ch_ledger demo_created)"
proof -
  have accs: "lg_accounts (ch_ledger demo_created) (md_token_vault (demo_distributor 0 0 0 False))
      = Some (demo_account (Pubkey 10) 1000)"
    "lg_accounts (ch_ledger demo_created) (nc_to demo_claim_accounts) = Some (demo_account (Pubkey 50) 0)"
    by (simp_all add: demo_defs)
  have "\<exists>c' paid. exec demo_env (demo_ctx (I64 150) (Pubkey 50)) (NewClaim demo_claim_accounts 400 600 []) demo_created = Inr c'
    \<and> unat paid = bonus_vested (unat (400 :: u64)) (ival (cx_unix_timestamp (demo_ctx (I64 150) (Pubkey 50))))
        (ival (md_start_ts (demo_distributor 0 0 0 False))) (ival (md_end_ts (demo_distributor 0 0 0 False)))
    \<and> ch_claim_statuses c' (nc_claim_status demo_claim_accounts)
        = Some (fresh_claim (demo_distributor 0 0 0 False) demo_claim_accounts 400 600 paid)
    \<and> ch_ledger c' = moved (md_token_vault (demo_distributor 0 0 0 False)) (nc_to demo_claim_accounts) paid
        (ch_ledger demo_created)"
    by (rule claim_goes_through [OF demo_env_ok(1,3,2) demo_initial demo_runs(1) _ _ _ _ _ _ _ _ _ _ accs])
      (simp_all add: demo_defs claim_status_key_def claim_status_seeds_def window_fits_def ival_def less_eq_i64_def
        claim_leaf_def verify_def LEAF_PREFIX_def)
  then show ?thesis by (auto simp: demo_distributor_def demo_claim_accounts_def demo_claim_def demo_ctx_def ival_def)
qed


text \<open>The admin pauses the distributor of \<open>Demo\<close> and cuts its cap from 1000 to 900.\<close>

definition demo_paused :: chain where
  "demo_paused = demo_drawn\<lparr>ch_distributors := (\<lambda>_. None)(Pubkey 10 \<mapsto>
     (demo_distributor 750 100 1 False)\<lparr>md_enable_slot := - 1\<rparr>)\<rparr>"

definition demo_root_accounts :: set_root_accounts where
  "demo_root_accounts = \<lparr>sr_distributor = Pubkey 10, sr_token_vault = Pubkey 11, sr_mint = Pubkey 5,
     sr_admin = Pubkey 2, sr_token_program = Pubkey 3\<rparr>"


text \<open>C23: The three conditions on the times of a distributor. Of the five checks of creation, these decide:
  the window is not empty, it ends in the future, and clawback starts a day or more after its end. The
  additions never wrap, and the same condition guards every later change of the clawback time.\<close>

theorem times_accepted:
  "((\<exists>md. handle_new_distributor cx a args bump merkle_distributor_default = Inr md) \<longleftrightarrow>
      ival (na_start_vesting_ts args) < ival (na_end_vesting_ts args)
      \<and> ival (cx_unix_timestamp cx) < ival (na_end_vesting_ts args)
      \<and> ival (na_end_vesting_ts args) + 86400 \<le> ival (na_clawback_start_ts args))
   \<and> (validate_clawback_start_ts md0 ts now = Inr () \<longleftrightarrow>
      \<not> md_clawed_back md0 \<and> ival now < ival ts \<and> ival (md_end_ts md0) + 86400 \<le> ival ts)"
proof -
  have day: "(\<exists>e. ival e = ival x + 86400 \<and> ival e \<le> ival y) \<longleftrightarrow> ival x + 86400 \<le> ival y" for x y
    using ival_range [of x] ival_range [of y] by (auto intro!: exI [of _ "i64_of (ival x + 86400)"])
  show ?thesis
    by (simp add: handle_new_distributor_def validate_clawback_start_ts_def ok_iff i64_order checked_add_i64_Some day Let_def)
      auto
qed

end
