(* ===== verification/Token_Burner.thy ===== *)
theory Token_Burner
  imports Distributor_Live
begin

text \<open>
  The program \<^verbatim>\<open>programs/token-burner\<close>: one instruction without admin or state that burns the whole
  balance of a token account owned by the program's burner address. It works with either token
  program (\<^verbatim>\<open>token_interface\<close>): the called program's burn, the program each token account belongs to
  and the ids of the token programs are parameters.
\<close>

section \<open>The program\<close>

definition BURNER_SEED :: "u8 list" where
  "BURNER_SEED = ascii ''burner''"

record burner_env =
  bn_env :: env
  bn_token_programs :: "pubkey list"
  bn_account_program :: "pubkey \<Rightarrow> pubkey"
  bn_burn :: "pubkey \<Rightarrow> pubkey \<Rightarrow> pubkey \<Rightarrow> pubkey \<Rightarrow> u64 \<Rightarrow> ledger \<Rightarrow> string + ledger"

record burn_all_accounts =
  ba_burner :: pubkey
  ba_mint :: pubkey
  ba_token_account :: pubkey
  ba_token_program :: pubkey

datatype burn_event = BurnEvent (be_mint: pubkey) (be_token_account: pubkey) (be_amount: u64)

definition burner_address :: "burner_env \<Rightarrow> pubkey \<times> u8" where
  "burner_address b = find_program_address (bn_env b) [BURNER_SEED] (program_id (bn_env b))"

definition check_burn_all :: "burner_env \<Rightarrow> burn_all_accounts \<Rightarrow> ledger \<Rightarrow> program_error + (token_account \<times> u8)" where
  "check_burn_all b a l =
     (let (address, bump) = burner_address b in
     and_then (load_mint l (ba_mint a)) (\<lambda>_.
     and_then (load_token l (ba_token_account a)) (\<lambda>account.
     require (ba_token_program a \<in> set (bn_token_programs b)) (AnchorError InvalidProgramId) (
     require (ba_burner a = address) (AnchorError ConstraintSeeds) (
     require (ta_owner account = ba_burner a) (AnchorError ConstraintTokenOwner) (
     require (ta_mint account = ba_mint a) (AnchorError ConstraintTokenMint) (
     require (bn_account_program b (ba_token_account a) = ba_token_program a)
       (AnchorError ConstraintTokenTokenProgram) (
     Inr (account, bump)))))))))"

definition burn :: "burner_env \<Rightarrow> burn_all_accounts \<Rightarrow> ledger \<times> burn_event list \<Rightarrow> program_error + (ledger \<times> burn_event list)" where
  "burn b a s =
     (let (l, events) = s in
     and_then (check_burn_all b a l) (\<lambda>(account, bump).
     let amount = ta_amount account in
     if amount = 0 then Inr (l, events)
     else
       require (create_program_address (bn_env b) [BURNER_SEED, [bump]] (program_id (bn_env b)) = Some (ba_burner a))
         (AnchorError PrivilegeEscalation) (
       and_then (map_err CpiError
         (bn_burn b (ba_token_program a) (ba_token_account a) (ba_mint a) (ba_burner a) amount l)) (\<lambda>l'.
       Inr (l', events @ [BurnEvent (ba_mint a) (ba_token_account a) amount])))))"

text \<open>What is relied on: both token programs burn as documented.\<close>

definition burner_ok :: "burner_env \<Rightarrow> bool" where
  "burner_ok b \<longleftrightarrow>
     pda_law (bn_env b)
     \<and> (\<forall>p \<in> set (bn_token_programs b). burn_available ((bn_env b)\<lparr>token_burn := bn_burn b p\<rparr>))"

text \<open>An account the burner can empty.\<close>

definition burnable :: "burner_env \<Rightarrow> burn_all_accounts \<Rightarrow> ledger \<Rightarrow> bool" where
  "burnable b a l \<longleftrightarrow>
     ba_burner a = fst (burner_address b) \<and> ba_token_program a \<in> set (bn_token_programs b)
     \<and> bn_account_program b (ba_token_account a) = ba_token_program a
     \<and> (\<exists>account supply. lg_accounts l (ba_token_account a) = Some account \<and> ta_owner account = ba_burner a
          \<and> ta_mint account = ba_mint a \<and> lg_supply l (ba_mint a) = Some supply \<and> ta_amount account \<le> supply)"

section \<open>Burning\<close>

lemma burned_facts:
  assumes "lg_accounts l k = Some account" "lg_supply l m = Some sp" "ta_amount account \<le> sp"
  shows "balance (burned k m (ta_amount account) l) j = (if j = k then 0 else balance l j)"
    and "lg_supply (burned k m (ta_amount account) l) = (lg_supply l)(m \<mapsto> sp - ta_amount account)"
    and "lg_accounts (burned k m (ta_amount account) l) k = Some (account\<lparr>ta_amount := 0\<rparr>)"
  using assms by (simp_all add: burned_def balance_def)

lemma burn_ok:
  assumes "burner_ok b" "lg_accounts l (ba_token_account a) = Some account" "lg_supply l (ba_mint a) = Some sp"
    and "ba_burner a = fst (burner_address b)" "ba_token_program a \<in> set (bn_token_programs b)"
      "bn_account_program b (ba_token_account a) = ba_token_program a"
      "ta_owner account = ba_burner a" "ta_mint account = ba_mint a" "ta_amount account \<le> sp"
  shows "burn b a (l, evs) =
    (if ta_amount account = 0 then Inr (l, evs)
     else Inr (burned (ba_token_account a) (ba_mint a) (ta_amount account) l,
               evs @ [BurnEvent (ba_mint a) (ba_token_account a) (ta_amount account)]))"
proof -
  obtain bump where bump: "burner_address b = (ba_burner a, bump)" using assms(4) by (metis prod.collapse)
  have chk: "check_burn_all b a l = Inr (account, bump)"
    using assms bump by (simp add: check_burn_all_def load_mint_def load_token_def)
  have "create_program_address (bn_env b) ([BURNER_SEED] @ [[bump]]) (program_id (bn_env b)) = Some (ba_burner a)"
    using assms(1) bump unfolding burner_ok_def pda_law_def burner_address_def by blast
  moreover have "burn_available ((bn_env b)\<lparr>token_burn := bn_burn b (ba_token_program a)\<rparr>)"
    using assms(1,5) by (simp add: burner_ok_def)
  then have "bn_burn b (ba_token_program a) (ba_token_account a) (ba_mint a) (ba_burner a) (ta_amount account) l
      = Inr (burned (ba_token_account a) (ba_mint a) (ta_amount account) l)"
    using assms(2,3,7-9) by (simp add: burn_available_def)
  ultimately show ?thesis using chk by (simp add: burn_def Let_def)
qed

lemma burn_effects:
  assumes "burner_ok b" "burnable b a l"
  shows "\<exists>l' evs' sp sp'. burn b a (l, evs) = Inr (l', evs') \<and> burnable b a l'
    \<and> (\<forall>k. balance l' k = (if k = ba_token_account a then 0 else balance l k))
    \<and> lg_supply l (ba_mint a) = Some sp \<and> lg_supply l' (ba_mint a) = Some sp'
    \<and> unat sp' + balance l (ba_token_account a) = unat sp"
proof -
  from assms(2) obtain account sp where h: "lg_accounts l (ba_token_account a) = Some account"
      "lg_supply l (ba_mint a) = Some sp" "ba_burner a = fst (burner_address b)"
      "ba_token_program a \<in> set (bn_token_programs b)" "bn_account_program b (ba_token_account a) = ba_token_program a"
      "ta_owner account = ba_burner a" "ta_mint account = ba_mint a" "ta_amount account \<le> sp"
    unfolding burnable_def by blast
  note first = burn_ok [OF assms(1) h, of evs]
  show ?thesis
  proof (cases "ta_amount account = 0")
    case True
    then show ?thesis using first h(1,2) assms(2)
      by (intro exI [of _ l] exI [of _ evs] exI [of _ sp]) (simp add: balance_def)
  next
    case False
    note f = burned_facts [OF h(1,2,8)]
    have "burnable b a (burned (ba_token_account a) (ba_mint a) (ta_amount account) l)"
      using f(2,3) h(3-7) by (simp add: burnable_def)
    moreover have "unat (sp - ta_amount account) + unat (ta_amount account) = unat sp"
      using h(8) by (simp add: unat_sub word_le_nat_alt)
    ultimately show ?thesis using first False f(1,2) h(1,2) by (simp add: balance_def)
  qed
qed

lemma burn_nothing:
  assumes "burner_ok b" "burnable b a l" "balance l (ba_token_account a) = 0"
  shows "burn b a (l, evs) = Inr (l, evs)"
proof -
  from assms(2) obtain account sp where h: "lg_accounts l (ba_token_account a) = Some account"
      "lg_supply l (ba_mint a) = Some sp" "ba_burner a = fst (burner_address b)"
      "ba_token_program a \<in> set (bn_token_programs b)" "bn_account_program b (ba_token_account a) = ba_token_program a"
      "ta_owner account = ba_burner a" "ta_mint account = ba_mint a" "ta_amount account \<le> sp"
    unfolding burnable_def by blast
  have "ta_amount account = 0" using assms(3) h(1) by (simp add: balance_def unat_eq_0)
  with burn_ok [OF assms(1) h, of evs] show ?thesis by simp
qed

section \<open>Properties\<close>

text \<open>Anybody can burn what the burner holds, all of it, any number of times: on every account of the
  burner the instruction succeeds, leaves it empty and all other balances alone, takes exactly its balance
  off the supply, and a second call succeeds and changes nothing, not even the events.\<close>

lemma burn_empties_and_repeats:
  assumes "burner_ok b" "burnable b a l"
  shows "\<exists>l' evs' sp sp'. burn b a (l, evs) = Inr (l', evs') \<and> burn b a (l', evs') = Inr (l', evs')
    \<and> (\<forall>k. balance l' k = (if k = ba_token_account a then 0 else balance l k))
    \<and> lg_supply l (ba_mint a) = Some sp \<and> lg_supply l' (ba_mint a) = Some sp'
    \<and> unat sp' + balance l (ba_token_account a) = unat sp"
proof -
  from burn_effects [OF assms, of evs] obtain l' evs' sp sp' where l': "burn b a (l, evs) = Inr (l', evs')"
    "burnable b a l'" "\<forall>k. balance l' k = (if k = ba_token_account a then 0 else balance l k)"
    "lg_supply l (ba_mint a) = Some sp" "lg_supply l' (ba_mint a) = Some sp'"
    "unat sp' + balance l (ba_token_account a) = unat sp"
    by blast
  then have "burn b a (l', evs') = Inr (l', evs')" using burn_nothing [OF assms(1) l'(2)] by simp
  with l' show ?thesis by blast
qed

text \<open>The burner of the witnesses owns the account 70 of \<open>Demo\<close>.\<close>

definition demo_burner :: burner_env where
  "demo_burner =
     \<lparr>bn_env = demo_env\<lparr>find_program_address := (\<lambda>_ _. (Pubkey 71, 254)), create_program_address := (\<lambda>_ _. Some (Pubkey 71))\<rparr>,
      bn_token_programs = [Pubkey 3, Pubkey 6], bn_account_program = (\<lambda>_. Pubkey 3), bn_burn = (\<lambda>_. ledger_burn)\<rparr>"

definition demo_burn_accounts :: burn_all_accounts where
  "demo_burn_accounts = \<lparr>ba_burner = Pubkey 71, ba_mint = Pubkey 5, ba_token_account = Pubkey 70, ba_token_program = Pubkey 3\<rparr>"

lemma demo_burner_ok: "burner_ok demo_burner"
proof -
  have "uses_ledger (demo_env\<lparr>token_burn := ledger_burn\<rparr>)" by (simp add: uses_ledger_def demo_env_def)
  from ledger_laws(4) [OF this] show ?thesis
    by (simp add: burner_ok_def pda_law_def demo_burner_def burn_available_def)
qed

text \<open>C33: Clawback to the burner destroys what was not claimed. When the clawback receiver of a distributor is
  an account of the burner, a clawback by anybody followed by a burn by anybody takes exactly what was in
  the vault and in the receiver off the supply of the mint, and leaves both empty.\<close>

theorem clawback_then_burn:
  assumes "env_ok env" "burner_ok b" "exec env cx (Clawback cb) c = Inr c'"
    and "ch_distributors c (cb_distributor cb) = Some md" "md_token_vault md \<noteq> md_clawback_receiver md"
    and "burnable b a (ch_ledger c)" "ba_token_account a = md_clawback_receiver md"
    and "lg_supply (ch_ledger c) (ba_mint a) = Some sp"
    and "balance (ch_ledger c) (md_token_vault md) + balance (ch_ledger c) (md_clawback_receiver md) \<le> unat sp"
  shows "\<exists>l' evs' sp'. burn b a (ch_ledger c', evs) = Inr (l', evs')
    \<and> balance l' (md_token_vault md) = 0 \<and> balance l' (md_clawback_receiver md) = 0
    \<and> lg_supply l' (ba_mint a) = Some sp'
    \<and> unat sp' + balance (ch_ledger c) (md_token_vault md) + balance (ch_ledger c) (md_clawback_receiver md)
        = unat sp"
proof -
  from assms(3) have "clawback env cx cb c = Inr c'" by simp
  then obtain vault led where h: "lg_accounts (ch_ledger c) (md_token_vault md) = Some vault"
    "token_transfer env (md_token_vault md) (md_clawback_receiver md) (cb_distributor cb) (ta_amount vault)
       (ch_ledger c) = Inr led" and c': "ch_ledger c' = led"
    using assms(4) by (elim clawbackE) simp
  have te: "transfer_effect env" using assms(1) by (simp add: env_ok_def)
  note bal = transfer_balance(1) [OF te h(2)] and keeps = transfer_keeps [OF te h(2)]
  have v: "balance (ch_ledger c) (md_token_vault md) = unat (ta_amount vault)" using h(1) by (simp add: balance_def)
  have vault0: "balance led (md_token_vault md) = 0"
    and rec: "balance led (md_clawback_receiver md)
      = balance (ch_ledger c) (md_clawback_receiver md) + balance (ch_ledger c) (md_token_vault md)"
    using bal [of "md_token_vault md"] bal [of "md_clawback_receiver md"] assms(5) v by simp_all
  from assms(6,7) obtain r where r: "lg_accounts (ch_ledger c) (md_clawback_receiver md) = Some r"
    "ta_owner r = ba_burner a" "ta_mint r = ba_mint a"
    unfolding burnable_def by auto
  from keeps(1) r(1) obtain r' where r': "lg_accounts led (md_clawback_receiver md) = Some r'"
    "ta_mint r' = ta_mint r" "ta_owner r' = ta_owner r"
    by (rule keeps_accountsD)
  have "ta_amount r' \<le> sp" using assms(9) rec r'(1) by (simp add: balance_def word_le_nat_alt)
  then have "burnable b a led"
    using assms(6-8) r r' keeps(2) unfolding burnable_def by auto
  from burn_effects [OF assms(2) this, of evs] obtain l' evs' s s' where l': "burn b a (led, evs) = Inr (l', evs')"
    "\<forall>k. balance l' k = (if k = ba_token_account a then 0 else balance led k)"
    "lg_supply led (ba_mint a) = Some s" "lg_supply l' (ba_mint a) = Some s'"
    "unat s' + balance led (ba_token_account a) = unat s"
    by blast
  then show ?thesis using c' assms(5,7,8) keeps(2) vault0 rec by (intro exI [of _ l'] exI [of _ evs'] exI [of _ s']) simp
qed

theorem clawback_then_burn_witness:
  "\<exists>c' l' evs'. exec demo_env (demo_ctx (I64 100000) (Pubkey 50)) (Clawback demo_clawback_accounts) demo_drawn = Inr c'
     \<and> burn demo_burner demo_burn_accounts (ch_ledger c', []) = Inr (l', evs')
     \<and> balance l' (Pubkey 11) = 0 \<and> balance l' (Pubkey 70) = 0"
proof -
  have d: "ch_distributors demo_drawn (cb_distributor demo_clawback_accounts) = Some (demo_distributor 750 100 1 False)"
    "md_token_vault (demo_distributor 750 100 1 False) \<noteq> md_clawback_receiver (demo_distributor 750 100 1 False)"
    and b: "burnable demo_burner demo_burn_accounts (ch_ledger demo_drawn)"
    "ba_token_account demo_burn_accounts = md_clawback_receiver (demo_distributor 750 100 1 False)"
    "lg_supply (ch_ledger demo_drawn) (ba_mint demo_burn_accounts) = Some 5000"
    by (simp_all add: burnable_def demo_burner_def demo_burn_accounts_def burner_address_def demo_defs)
  have "balance (ch_ledger demo_drawn) (md_token_vault (demo_distributor 750 100 1 False))
      + balance (ch_ledger demo_drawn) (md_clawback_receiver (demo_distributor 750 100 1 False)) \<le> unat (5000 :: u64)"
    by (simp add: demo_defs balance_def)
  from clawback_then_burn [OF demo_env_ok(1) demo_burner_ok demo_claws d b this, of "[]"] demo_claws show ?thesis
    by (auto simp: demo_distributor_def)
qed

end
