(* ===== verification/Ordered_Map.thy ===== *)
theory Ordered_Map
  imports Prelude "HOL-Library.List_Lexorder" "HOL-Library.Char_ord"
begin

text \<open>
  The standard library's \<^verbatim>\<open>BTreeMap\<close> as the tools use it: a list of pairs with strictly ascending
  keys, in the order iteration gives them. Strings are compared by their bytes, which is the order of
  \<open>List_Lexorder\<close>.

  The locale \<open>ordered_map\<close> is what the tools rely on; the list interprets it. Its client is the
  accumulation of values by key (\<open>upsert\<close>).

  Also the decimal notation of numbers and \<^verbatim>\<open>sort_unstable\<close> followed by \<^verbatim>\<open>dedup_by\<close>, which the list
  tools use.
\<close>

section \<open>The contract\<close>

locale ordered_map =
  fixes empty :: 'm
    and lookup :: "'m \<Rightarrow> 'k::linorder \<Rightarrow> 'v option"
    and insert :: "'k \<Rightarrow> 'v \<Rightarrow> 'm \<Rightarrow> 'm"
    and items :: "'m \<Rightarrow> ('k \<times> 'v) list"
    and inv :: "'m \<Rightarrow> bool"
  assumes empty_inv: "inv empty"
    and lookup_empty: "lookup empty k = None"
    and insert_inv: "inv m \<Longrightarrow> inv (insert k v m)"
    and lookup_insert: "inv m \<Longrightarrow> lookup (insert k v m) = (lookup m)(k \<mapsto> v)"
    and items_ascending: "inv m \<Longrightarrow> sorted_wrt (<) (map fst (items m))"
    and items_lookup: "inv m \<Longrightarrow> map_of (items m) = lookup m"
begin

definition upsert :: "('v option \<Rightarrow> 'v) \<Rightarrow> 'k \<Rightarrow> 'm \<Rightarrow> 'm" where
  "upsert f k m = insert k (f (lookup m k)) m"

lemma upsert_inv: "inv m \<Longrightarrow> inv (upsert f k m)"
  by (simp add: upsert_def insert_inv)

lemma lookup_upsert: "inv m \<Longrightarrow> lookup (upsert f k m) j = (if j = k then Some (f (lookup m k)) else lookup m j)"
  by (simp add: upsert_def lookup_insert)

lemma items_distinct: "inv m \<Longrightarrow> distinct (map fst (items m))"
  using items_ascending strict_sorted_iff by blast

lemma item_iff: "inv m \<Longrightarrow> (k, v) \<in> set (items m) \<longleftrightarrow> lookup m k = Some v"
  using items_distinct items_lookup by (metis map_of_eq_Some_iff)

end

section \<open>Ascending lists of pairs\<close>

fun bt_insert :: "'k::linorder \<Rightarrow> 'v \<Rightarrow> ('k \<times> 'v) list \<Rightarrow> ('k \<times> 'v) list" where
  "bt_insert k v [] = [(k, v)]"
| "bt_insert k v ((j, w) # m) =
     (if k < j then (k, v) # (j, w) # m else if k = j then (k, v) # m else (j, w) # bt_insert k v m)"

definition ascending :: "('k::linorder \<times> 'v) list \<Rightarrow> bool" where
  "ascending m \<longleftrightarrow> sorted_wrt (<) (map fst m)"

lemma bt_insert_keys: "set (map fst (bt_insert k v m)) = {k} \<union> set (map fst m)"
  by (induction k v m rule: bt_insert.induct) auto

lemma map_of_bt_insert: "ascending m \<Longrightarrow> map_of (bt_insert k v m) = (map_of m)(k \<mapsto> v)"
proof (induction k v m rule: bt_insert.induct)
  case (2 k v j w m)
  then show ?case by (auto simp: ascending_def fun_eq_iff)
qed (simp add: fun_eq_iff)

lemma bt_insert_ascending: "ascending m \<Longrightarrow> ascending (bt_insert k v m)"
proof (induction k v m rule: bt_insert.induct)
  case (2 k v j w m)
  have "set (map fst (bt_insert k v m)) = {k} \<union> set (map fst m)" by (rule bt_insert_keys)
  with 2 show ?case by (auto simp: ascending_def)
qed (simp add: ascending_def)

interpretation btree: ordered_map "[] :: ('k::linorder \<times> 'v) list" map_of bt_insert "\<lambda>m. m" ascending
  by unfold_locales (simp_all add: ascending_def [of "[]"] bt_insert_ascending map_of_bt_insert, simp add: ascending_def)

section \<open>Sorting and removing neighbours with the same key\<close>

text \<open>\<^verbatim>\<open>dedup_by(|a, b| a.0 == b.0)\<close> keeps the first of each run of equal keys.\<close>

fun dedup_by_key :: "('a \<times> 'b) list \<Rightarrow> ('a \<times> 'b) list" where
  "dedup_by_key (x # y # xs) = (if fst y = fst x then dedup_by_key (x # xs) else x # dedup_by_key (y # xs))"
| "dedup_by_key xs = xs"

lemma dedup_by_key_hd: "xs \<noteq> [] \<Longrightarrow> dedup_by_key xs \<noteq> [] \<and> hd (dedup_by_key xs) = hd xs"
  by (induction xs rule: dedup_by_key.induct) auto

lemma dedup_by_key_subset: "set (dedup_by_key xs) \<subseteq> set xs"
  by (induction xs rule: dedup_by_key.induct) auto

lemma dedup_by_key_keys: "fst ` set (dedup_by_key xs) = fst ` set xs"
  by (induction xs rule: dedup_by_key.induct) auto

section \<open>Decimal notation\<close>

fun show_nat :: "nat \<Rightarrow> string" where
  "show_nat n = (if n < 10 then [char_of (48 + n)] else show_nat (n div 10) @ [char_of (48 + n mod 10)])"

declare show_nat.simps [simp del]

definition show_u64 :: "u64 \<Rightarrow> string" where
  "show_u64 n = show_nat (unat n)"

definition show_u128 :: "u128 \<Rightarrow> string" where
  "show_u128 n = show_nat (unat n)"

text \<open>Rust's \<^verbatim>\<open>parse\<close> for unsigned integers: digits, with a plus sign allowed in front, that fit the type.\<close>

fun read_digits :: "nat \<Rightarrow> string \<Rightarrow> nat option" where
  "read_digits acc [] = Some acc"
| "read_digits acc (c # cs) =
     (let d = of_char c :: nat in if 48 \<le> d \<and> d \<le> 57 then read_digits (10 * acc + (d - 48)) cs else None)"

definition parse_u128 :: "string \<Rightarrow> u128 option" where
  "parse_u128 s =
     (let digits = (if s \<noteq> [] \<and> hd s = CHR ''+'' then tl s else s) in
      if digits = [] then None
      else case read_digits 0 digits of
        None \<Rightarrow> None
      | Some n \<Rightarrow> if n < 2 ^ 128 then Some (word_of_nat n) else None)"

lemma read_digits_append: "read_digits acc (s @ t) = Option.bind (read_digits acc s) (\<lambda>a. read_digits a t)"
  by (induction s arbitrary: acc) (simp_all add: Let_def)

lemma of_char_digit: "d < 10 \<Longrightarrow> (of_char (char_of (48 + d :: nat) :: char) :: nat) = 48 + d"
  by simp

lemma read_show_nat: "read_digits 0 (show_nat n) = Some n"
proof (induction n rule: show_nat.induct)
  case (1 n)
  have "n mod 10 \<le> 9" by presburger
  with 1 show ?case
    by (subst show_nat.simps) (simp add: read_digits_append of_char_digit Let_def)
qed

lemma show_nat_digits: "c \<in> set (show_nat n) \<Longrightarrow> 48 \<le> (of_char c :: nat)"
proof (induction n rule: show_nat.induct)
  case (1 n)
  then show ?case
    by (subst (asm) (2) show_nat.simps) (auto simp: of_char_digit split: if_splits)
qed

lemma show_nat_start: "show_nat n \<noteq> [] \<and> hd (show_nat n) \<noteq> CHR ''+''"
proof -
  have ne: "show_nat n \<noteq> []" by (subst show_nat.simps) simp
  then have "48 \<le> (of_char (hd (show_nat n)) :: nat)" by (intro show_nat_digits [of _ n]) simp
  then show ?thesis using ne by auto
qed

lemma parse_show_u128 [simp]: "parse_u128 (show_u128 n) = Some n"
  using show_nat_start [of "unat n"] read_show_nat [of "unat n"] unat_bound [of n]
  by (simp add: parse_u128_def show_u128_def Let_def)

lemma inj_show_nat: "inj show_nat"
  by (metis injI option.inject read_show_nat)

end
