(* ===== verification/Csv_Prep.thy ===== *)
theory Csv_Prep
  imports Ordered_Map "HOL-Library.AList"
begin

text \<open>
  The scripts that turn snapshots into the CSVs of the trees: \<^verbatim>\<open>csv-prep/prepare-if-csv.py\<close> and
  \<^verbatim>\<open>csv-prep/prepare-dfx-csv.py\<close> under \<^verbatim>\<open>scripts/deploy-merkle-trees\<close>.

  Python's integers are unbounded; its decimals are a coefficient and a power of ten, and a product is rounded half even
  to the 28 digits of the default context. A dictionary is a list of pairs in insertion order. A field that a row
  lacks is \<open>None\<close>. Texts are ASCII. An exception ends the file (\<open>None\<close>); reading and writing files is left out.
\<close>

section \<open>Reading numbers\<close>

definition is_digit :: "char \<Rightarrow> bool" where
  "is_digit c \<longleftrightarrow> 48 \<le> (of_char c :: nat) \<and> (of_char c :: nat) \<le> 57"

text \<open>Digits with single underscores between them, as \<^verbatim>\<open>int\<close> takes them.\<close>

fun digit_groups :: "string \<Rightarrow> bool" where
  "digit_groups [] = False"
| "digit_groups [c] = is_digit c"
| "digit_groups (c # d # s) =
     (is_digit c \<and> (if d = CHR ''_'' then digit_groups s else digit_groups (d # s)))"

definition split_sign :: "string \<Rightarrow> int \<times> string" where
  "split_sign s =
     (case s of
        [] \<Rightarrow> (1, [])
      | c # rest \<Rightarrow> if c = CHR ''-'' then (- 1, rest) else if c = CHR ''+'' then (1, rest) else (1, s))"

definition digits_of :: "string \<Rightarrow> nat" where
  "digits_of s = the (read_digits 0 (filter is_digit s))"

definition py_int :: "string \<Rightarrow> int option" where
  "py_int s = (let (sign, body) = split_sign s in if digit_groups body then Some (sign * int (digits_of body)) else None)"

definition is_space :: "char \<Rightarrow> bool" where
  "is_space c \<longleftrightarrow> (of_char c :: nat) \<in> {9, 10, 11, 12, 13, 28, 29, 30, 31, 32}"

definition strip :: "string \<Rightarrow> string" where
  "strip s = rev (dropWhile is_space (rev (dropWhile is_space s)))"

section \<open>Insurance fund snapshots\<close>

definition MIN_AMOUNT_BY_DECIMALS :: "(int \<times> int) list" where
  "MIN_AMOUNT_BY_DECIMALS = [(9, 1000), (8, 10), (6, 100)]"

definition MIN_AMOUNT_FALLBACK :: int where
  "MIN_AMOUNT_FALLBACK = 10"

text \<open>The markets of the configuration, of which an index or the decimals may be missing.\<close>

definition load_decimals_map :: "(int option \<times> int option) list \<Rightarrow> (int \<times> int) list" where
  "load_decimals_map markets =
     fold (\<lambda>(idx, dec) result. case (idx, dec) of (Some i, Some d) \<Rightarrow> AList.update i d result | _ \<Rightarrow> result) markets []"

text \<open>The name \<open><index>_<symbol>.csv\<close>.\<close>

definition name_match :: "string \<Rightarrow> (string \<times> string) option" where
  "name_match name =
     (let index = takeWhile is_digit name; rest = dropWhile is_digit name; symbol = take (length rest - 5) (tl rest) in
      if index \<noteq> [] \<and> rest \<noteq> [] \<and> hd rest = CHR ''_'' \<and> 5 < length rest \<and> drop (length rest - 4) rest = ''.csv''
         \<and> CHR 0x0A \<notin> set symbol
      then Some (index, symbol) else None)"

definition min_amount :: "(int \<times> int) list \<Rightarrow> string \<Rightarrow> int" where
  "min_amount decimals_map index =
     (case map_of decimals_map (int (digits_of index)) of
        None \<Rightarrow> MIN_AMOUNT_FALLBACK
      | Some decimals \<Rightarrow> (case map_of MIN_AMOUNT_BY_DECIMALS decimals of None \<Rightarrow> MIN_AMOUNT_FALLBACK | Some m \<Rightarrow> m))"

definition add_total :: "string \<Rightarrow> int \<Rightarrow> (string \<times> int) list \<Rightarrow> (string \<times> int) list" where
  "add_total authority amount totals =
     AList.update authority ((case map_of totals authority of Some t \<Rightarrow> t | None \<Rightarrow> 0) + amount) totals"

fun sum_rows :: "(string option \<times> string option) list \<Rightarrow> (string \<times> int) list \<Rightarrow> (string \<times> int) list option" where
  "sum_rows [] totals = Some totals"
| "sum_rows ((Some authority, Some raw) # rows) totals =
     (if strip authority = [] \<or> strip raw = [] then sum_rows rows totals
      else case py_int (strip raw) of
        None \<Rightarrow> None
      | Some amount \<Rightarrow> sum_rows rows (add_total (strip authority) amount totals))"
| "sum_rows ((authority, raw) # rows) totals = None"

text \<open>The stem of the file written and its rows; \<open>header\<close> is the first line of the source.\<close>

definition convert_file ::
  "(int \<times> int) list \<Rightarrow> string \<Rightarrow> string list \<Rightarrow> (string option \<times> string option) list \<Rightarrow> (string \<times> (string \<times> int) list) option" where
  "convert_file decimals_map name header rows =
     (case name_match name of
        None \<Rightarrow> None
      | Some (index, symbol) \<Rightarrow>
          if \<not> {''authority'', ''tokenAmount''} \<subseteq> set header then None
          else
            map_option (\<lambda>totals. (index @ ''-'' @ symbol,
                filter (\<lambda>(authority, amount). \<not> amount < min_amount decimals_map index) (sort_key fst totals)))
              (sum_rows rows []))"

text \<open>The run over the directory: the files written, and whether a file failed. \<open>only\<close> are the indexes asked for.\<close>

record snapshot =
  sn_name :: string
  sn_header :: "string list"
  sn_rows :: "(string option \<times> string option) list"

definition prepare_if :: "(int \<times> int) list \<Rightarrow> string list option \<Rightarrow> snapshot list \<Rightarrow> (string \<times> (string \<times> int) list) list \<times> bool" where
  "prepare_if decimals_map only files =
     (let named = filter (\<lambda>f. name_match (sn_name f) \<noteq> None) files;
          ordered = sort_key (\<lambda>f. digits_of (fst (the (name_match (sn_name f))))) named;
          asked = filter (\<lambda>f. case only of None \<Rightarrow> True | Some is \<Rightarrow> fst (the (name_match (sn_name f))) \<in> set is) ordered;
          results = map (\<lambda>f. convert_file decimals_map (sn_name f) (sn_header f) (sn_rows f)) asked in
      (map the (filter (\<lambda>r. r \<noteq> None) results), named = [] \<or> None \<in> set results))"

section \<open>The DFX snapshot\<close>

text \<open>A decimal is a coefficient and an exponent; the other values have no integer.\<close>

datatype dec = Finite int int | Special

text \<open>Rounding to 28 digits, half even.\<close>

definition round_half_even :: "nat \<Rightarrow> nat \<Rightarrow> nat" where
  "round_half_even c k =
     (let q = c div 10 ^ k; r = c mod 10 ^ k in
      if 10 ^ k < 2 * r \<or> (2 * r = 10 ^ k \<and> odd q) then q + 1 else q)"

definition dec_digits :: "nat \<Rightarrow> nat" where
  "dec_digits n = length (show_nat n)"

definition dec_fix :: "int \<Rightarrow> int \<Rightarrow> dec" where
  "dec_fix c e =
     (let n = nat \<bar>c\<bar>; k = dec_digits n - 28 in
      if k = 0 then Finite c e else Finite (sgn c * int (round_half_even n k)) (e + int k))"

fun dec_mult :: "dec \<Rightarrow> dec \<Rightarrow> dec" where
  "dec_mult (Finite c e) (Finite c' e') = dec_fix (c * c') (e + e')"
| "dec_mult _ _ = Special"

text \<open>\<^verbatim>\<open>int\<close> of a decimal, which rounds towards zero as the rounding down before it does.\<close>

fun dec_int :: "dec \<Rightarrow> int option" where
  "dec_int (Finite c e) = Some (if 0 \<le> e then c * 10 ^ nat e else sgn c * (\<bar>c\<bar> div 10 ^ nat (- e)))"
| "dec_int Special = None"

definition MIN_BASE_UNITS :: int where
  "MIN_BASE_UNITS = 10000"

text \<open>One row: \<open>None\<close> for an exception, \<open>Some None\<close> for a row that is dropped. A field that is missing or empty drops it.\<close>

definition dfx_row :: "(string \<Rightarrow> dec option) \<Rightarrow> nat \<Rightarrow> string option \<times> string option \<Rightarrow> (string \<times> int) option option" where
  "dfx_row decimal decimals row =
     (let authority = strip (case fst row of Some s \<Rightarrow> s | None \<Rightarrow> []); raw = strip (case snd row of Some s \<Rightarrow> s | None \<Rightarrow> []) in
      if authority = [] \<or> raw = [] then Some None
      else case decimal raw of
        None \<Rightarrow> None
      | Some usd \<Rightarrow>
          (case dec_int (dec_mult usd (Finite (10 ^ decimals) 0)) of
             None \<Rightarrow> None
           | Some amount \<Rightarrow>
               if amount \<le> 0 then Some None
               else if amount < MIN_BASE_UNITS then Some None
               else Some (Some (authority, amount))))"

fun dfx_rows :: "(string \<Rightarrow> dec option) \<Rightarrow> nat \<Rightarrow> (string option \<times> string option) list \<Rightarrow> (string \<times> int) list option" where
  "dfx_rows decimal decimals [] = Some []"
| "dfx_rows decimal decimals (row # rows) =
     (case dfx_row decimal decimals row of
        None \<Rightarrow> None
      | Some written \<Rightarrow> map_option (\<lambda>rest. (case written of None \<Rightarrow> rest | Some r \<Rightarrow> r # rest)) (dfx_rows decimal decimals rows))"

text \<open>The notation of decimals without exponent: a sign, digits, and a point among them.\<close>

definition parse_decimal :: "string \<Rightarrow> dec option" where
  "parse_decimal s =
     (let (sign, body) = split_sign s; whole = takeWhile is_digit body; rest = dropWhile is_digit body;
          frac = (if rest \<noteq> [] \<and> hd rest = CHR ''.'' then tl rest else []) in
      if whole @ frac \<noteq> [] \<and> (rest = [] \<or> hd rest = CHR ''.'') \<and> list_all is_digit frac
      then Some (Finite (sign * int (digits_of (whole @ frac))) (- int (length frac)))
      else None)"

section \<open>What is written\<close>

text \<open>What a row says of an authority: nothing when a field is blank.\<close>

fun row_entry :: "string option \<times> string option \<Rightarrow> (string \<times> int) option" where
  "row_entry (Some authority, Some raw) =
     (if strip authority = [] \<or> strip raw = [] then None
      else map_option (Pair (strip authority)) (py_int (strip raw)))"
| "row_entry _ = None"

definition entries :: "(string option \<times> string option) list \<Rightarrow> (string \<times> int) list" where
  "entries rows = List.map_filter row_entry rows"

definition sum_for :: "string \<Rightarrow> (string \<times> int) list \<Rightarrow> int" where
  "sum_for a es = (\<Sum>(k, v) \<leftarrow> es. if k = a then v else 0)"

lemma sum_for_simps [simp]: "sum_for a [] = 0" "sum_for a ((k, v) # es) = (if k = a then v else 0) + sum_for a es"
  by (simp_all add: sum_for_def)

lemma sum_for_absent: "a \<notin> fst ` set es \<Longrightarrow> sum_for a es = 0"
  by (induction es) auto

lemma sum_rows_entries: "sum_rows rows totals = Some totals' \<Longrightarrow> totals' = fold (\<lambda>(a, v). add_total a v) (entries rows) totals"
  by (induction rows totals rule: sum_rows.induct)
    (auto simp: entries_def List.map_filter_simps split: if_splits option.splits)

lemma add_totals_fold:
  "map_of (fold (\<lambda>(a, v). add_total a v) es totals) k =
     (if k \<in> fst ` set es then Some ((case map_of totals k of Some t \<Rightarrow> t | None \<Rightarrow> 0) + sum_for k es) else map_of totals k)"
proof (induction es arbitrary: totals)
  case (Cons e es)
  then show ?case
    by (cases e) (auto simp: add_total_def update_conv sum_for_absent split: option.splits)
qed simp

lemma distinct_totals: "distinct (map fst totals) \<Longrightarrow> distinct (map fst (fold (\<lambda>(a, v). add_total a v) es totals))"
  by (induction es arbitrary: totals) (auto simp: add_total_def distinct_update)

lemma min_amount_pos: "10 \<le> min_amount decimals_map index"
  by (auto simp: min_amount_def MIN_AMOUNT_FALLBACK_def MIN_AMOUNT_BY_DECIMALS_def split: option.splits)

text \<open>A converted market has exactly one row per authority whose rows add up to the minimum or more, with that sum, in
  ascending order; and no row is for less than 10 base units.\<close>

lemma convert_file_rows:
  assumes "convert_file decimals_map name header rows = Some (stem, written)" "name_match name = Some (index, symbol)"
  shows "stem = index @ ''-'' @ symbol \<and> sorted (map fst written) \<and> distinct (map fst written)
    \<and> (\<forall>a v. (a, v) \<in> set written \<longleftrightarrow>
          a \<in> fst ` set (entries rows) \<and> v = sum_for a (entries rows) \<and> min_amount decimals_map index \<le> v)"
proof -
  obtain totals where t: "sum_rows rows [] = Some totals" "stem = index @ ''-'' @ symbol"
    "written = filter (\<lambda>(authority, amount). \<not> amount < min_amount decimals_map index) (sort_key fst totals)"
    using assms by (auto simp: convert_file_def split: if_splits)
  have tot: "totals = fold (\<lambda>(a, v). add_total a v) (entries rows) []" using sum_rows_entries [OF t(1)] .
  then have dis: "distinct (map fst totals)" using distinct_totals [of "[]"] by simp
  have "map_of totals a = (if a \<in> fst ` set (entries rows) then Some (sum_for a (entries rows)) else None)" for a
    unfolding tot by (simp add: add_totals_fold)
  then have "(a, v) \<in> set totals \<longleftrightarrow> a \<in> fst ` set (entries rows) \<and> v = sum_for a (entries rows)" for a v
    unfolding map_of_eq_Some_iff [OF dis, symmetric] by auto
  moreover have "distinct (map fst (sort_key fst totals))"
    using dis by (metis distinct_map distinct_sort set_sort)
  ultimately show ?thesis
    using t(2,3) by (auto simp: sorted_filter distinct_map_filter case_prod_unfold)
qed

text \<open>Scaling an amount printed with as many fractional digits as the mint has is exact: the point is removed.\<close>

lemma dfx_scaling_exact:
  assumes "dec_digits (nat \<bar>c\<bar> * 10 ^ decimals) \<le> 28"
  shows "dec_int (dec_mult (Finite c (- int decimals)) (Finite (10 ^ decimals) 0)) = Some c"
proof -
  have "nat \<bar>c * 10 ^ decimals\<bar> = nat \<bar>c\<bar> * 10 ^ decimals" by (simp add: abs_mult nat_mult_distrib nat_power_eq)
  then have "dec_mult (Finite c (- int decimals)) (Finite (10 ^ decimals) 0) = Finite (c * 10 ^ decimals) (- int decimals)"
    using assms by (simp add: dec_fix_def)
  then show ?thesis by (cases "decimals = 0") (auto simp: abs_mult sgn_mult sgn_mult_abs)
qed

text \<open>And what is written for a row is at least a cent's worth of base units.\<close>

lemma dfx_rows_amounts: "dfx_rows decimal decimals rows = Some written \<Longrightarrow> \<forall>(a, v) \<in> set written. 10000 \<le> v \<and> a \<noteq> []"
  by (induction rows arbitrary: written)
    (auto simp: dfx_row_def MIN_BASE_UNITS_def Let_def split: option.splits if_splits)

end
