(* ===== verification/Airdrop_Tree.thy ===== *)
theory Airdrop_Tree
  imports Merkle_Tree
begin

text \<open>
  The tree builder of \<^verbatim>\<open>merkle-tree/src\<close>: \<^verbatim>\<open>csv_amount_unit.rs\<close>, \<^verbatim>\<open>csv_entry.rs\<close>, \<^verbatim>\<open>tree_node.rs\<close>,
  \<^verbatim>\<open>airdrop_merkle_tree.rs\<close>, \<^verbatim>\<open>utils.rs\<close> and \<^verbatim>\<open>error.rs\<close>. Rows of a CSV become leaves, rows of one claimant
  are combined, the tree is built and checked against itself. \<^verbatim>\<open>Pubkey::from_str\<close> is a parameter.
  The text of an error message is replaced by a constructor that says which message it is.

  \<open>airdrop_new_outcome\<close> gives the outcome of \<^verbatim>\<open>AirdropMerkleTree::new\<close> on every input: a panic when the
  amounts do not fit 64 bits together, an error for no rows or more than \<open>2 ^ 32 - 1\<close> claimants, and
  otherwise a tree with one leaf per claimant, in first-seen order, carrying all of the
  claimant's amounts and a proof the program accepts.
\<close>

section \<open>Errors\<close>

datatype validation_msg = TooManyNodes | LengthMismatch | DuplicateClaimants | SumMismatch
  | RootInvalid | InvalidMerkleProof

datatype conversion_msg = TokenDecimalsInvalid | TokenOverflow | CentsNeedTwoDecimals
  | CentsDecimalsInvalid | CentsOverflow | InvalidPubkey string

datatype merkle_tree_error = MerkleValidationError validation_msg | MerkleRootError
  | IoError | SerdeError | AmountConversionError conversion_msg

type_synonym 'a tree_result = "merkle_tree_error failure + 'a"

section \<open>CSV rows and leaves\<close>

datatype csv_amount_unit = Tokens | Cents

definition csv_amount_to_base_units :: "u64 \<Rightarrow> u32 \<Rightarrow> csv_amount_unit \<Rightarrow> u64 tree_result" where
  "csv_amount_to_base_units amount mint_decimals unit =
     (case unit of
        Tokens \<Rightarrow>
          and_then (ok_or (checked_pow 10 (unat mint_decimals)) (Err (AmountConversionError TokenDecimalsInvalid)))
            (\<lambda>scale. ok_or (checked_mul amount scale) (Err (AmountConversionError TokenOverflow)))
      | Cents \<Rightarrow>
          if mint_decimals < 2 then Inl (Err (AmountConversionError CentsNeedTwoDecimals))
          else
            let exp = mint_decimals - 2 in
            and_then (ok_or (checked_pow 10 (unat exp)) (Err (AmountConversionError CentsDecimalsInvalid)))
              (\<lambda>scale. ok_or (checked_mul amount scale) (Err (AmountConversionError CentsOverflow))))"

record csv_entry =
  ce_pubkey :: string
  ce_amount :: u64
  ce_locked_amount :: "u64 option"

record tree_node =
  tn_claimant :: pubkey
  tn_amount :: u64
  tn_locked_amount :: "u64 option"
  tn_proof :: "bytes32 list option"

definition node_locked_amount :: "tree_node \<Rightarrow> u64" where
  "node_locked_amount n = (case tn_locked_amount n of Some a \<Rightarrow> a | None \<Rightarrow> 0)"

definition node_unlocked_amount :: "tree_node \<Rightarrow> u64" where
  "node_unlocked_amount n = tn_amount n"

definition node_hash :: "hash_fn \<Rightarrow> tree_node \<Rightarrow> bytes32" where
  "node_hash hashv n =
     hashv [to_bytes (tn_claimant n), le_bytes (tn_amount n),
            le_bytes (case tn_locked_amount n of Some a \<Rightarrow> a | None \<Rightarrow> 0)]"

definition total_amount :: "tree_node \<Rightarrow> u64 tree_result" where
  "total_amount n = or_panic (checked_add (tn_amount n) (case tn_locked_amount n of Some a \<Rightarrow> a | None \<Rightarrow> 0))"

definition from_csv ::
  "(string \<Rightarrow> pubkey option) \<Rightarrow> csv_entry \<Rightarrow> u32 \<Rightarrow> csv_amount_unit \<Rightarrow> tree_node tree_result" where
  "from_csv pubkey_from_str entry mint_decimals csv_amount_unit =
     and_then (csv_amount_to_base_units (ce_amount entry) mint_decimals csv_amount_unit) (\<lambda>amount.
     and_then (case ce_locked_amount entry of
                 Some la \<Rightarrow> and_then (csv_amount_to_base_units la mint_decimals csv_amount_unit) (\<lambda>a. Inr (Some a))
               | None \<Rightarrow> Inr None) (\<lambda>locked_amount.
     and_then (ok_or (pubkey_from_str (ce_pubkey entry))
                 (Err (AmountConversionError (InvalidPubkey (ce_pubkey entry))))) (\<lambda>claimant.
     Inr \<lparr>tn_claimant = claimant, tn_amount = amount, tn_locked_amount = locked_amount, tn_proof = None\<rparr>)))"

text \<open>\<^verbatim>\<open>try_fold\<close> with \<^verbatim>\<open>checked_add\<close>; each \<^verbatim>\<open>total_amount\<close> may panic on its own.\<close>

fun sum_total_claim :: "u64 \<Rightarrow> tree_node list \<Rightarrow> u64 tree_result" where
  "sum_total_claim acc [] = Inr acc"
| "sum_total_claim acc (n # nodes) =
     and_then (total_amount n) (\<lambda>t.
     and_then (or_panic (checked_add acc t)) (\<lambda>acc'. sum_total_claim acc' nodes))"

definition get_max_total_claim :: "tree_node list \<Rightarrow> u64 tree_result" where
  "get_max_total_claim nodes = sum_total_claim 0 nodes"

section \<open>The airdrop tree\<close>

record airdrop_merkle_tree =
  at_merkle_root :: bytes32
  at_airdrop_version :: u64
  at_max_num_nodes :: u64
  at_max_total_claim :: u64
  at_tree_nodes :: "tree_node list"

record user_proof =
  up_merkle_tree :: string
  up_amount :: u64
  up_locked_amount :: u64
  up_proof :: "bytes32 list"

definition combine_locked :: "u64 option \<Rightarrow> u64 option \<Rightarrow> u64 option tree_result" where
  "combine_locked x y =
     (case (x, y) of
        (Some a, Some b) \<Rightarrow> and_then (or_panic (checked_add a b)) (\<lambda>c. Inr (Some c))
      | (Some a, None) \<Rightarrow> Inr (Some a)
      | (None, Some b) \<Rightarrow> Inr (Some b)
      | (None, None) \<Rightarrow> Inr None)"

definition combine_node :: "tree_node \<Rightarrow> tree_node \<Rightarrow> tree_node tree_result" where
  "combine_node n tree_node =
     and_then (or_panic (checked_add (tn_amount n) (tn_amount tree_node))) (\<lambda>amount.
     and_then (combine_locked (tn_locked_amount n) (tn_locked_amount tree_node)) (\<lambda>locked_amount.
     Inr (n\<lparr>tn_amount := amount, tn_locked_amount := locked_amount\<rparr>)))"

text \<open>The \<^verbatim>\<open>IndexMap\<close> from claimant to node, as the list of its values in insertion order.\<close>

fun upsert_node :: "tree_node \<Rightarrow> tree_node list \<Rightarrow> tree_node list tree_result" where
  "upsert_node t [] = Inr [t]"
| "upsert_node t (n # ns) =
     (if tn_claimant n = tn_claimant t then and_then (combine_node n t) (\<lambda>n'. Inr (n' # ns))
      else and_then (upsert_node t ns) (\<lambda>ns'. Inr (n # ns')))"

fun combine_nodes :: "tree_node list \<Rightarrow> tree_node list \<Rightarrow> tree_node list tree_result" where
  "combine_nodes tree_nodes_map [] = Inr tree_nodes_map"
| "combine_nodes tree_nodes_map (t # tree_nodes) =
     and_then (upsert_node t tree_nodes_map) (\<lambda>m. combine_nodes m tree_nodes)"

definition hashed_nodes :: "hash_fn \<Rightarrow> tree_node list \<Rightarrow> u8 list list" where
  "hashed_nodes hashv nodes = map (\<lambda>n. be_bytes (node_hash hashv n)) nodes"

fun verify_leaves :: "hash_fn \<Rightarrow> merkle_tree \<Rightarrow> bytes32 \<Rightarrow> nat \<Rightarrow> u8 list list \<Rightarrow> unit tree_result" where
  "verify_leaves hashv mk root i [] = Inr ()"
| "verify_leaves hashv mk root i (hashed # rest) =
     and_then (or_panic (get_proof mk i)) (\<lambda>proof.
     require (verify hashv proof root (hashv [LEAF_PREFIX, hashed])) (Err (MerkleValidationError InvalidMerkleProof))
       (verify_leaves hashv mk root (i + 1) rest))"

definition verify_proof :: "hash_fn \<Rightarrow> airdrop_merkle_tree \<Rightarrow> unit tree_result" where
  "verify_proof hashv tree =
     (let root = at_merkle_root tree; hashed = hashed_nodes hashv (at_tree_nodes tree) in
     and_then (or_panic (mt_new hashv hashed True)) (\<lambda>mk.
     and_then (ok_or (get_root mk) (Err (MerkleValidationError InvalidMerkleProof))) (\<lambda>mk_root.
     require (mk_root = root) Panicked (verify_leaves hashv mk root 0 hashed))))"

definition validate :: "hash_fn \<Rightarrow> airdrop_merkle_tree \<Rightarrow> unit tree_result" where
  "validate hashv tree =
     require (\<not> 2 ^ 32 - 1 < at_max_num_nodes tree) (Err (MerkleValidationError TooManyNodes)) (
     require (length (at_tree_nodes tree) = unat (at_max_num_nodes tree))
       (Err (MerkleValidationError LengthMismatch)) (
     require (length (remdups (map tn_claimant (at_tree_nodes tree))) = length (at_tree_nodes tree))
       (Err (MerkleValidationError DuplicateClaimants)) (
     and_then (get_max_total_claim (at_tree_nodes tree)) (\<lambda>sum.
     require (sum = at_max_total_claim tree) (Err (MerkleValidationError SumMismatch)) (
     case verify_proof hashv tree of
       Inl (Err e) \<Rightarrow> Inl (Err (MerkleValidationError RootInvalid))
     | Inl Panicked \<Rightarrow> Inl Panicked
     | Inr _ \<Rightarrow> Inr ())))))"

fun attach_proofs :: "merkle_tree \<Rightarrow> nat \<Rightarrow> tree_node list \<Rightarrow> tree_node list tree_result" where
  "attach_proofs tree i [] = Inr []"
| "attach_proofs tree i (n # nodes) =
     and_then (or_panic (get_proof tree i)) (\<lambda>proof.
     and_then (attach_proofs tree (i + 1) nodes) (\<lambda>rest. Inr (n\<lparr>tn_proof := Some proof\<rparr> # rest)))"

definition airdrop_new :: "hash_fn \<Rightarrow> tree_node list \<Rightarrow> u64 \<Rightarrow> airdrop_merkle_tree tree_result" where
  "airdrop_new hashv tree_nodes airdrop_version =
     and_then (combine_nodes [] tree_nodes) (\<lambda>combined.
     and_then (or_panic (mt_new hashv (hashed_nodes hashv combined) True)) (\<lambda>tree.
     and_then (attach_proofs tree 0 combined) (\<lambda>nodes.
     and_then (get_max_total_claim nodes) (\<lambda>max_total_claim.
     and_then (ok_or (get_root tree) (Err MerkleRootError)) (\<lambda>root.
     let airdrop = \<lparr>at_merkle_root = root, at_airdrop_version = airdrop_version,
                    at_max_num_nodes = of_nat (length nodes), at_max_total_claim = max_total_claim,
                    at_tree_nodes = nodes\<rparr> in
     and_then (validate hashv airdrop) (\<lambda>_. Inr airdrop))))))"

definition new_from_entries ::
  "hash_fn \<Rightarrow> (string \<Rightarrow> pubkey option) \<Rightarrow> csv_entry list \<Rightarrow> u64 \<Rightarrow> u32 \<Rightarrow> csv_amount_unit
     \<Rightarrow> airdrop_merkle_tree tree_result" where
  "new_from_entries hashv pubkey_from_str csv_entries version mint_decimals csv_amount_unit =
     and_then (collect_results (\<lambda>x. from_csv pubkey_from_str x mint_decimals csv_amount_unit) csv_entries)
       (\<lambda>tree_nodes. airdrop_new hashv tree_nodes version)"

fun find_node :: "pubkey \<Rightarrow> tree_node list \<Rightarrow> tree_node option" where
  "find_node claimant [] = None"
| "find_node claimant (n # nodes) = (if tn_claimant n = claimant then Some n else find_node claimant nodes)"

definition get_node :: "airdrop_merkle_tree \<Rightarrow> pubkey \<Rightarrow> tree_node tree_result" where
  "get_node tree claimant = or_panic (find_node claimant (at_tree_nodes tree))"

text \<open>Collecting pairs into a \<^verbatim>\<open>HashMap\<close>: a later pair replaces an earlier one of the same key.\<close>

definition convert_to_hashmap :: "airdrop_merkle_tree \<Rightarrow> pubkey \<Rightarrow> tree_node option" where
  "convert_to_hashmap tree =
     fold (\<lambda>n m. m(tn_claimant n \<mapsto> n)) (at_tree_nodes tree) (\<lambda>_. None)"

section \<open>Combining the rows of a claimant\<close>

definition node_total :: "tree_node \<Rightarrow> nat" where
  "node_total n = unat (tn_amount n) + unat (node_locked_amount n)"

definition sum_total :: "tree_node list \<Rightarrow> nat" where
  "sum_total ns = sum_list (map node_total ns)"

definition amount_of :: "pubkey \<Rightarrow> tree_node list \<Rightarrow> nat" where
  "amount_of c ns = sum_list (map (\<lambda>n. unat (tn_amount n)) (filter (\<lambda>n. tn_claimant n = c) ns))"

definition locked_of :: "pubkey \<Rightarrow> tree_node list \<Rightarrow> nat" where
  "locked_of c ns = sum_list (map (\<lambda>n. unat (node_locked_amount n)) (filter (\<lambda>n. tn_claimant n = c) ns))"

definition first_seen :: "'a list \<Rightarrow> 'a list" where
  "first_seen xs = rev (remdups (rev xs))"

lemma sums_simps [simp]:
  "sum_total [] = 0" "sum_total (n # ns) = node_total n + sum_total ns"
  "sum_total (ns @ ms) = sum_total ns + sum_total ms"
  "amount_of c [] = 0"
  "amount_of c (n # ns) = (if tn_claimant n = c then unat (tn_amount n) else 0) + amount_of c ns"
  "locked_of c [] = 0"
  "locked_of c (n # ns) = (if tn_claimant n = c then unat (node_locked_amount n) else 0) + locked_of c ns"
  by (simp_all add: sum_total_def amount_of_def locked_of_def)

lemma combine_locked_cases:
  obtains (ok) l where "combine_locked x y = Inr l"
      "unat (case_option 0 id l) = unat (case_option 0 id x) + unat (case_option 0 id y)"
    | (panic) "combine_locked x y = Inl Panicked"
      "2 ^ 64 \<le> unat (case_option 0 id x) + unat (case_option 0 id y)"
proof (cases x; cases y)
  fix a b
  assume xy: "x = Some a" "y = Some b"
  show thesis
  proof (cases "checked_add a b")
    case None
    then show thesis using xy None [unfolded checked_add_None]
      by (intro panic) (simp_all add: combine_locked_def)
  next
    case (Some c)
    then show thesis using xy Some [unfolded checked_add_Some]
      by (intro ok [of "Some c"]) (simp_all add: combine_locked_def)
  qed
qed (auto intro: ok simp: combine_locked_def)

lemma node_locked_alt: "node_locked_amount n = case_option 0 id (tn_locked_amount n)"
  by (simp add: node_locked_amount_def split: option.split)

lemma combine_node_cases:
  obtains (ok) n' where "combine_node n t = Inr n'" "tn_claimant n' = tn_claimant n"
      "unat (tn_amount n') = unat (tn_amount n) + unat (tn_amount t)"
      "unat (node_locked_amount n') = unat (node_locked_amount n) + unat (node_locked_amount t)"
    | (panic) "combine_node n t = Inl Panicked" "2 ^ 64 \<le> node_total n + node_total t"
proof (cases "checked_add (tn_amount n) (tn_amount t)")
  case None
  then show thesis using None [unfolded checked_add_None]
    by (intro panic) (simp_all add: combine_node_def node_total_def)
next
  case (Some a)
  show thesis
  proof (cases rule: combine_locked_cases [of "tn_locked_amount n" "tn_locked_amount t"])
    case (ok l)
    then show thesis using Some Some [unfolded checked_add_Some]
      by (intro that(1) [of "n\<lparr>tn_amount := a, tn_locked_amount := l\<rparr>"])
        (simp_all add: combine_node_def node_locked_alt)
  next
    case panic
    then show thesis using Some by (intro that(2)) (simp_all add: combine_node_def node_total_def node_locked_alt)
  qed
qed

lemma upsert_node_cases:
  obtains (ok) m where "upsert_node t ns = Inr m"
      "map tn_claimant m = (if tn_claimant t \<in> tn_claimant ` set ns then map tn_claimant ns
                            else map tn_claimant ns @ [tn_claimant t])"
      "\<And>c. amount_of c m = amount_of c (t # ns)" "\<And>c. locked_of c m = locked_of c (t # ns)"
      "sum_total m = sum_total (t # ns)"
    | (panic) "upsert_node t ns = Inl Panicked" "2 ^ 64 \<le> sum_total (t # ns)"
proof (induction ns arbitrary: thesis)
  case Nil
  show ?case by (rule Nil.prems(1) [of "[t]"]) simp_all
next
  case (Cons n ns)
  show ?case
  proof (cases "tn_claimant n = tn_claimant t")
    case True
    show ?thesis
    proof (cases rule: combine_node_cases [of n t])
      case (ok n')
      then show ?thesis using True by (intro Cons.prems(1) [of "n' # ns"]) (auto simp: node_total_def)
    next
      case panic
      then show ?thesis using True by (intro Cons.prems(2)) simp_all
    qed
  next
    case False
    show ?thesis
    proof (rule Cons.IH)
      fix m
      assume "upsert_node t ns = Inr m"
        "map tn_claimant m = (if tn_claimant t \<in> tn_claimant ` set ns then map tn_claimant ns
                              else map tn_claimant ns @ [tn_claimant t])"
        "\<And>c. amount_of c m = amount_of c (t # ns)" "\<And>c. locked_of c m = locked_of c (t # ns)"
        "sum_total m = sum_total (t # ns)"
      then show ?thesis using False by (intro Cons.prems(1) [of "n # m"]) auto
    next
      assume "upsert_node t ns = Inl Panicked" "2 ^ 64 \<le> sum_total (t # ns)"
      then show ?thesis using False by (intro Cons.prems(2)) auto
    qed
  qed
qed

lemma remdups_drop_seen: "x \<in> set b \<Longrightarrow> remdups (a @ x # b) = remdups (a @ b)"
  by (induction a) auto

lemma first_seen_snoc:
  "distinct acc \<Longrightarrow> first_seen (acc @ x # xs) = first_seen ((if x \<in> set acc then acc else acc @ [x]) @ xs)"
  by (simp add: first_seen_def remdups_drop_seen)

lemma first_seen_distinct [simp]: "distinct xs \<Longrightarrow> first_seen xs = xs"
  by (simp add: first_seen_def distinct_remdups_id)

lemma first_seen_facts [simp]:
  "distinct (first_seen xs)" "set (first_seen xs) = set xs" "first_seen xs = [] \<longleftrightarrow> xs = []"
  by (simp_all add: first_seen_def)

lemma combine_nodes_cases:
  assumes "distinct (map tn_claimant acc)"
  obtains (ok) m where "combine_nodes acc ts = Inr m"
      "map tn_claimant m = first_seen (map tn_claimant acc @ map tn_claimant ts)"
      "\<And>c. amount_of c m = amount_of c acc + amount_of c ts"
      "\<And>c. locked_of c m = locked_of c acc + locked_of c ts"
      "sum_total m = sum_total acc + sum_total ts"
    | (panic) "combine_nodes acc ts = Inl Panicked" "2 ^ 64 \<le> sum_total acc + sum_total ts"
  using assms
proof (induction ts arbitrary: acc thesis)
  case Nil
  show ?case by (rule Nil.prems(1) [of acc]) (use Nil.prems(3) in simp_all)
next
  case (Cons t ts)
  show ?case
  proof (cases rule: upsert_node_cases [of t acc])
    case (ok m)
    have "distinct (map tn_claimant m)" using Cons.prems(3) ok(2) by (auto simp: image_iff)
    then show ?thesis
    proof (rule Cons.IH [rotated 2])
      fix r
      assume "combine_nodes m ts = Inr r" "map tn_claimant r = first_seen (map tn_claimant m @ map tn_claimant ts)"
        "\<And>c. amount_of c r = amount_of c m + amount_of c ts"
        "\<And>c. locked_of c r = locked_of c m + locked_of c ts" "sum_total r = sum_total m + sum_total ts"
      then show ?thesis using ok Cons.prems(3)
        by (intro Cons.prems(1) [of r]) (simp_all add: first_seen_snoc image_iff)
    next
      assume "combine_nodes m ts = Inl Panicked" "2 ^ 64 \<le> sum_total m + sum_total ts"
      then show ?thesis using ok by (intro Cons.prems(2)) simp_all
    qed
  next
    case panic
    then show ?thesis by (intro Cons.prems(2)) simp_all
  qed
qed

lemma sum_total_claim_exact:
  "sum_total_claim acc ns =
     (if unat acc + sum_total ns < 2 ^ 64 then Inr (word_of_nat (unat acc + sum_total ns)) else Inl Panicked)"
proof (induction ns arbitrary: acc)
  case (Cons n ns)
  have t: "total_amount n = or_panic (checked_add (tn_amount n) (node_locked_amount n))"
    by (simp add: total_amount_def node_locked_amount_def)
  show ?case
  proof (cases "checked_add (tn_amount n) (node_locked_amount n)")
    case None
    then show ?thesis using None [unfolded checked_add_None] by (simp add: t node_total_def)
  next
    case (Some a)
    then have a: "unat a = node_total n" by (simp add: checked_add_Some node_total_def)
    show ?thesis
    proof (cases "checked_add acc a")
      case None
      then show ?thesis using Some a None [unfolded checked_add_None] by (simp add: t)
    next
      case s: (Some b)
      then have "unat b = unat acc + node_total n" using a by (simp add: checked_add_Some)
      then show ?thesis using Some s Cons.IH [of b] by (simp add: t add.assoc)
    qed
  qed
qed (simp add: unat_u64_bound)

section \<open>The tree checks against itself\<close>

definition with_proofs :: "(nat \<Rightarrow> bytes32 list option) \<Rightarrow> nat \<Rightarrow> tree_node list \<Rightarrow> tree_node list" where
  "with_proofs proofs i ns = map2 (\<lambda>j n. n\<lparr>tn_proof := proofs j\<rparr>) [i..<i + length ns] ns"

lemma length_with_proofs [simp]: "length (with_proofs proofs i ns) = length ns"
  by (simp add: with_proofs_def)

lemma with_proofs_nth [simp]:
  "j < length ns \<Longrightarrow> with_proofs proofs i ns ! j = (ns ! j)\<lparr>tn_proof := proofs (i + j)\<rparr>"
  by (simp add: with_proofs_def)

lemma map_with_proofs:
  "(\<And>n p. f (n\<lparr>tn_proof := p\<rparr>) = f n) \<Longrightarrow> map f (with_proofs proofs i ns) = map f ns"
  by (rule nth_equalityI) simp_all

lemma with_proofs_Nil [simp]: "with_proofs proofs i [] = []"
  by (simp add: with_proofs_def)

lemma with_proofs_eq_Nil [simp]: "with_proofs proofs i ns = [] \<longleftrightarrow> ns = []"
  by (cases ns) (auto simp: with_proofs_def upt_conv_Cons simp del: upt_Suc)

lemma with_proofs_Cons:
  "with_proofs proofs i (n # ns) = n\<lparr>tn_proof := proofs i\<rparr> # with_proofs proofs (Suc i) ns"
  by (simp add: with_proofs_def upt_conv_Cons del: upt_Suc)

lemma with_proofs_same [simp]:
  "map tn_claimant (with_proofs proofs i ns) = map tn_claimant ns"
  "sum_total (with_proofs proofs i ns) = sum_total ns"
  "hashed_nodes hashv (with_proofs proofs i ns) = hashed_nodes hashv ns"
  by (simp_all add: map_with_proofs sum_total_def hashed_nodes_def node_total_def node_locked_amount_def node_hash_def)

lemma length_hashed_nodes [simp]: "length (hashed_nodes hashv ns) = length ns"
  by (simp add: hashed_nodes_def)

lemma hashed_nodes_Nil [simp]: "hashed_nodes hashv ns = [] \<longleftrightarrow> ns = []"
  by (simp add: hashed_nodes_def)

lemma attach_proofs_total:
  "\<forall>j < length ns. get_proof tree (i + j) \<noteq> None \<Longrightarrow>
   attach_proofs tree i ns = Inr (with_proofs (get_proof tree) i ns)"
proof (induction ns arbitrary: i)
  case (Cons n ns)
  from Cons.prems obtain p where p: "get_proof tree i = Some p" by force
  have "\<forall>j < length ns. get_proof tree (Suc i + j) \<noteq> None"
    using Cons.prems by (metis Suc_less_eq add_Suc_right add_Suc length_Cons)
  with Cons.IH [of "Suc i"] p show ?case by (simp add: with_proofs_Cons)
qed simp

lemma verify_leaves_ok:
  "\<forall>j < length hs. \<exists>p. get_proof mk (i + j) = Some p \<and> verify hashv p root (hashv [LEAF_PREFIX, hs ! j]) \<Longrightarrow>
   verify_leaves hashv mk root i hs = Inr ()"
proof (induction hs arbitrary: i)
  case (Cons h hs)
  from Cons.prems obtain p where "get_proof mk i = Some p" "verify hashv p root (hashv [LEAF_PREFIX, h])" by force
  moreover have "\<forall>j < length hs. \<exists>p. get_proof mk (Suc i + j) = Some p
      \<and> verify hashv p root (hashv [LEAF_PREFIX, hs ! j])"
    using Cons.prems by (metis Suc_less_eq add_Suc_right add_Suc length_Cons nth_Cons_Suc)
  ultimately show ?case using Cons.IH [of "Suc i"] by simp
qed simp

text \<open>A tree made of the hashes of some nodes, with its root, and what it gives each of them.\<close>

lemma hashed_tree:
  assumes "ns \<noteq> []"
  obtains mt root where "mt_new hashv (hashed_nodes hashv ns) True = Some mt" "get_root mt = Some root"
    "tree_commit hashv (hashed_nodes hashv ns) = Some root"
    "\<forall>j < length ns. \<exists>p. get_proof mt j = Some p
        \<and> verify hashv p root (hashv [LEAF_PREFIX, be_bytes (node_hash hashv (ns ! j))])"
proof -
  let ?hs = "hashed_nodes hashv ns"
  obtain mt where mt: "mt_new hashv ?hs True = Some mt" using mt_new_total by blast
  moreover obtain root where root: "tree_commit hashv ?hs = Some root" "get_root mt = Some root"
    using assms mt by (simp add: tree_commit_def get_root_mt_new)
  moreover have "\<exists>p. get_proof mt j = Some p \<and> verify hashv p root (hashv [LEAF_PREFIX, ?hs ! j])"
    if "j < length ns" for j
    using sorted_tree.complete [OF root(1), of j] that mt by (auto simp: tree_prove_def tree_check_def hash_leaf_def)
  ultimately show thesis by (intro that [of mt root]) (simp_all add: hashed_nodes_def)
qed

lemma validate_ok:
  assumes "at_tree_nodes tree \<noteq> []" "tree_commit hashv (hashed_nodes hashv (at_tree_nodes tree)) = Some (at_merkle_root tree)"
    and "distinct (map tn_claimant (at_tree_nodes tree))" "length (at_tree_nodes tree) < 2 ^ 32"
    and "unat (at_max_num_nodes tree) = length (at_tree_nodes tree)"
    and "get_max_total_claim (at_tree_nodes tree) = Inr (at_max_total_claim tree)"
  shows "validate hashv tree = Inr ()"
proof -
  let ?hs = "hashed_nodes hashv (at_tree_nodes tree)"
  obtain mt root where mt: "mt_new hashv ?hs True = Some mt" "get_root mt = Some root"
    "tree_commit hashv ?hs = Some root"
    "\<forall>j < length ?hs. \<exists>p. get_proof mt (0 + j) = Some p \<and> verify hashv p root (hashv [LEAF_PREFIX, ?hs ! j])"
    using assms(1) by (rule hashed_tree [of "at_tree_nodes tree" hashv]) (simp add: hashed_nodes_def)
  then have "verify_proof hashv tree = Inr ()"
    using assms(2) verify_leaves_ok [OF mt(4)] by (simp add: verify_proof_def)
  moreover have "\<not> 2 ^ 32 - 1 < at_max_num_nodes tree"
    using assms(4,5) by (simp add: word_less_nat_alt)
  ultimately show ?thesis using assms(3,5,6) by (simp add: validate_def distinct_remdups_id)
qed

lemma amount_of_distinct:
  "distinct (map tn_claimant ns) \<Longrightarrow> n \<in> set ns \<Longrightarrow>
   amount_of (tn_claimant n) ns = unat (tn_amount n) \<and> locked_of (tn_claimant n) ns = unat (node_locked_amount n)"
proof (induction ns)
  case (Cons m ns)
  have "amount_of c ns = 0 \<and> locked_of c ns = 0" if "c \<notin> tn_claimant ` set ns" for c
    using that by (induction ns) auto
  with Cons show ?case by auto
qed simp

section \<open>What the builder returns\<close>

definition built_from :: "hash_fn \<Rightarrow> tree_node list \<Rightarrow> airdrop_merkle_tree \<Rightarrow> bool" where
  "built_from hashv rows tree \<longleftrightarrow>
     map tn_claimant (at_tree_nodes tree) = first_seen (map tn_claimant rows)
     \<and> (\<forall>n \<in> set (at_tree_nodes tree).
          unat (tn_amount n) = amount_of (tn_claimant n) rows
          \<and> unat (node_locked_amount n) = locked_of (tn_claimant n) rows
          \<and> (\<exists>p. tn_proof n = Some p
                \<and> verify hashv p (at_merkle_root tree) (hashv [LEAF_PREFIX, be_bytes (node_hash hashv n)])))
     \<and> unat (at_max_total_claim tree) = sum_total rows
     \<and> unat (at_max_num_nodes tree) = length (at_tree_nodes tree)
     \<and> tree_commit hashv (hashed_nodes hashv (at_tree_nodes tree)) = Some (at_merkle_root tree)"

text \<open>Up to its validation, the builder makes one tree out of the combined rows.\<close>

definition candidate_tree :: "(nat \<Rightarrow> bytes32 list option) \<Rightarrow> bytes32 \<Rightarrow> u64 \<Rightarrow> tree_node list \<Rightarrow> airdrop_merkle_tree" where
  "candidate_tree proofs root version m =
     \<lparr>at_merkle_root = root, at_airdrop_version = version, at_max_num_nodes = word_of_nat (length m),
      at_max_total_claim = word_of_nat (sum_total m), at_tree_nodes = with_proofs proofs 0 m\<rparr>"

lemma airdrop_new_combined:
  assumes "combine_nodes [] rows = Inr m" "m \<noteq> []"
  obtains proofs root where "tree_commit hashv (hashed_nodes hashv m) = Some root"
    and "\<forall>j < length m. \<exists>p. proofs j = Some p
        \<and> verify hashv p root (hashv [LEAF_PREFIX, be_bytes (node_hash hashv (m ! j))])"
    and "airdrop_new hashv rows version =
      (if sum_total m < 2 ^ 64
       then and_then (validate hashv (candidate_tree proofs root version m)) (\<lambda>_. Inr (candidate_tree proofs root version m))
       else Inl Panicked)"
proof -
  obtain mt root where mt: "mt_new hashv (hashed_nodes hashv m) True = Some mt" "get_root mt = Some root"
    "tree_commit hashv (hashed_nodes hashv m) = Some root"
    and proofs: "\<forall>j < length m. \<exists>p. get_proof mt j = Some p
        \<and> verify hashv p root (hashv [LEAF_PREFIX, be_bytes (node_hash hashv (m ! j))])"
    using assms(2) by (rule hashed_tree)
  have "attach_proofs mt 0 m = Inr (with_proofs (get_proof mt) 0 m)"
    using proofs by (intro attach_proofs_total) auto
  then show thesis using assms(1) mt(1,2)
    by (intro that [OF mt(3) proofs])
      (simp add: airdrop_new_def candidate_tree_def get_max_total_claim_def sum_total_claim_exact Let_def)
qed

lemma candidate_tree_sel [simp]:
  "at_merkle_root (candidate_tree proofs root version m) = root"
  "at_airdrop_version (candidate_tree proofs root version m) = version"
  "at_max_num_nodes (candidate_tree proofs root version m) = word_of_nat (length m)"
  "at_max_total_claim (candidate_tree proofs root version m) = word_of_nat (sum_total m)"
  "at_tree_nodes (candidate_tree proofs root version m) = with_proofs proofs 0 m"
  by (simp_all add: candidate_tree_def)

lemma unat_u64_of_nat: "n < 2 ^ 64 \<Longrightarrow> unat (word_of_nat n :: u64) = n"
  by (simp add: unsigned_of_nat take_bit_nat_eq_self)

lemma candidate_tree_built:
  assumes cl: "map tn_claimant m = first_seen (map tn_claimant rows)"
    and sums: "\<And>c. amount_of c m = amount_of c rows" "\<And>c. locked_of c m = locked_of c rows"
      "sum_total m = sum_total rows" "sum_total rows < 2 ^ 64"
    and root: "tree_commit hashv (hashed_nodes hashv m) = Some root"
    and proofs: "\<forall>j < length m. \<exists>p. proofs j = Some p
        \<and> verify hashv p root (hashv [LEAF_PREFIX, be_bytes (node_hash hashv (m ! j))])"
    and "length m < 2 ^ 64"
  shows "built_from hashv rows (candidate_tree proofs root version m)"
proof -
  have dist: "distinct (map tn_claimant m)" unfolding cl by simp
  have "unat (tn_amount n) = amount_of (tn_claimant n) rows
      \<and> unat (node_locked_amount n) = locked_of (tn_claimant n) rows
      \<and> (\<exists>p. tn_proof n = Some p \<and> verify hashv p root (hashv [LEAF_PREFIX, be_bytes (node_hash hashv n)]))"
    if "n \<in> set (with_proofs proofs 0 m)" for n
  proof -
    from that obtain j where j: "j < length m" and n: "n = (m ! j)\<lparr>tn_proof := proofs j\<rparr>"
      by (auto simp: in_set_conv_nth)
    with amount_of_distinct [OF dist nth_mem [OF j]] proofs show ?thesis
      by (auto simp: sums node_locked_amount_def node_hash_def)
  qed
  then show ?thesis using assms by (simp add: built_from_def unat_u64_of_nat)
qed

lemma validate_too_many:
  assumes "at_max_num_nodes tree = word_of_nat (length (at_tree_nodes tree))" "2 ^ 32 \<le> length (at_tree_nodes tree)"
  shows "\<exists>msg. validate hashv tree = Inl (Err (MerkleValidationError msg))"
proof (cases "2 ^ 32 - 1 < at_max_num_nodes tree")
  case False
  then have "unat (at_max_num_nodes tree) < length (at_tree_nodes tree)"
    using assms(2) by (simp add: word_less_nat_alt)
  with False show ?thesis by (simp add: validate_def)
qed (simp add: validate_def)

lemma combined_rows:
  obtains (ok) m where "combine_nodes [] rows = Inr m" "map tn_claimant m = first_seen (map tn_claimant rows)"
      "length m = card (tn_claimant ` set rows)"
      "\<And>c. amount_of c m = amount_of c rows" "\<And>c. locked_of c m = locked_of c rows"
      "sum_total m = sum_total rows"
    | (panic) "combine_nodes [] rows = Inl Panicked" "2 ^ 64 \<le> sum_total rows"
proof (rule combine_nodes_cases [of "[]" rows])
  fix m
  assume m: "combine_nodes [] rows = Inr m" "map tn_claimant m = first_seen (map tn_claimant [] @ map tn_claimant rows)"
    "\<And>c. amount_of c m = amount_of c [] + amount_of c rows" "\<And>c. locked_of c m = locked_of c [] + locked_of c rows"
    "sum_total m = sum_total [] + sum_total rows"
  have "length m = length (first_seen (map tn_claimant rows))" using arg_cong [OF m(2), of length] by simp
  also have "\<dots> = card (set (first_seen (map tn_claimant rows)))"
    by (rule distinct_card [symmetric]) simp
  finally have "length m = card (tn_claimant ` set rows)" by simp
  then show thesis using m by (intro ok [of m]) simp_all
qed (auto intro: panic)

lemma airdrop_new_ok:
  assumes "rows \<noteq> []" "sum_total rows < 2 ^ 64" "card (tn_claimant ` set rows) < 2 ^ 32"
  obtains tree where "airdrop_new hashv rows version = Inr tree" "built_from hashv rows tree"
    "at_airdrop_version tree = version"
proof (cases rule: combined_rows [of rows])
  case (ok m)
  have "m \<noteq> []" using ok(3) assms(1) by auto
  with ok(1) obtain proofs root where root: "tree_commit hashv (hashed_nodes hashv m) = Some root"
    and proofs: "\<forall>j < length m. \<exists>p. proofs j = Some p
        \<and> verify hashv p root (hashv [LEAF_PREFIX, be_bytes (node_hash hashv (m ! j))])"
    and new: "airdrop_new hashv rows version = (if sum_total m < 2 ^ 64
       then and_then (validate hashv (candidate_tree proofs root version m)) (\<lambda>_. Inr (candidate_tree proofs root version m))
       else Inl Panicked)"
    by (rule airdrop_new_combined)
  have len: "length m < 2 ^ 64" using ok(3) assms(3) by simp
  have "validate hashv (candidate_tree proofs root version m) = Inr ()"
    using root ok(2,3,6) assms(2,3) len \<open>m \<noteq> []\<close>
    by (intro validate_ok) (simp_all add: unat_u64_of_nat get_max_total_claim_def sum_total_claim_exact)
  with new candidate_tree_built [OF ok(2,4,5,6) assms(2) root proofs len] ok(6) assms(2) show thesis
    by (intro that [of "candidate_tree proofs root version m"]) simp_all
qed (use assms in simp)

lemma airdrop_new_panic:
  assumes "2 ^ 64 \<le> sum_total rows"
  shows "airdrop_new hashv rows version = Inl Panicked"
proof (cases rule: combined_rows [of rows])
  case (ok m)
  then have "m \<noteq> []" using assms by auto
  with ok(1) show ?thesis by (rule airdrop_new_combined) (use ok(6) assms in simp)
qed (simp add: airdrop_new_def)

lemma airdrop_new_Nil: "airdrop_new hashv [] version = Inl (Err MerkleRootError)"
  by (simp add: airdrop_new_def hashed_nodes_def mt_new_levels levels.simps get_root_def get_max_total_claim_def)

lemma airdrop_new_too_many:
  assumes "sum_total rows < 2 ^ 64" "2 ^ 32 \<le> card (tn_claimant ` set rows)"
  shows "\<exists>msg. airdrop_new hashv rows version = Inl (Err (MerkleValidationError msg))"
proof (cases rule: combined_rows [of rows])
  case (ok m)
  then have "m \<noteq> []" using assms(2) by auto
  with ok(1) show ?thesis
  proof (rule airdrop_new_combined)
    fix proofs root
    assume "airdrop_new hashv rows version = (if sum_total m < 2 ^ 64
       then and_then (validate hashv (candidate_tree proofs root version m)) (\<lambda>_. Inr (candidate_tree proofs root version m))
       else Inl Panicked)"
    with validate_too_many [of "candidate_tree proofs root version m" hashv] ok(3,6) assms show ?thesis by auto
  qed
qed (use assms in simp)

section \<open>What the root commits to\<close>

definition claim_slices :: "pubkey \<Rightarrow> u64 \<Rightarrow> u64 \<Rightarrow> u8 list list" where
  "claim_slices claimant unlocked locked = [to_bytes claimant, le_bytes unlocked, le_bytes locked]"

definition claim_inputs :: "hash_fn \<Rightarrow> tree_node list \<Rightarrow> bytes32 list \<Rightarrow> pubkey \<Rightarrow> u64 \<Rightarrow> u64 \<Rightarrow> u8 list list list" where
  "claim_inputs hashv ns proof claimant unlocked locked =
     tree_inputs hashv (hashed_nodes hashv ns)
     @ check_inputs hashv proof (be_bytes (hashv (claim_slices claimant unlocked locked)))
     @ claim_slices claimant unlocked locked
     # map (\<lambda>n. claim_slices (tn_claimant n) (tn_amount n) (node_locked_amount n)) ns"

lemma concat_claim_slices_inject:
  "concat (claim_slices c u l) = concat (claim_slices c' u' l') \<longleftrightarrow> c = c' \<and> u = u' \<and> l = l'"
  by (auto simp: claim_slices_def append_eq_append_conv)

lemma node_hash_slices:
  "node_hash hashv n = hashv (claim_slices (tn_claimant n) (tn_amount n) (node_locked_amount n))"
  by (simp add: node_hash_def claim_slices_def node_locked_amount_def)

lemma claim_in_tree:
  assumes root: "tree_commit hashv (hashed_nodes hashv ns) = Some root"
    and free: "collision_free hashv (claim_inputs hashv ns proof c u l)"
    and ver: "verify hashv proof root (hashv [LEAF_PREFIX, be_bytes (hashv (claim_slices c u l))])"
  shows "\<exists>n \<in> set ns. tn_claimant n = c \<and> tn_amount n = u \<and> node_locked_amount n = l"
proof -
  let ?item = "be_bytes (hashv (claim_slices c u l))"
  have "tree_clash_free hashv (hashed_nodes hashv ns) proof ?item"
    unfolding tree_clash_free_def by (rule collision_free_mono [OF free]) (auto simp: claim_inputs_def)
  moreover have "tree_check hashv proof root ?item" using ver by (simp add: tree_check_def hash_leaf_def)
  ultimately have "?item \<in> set (hashed_nodes hashv ns)" using root sorted_tree.sound by blast
  then obtain n where n: "n \<in> set ns" "hashv (claim_slices c u l)
      = hashv (claim_slices (tn_claimant n) (tn_amount n) (node_locked_amount n))"
    by (auto simp: hashed_nodes_def node_hash_slices)
  have "concat (claim_slices c u l) = concat (claim_slices (tn_claimant n) (tn_amount n) (node_locked_amount n))"
    by (rule collision_freeD [OF free _ _ n(2)]) (use n(1) in \<open>auto simp: claim_inputs_def\<close>)
  with n(1) show ?thesis by (auto simp: concat_claim_slices_inject)
qed

lemma airdrop_new_built:
  assumes "airdrop_new hashv rows version = Inr tree"
  shows "built_from hashv rows tree" and "rows \<noteq> []" and "sum_total rows < 2 ^ 64"
    and "at_airdrop_version tree = version"
proof -
  show ne: "rows \<noteq> []" using assms airdrop_new_Nil by auto
  show lt: "sum_total rows < 2 ^ 64" using assms airdrop_new_panic [of rows] by force
  have "card (tn_claimant ` set rows) < 2 ^ 32"
    using assms lt airdrop_new_too_many [of rows hashv version] by force
  from airdrop_new_ok [OF ne lt this, of hashv version] assms
  show "built_from hashv rows tree" and "at_airdrop_version tree = version" by auto
qed

lemma find_node_None: "find_node c ns = None \<longleftrightarrow> c \<notin> tn_claimant ` set ns"
  by (induction ns) auto

lemma find_node_Some: "find_node c ns = Some n \<Longrightarrow> n \<in> set ns \<and> tn_claimant n = c"
  by (induction ns) (auto split: if_splits)

lemma hashmap_find_node_gen:
  "distinct (map tn_claimant ns) \<Longrightarrow>
   fold (\<lambda>n m. m(tn_claimant n \<mapsto> n)) ns m0 c = (case find_node c ns of Some n \<Rightarrow> Some n | None \<Rightarrow> m0 c)"
proof (induction ns arbitrary: m0)
  case (Cons n ns)
  then show ?case using find_node_None [of c ns] by (auto split: option.split)
qed simp

lemma hashmap_find_node:
  "distinct (map tn_claimant ns) \<Longrightarrow> fold (\<lambda>n m. m(tn_claimant n \<mapsto> n)) ns (\<lambda>_. None) c = find_node c ns"
  by (simp add: hashmap_find_node_gen split: option.split)

lemma unat_pow_ten: "10 ^ e < (2 :: nat) ^ 64 \<Longrightarrow> unat ((10 :: u64) ^ e) = 10 ^ e"
  using checked_pow_Some [of "10 :: u64" e "10 ^ e"] by (simp add: checked_pow_def)

definition unit_exponent :: "csv_amount_unit \<Rightarrow> u32 \<Rightarrow> nat option" where
  "unit_exponent unit mint_decimals =
     (case unit of Tokens \<Rightarrow> Some (unat mint_decimals)
      | Cents \<Rightarrow> if unat mint_decimals < 2 then None else Some (unat mint_decimals - 2))"

lemma csv_base_units_Inr:
  "csv_amount_to_base_units amount mint_decimals unit = Inr base \<longleftrightarrow>
     (\<exists>e. unit_exponent unit mint_decimals = Some e \<and> 10 ^ e < (2 :: nat) ^ 64
          \<and> unat base = unat amount * 10 ^ e)"
proof (cases unit)
  case Tokens
  then show ?thesis
    by (auto simp: csv_amount_to_base_units_def unit_exponent_def ok_iff checked_mul_Some checked_pow_def
        unat_pow_ten)
next
  case Cents
  have exp: "unat (mint_decimals - 2) = unat mint_decimals - 2" if "\<not> mint_decimals < 2"
    using that by (simp add: unat_sub word_le_nat_alt word_less_nat_alt)
  have lt: "mint_decimals < 2 \<longleftrightarrow> unat mint_decimals < 2" by (simp add: word_less_nat_alt)
  from Cents exp show ?thesis
    by (auto simp: csv_amount_to_base_units_def unit_exponent_def ok_iff checked_mul_Some checked_pow_def Let_def
        unat_pow_ten lt split: if_splits)
qed

section \<open>Properties\<close>

text \<open>C15: The outcome of \<^verbatim>\<open>AirdropMerkleTree::new\<close> on every list of rows. It panics exactly when the amounts
  of all rows together do not fit a \<^verbatim>\<open>u64\<close>, reports an empty list and a list of \<open>2 ^ 32\<close> or more
  claimants as errors, and otherwise returns a validated tree: one leaf per claimant in first-seen
  order, with the sums of all the claimant's unlocked and locked amounts and a proof \<^verbatim>\<open>verify\<close>
  accepts, the exact total of the rows as \<^verbatim>\<open>max_total_claim\<close> and the number of leaves as
  \<^verbatim>\<open>max_num_nodes\<close>.\<close>

theorem airdrop_new_outcome:
  "if 2 ^ 64 \<le> sum_total rows then airdrop_new hashv rows version = Inl Panicked
   else if rows = [] then airdrop_new hashv rows version = Inl (Err MerkleRootError)
   else if 2 ^ 32 \<le> card (tn_claimant ` set rows)
   then \<exists>msg. airdrop_new hashv rows version = Inl (Err (MerkleValidationError msg))
   else \<exists>tree. airdrop_new hashv rows version = Inr tree \<and> built_from hashv rows tree
          \<and> at_airdrop_version tree = version"
  using airdrop_new_panic [of rows hashv version] airdrop_new_Nil [of hashv version]
    airdrop_new_too_many [of rows hashv version] airdrop_new_ok [of rows hashv version]
  by (auto simp: not_le)

text \<open>C24: Scaling a CSV amount to base units is exact: a result is the amount times the power of ten of
  the unit, without wrap-around, and there is one exactly when the power and the product fit 64 bits
  (and, for cents, the mint has two decimals). Otherwise the result is a conversion error, never a panic.\<close>

theorem csv_amount_exact:
  "(csv_amount_to_base_units amount mint_decimals unit = Inr base \<longleftrightarrow>
     (\<exists>e. unit_exponent unit mint_decimals = Some e \<and> 10 ^ e < (2 :: nat) ^ 64
          \<and> unat base = unat amount * 10 ^ e))
   \<and> (\<exists>r. csv_amount_to_base_units amount mint_decimals unit = Inr r
        \<or> (\<exists>msg. csv_amount_to_base_units amount mint_decimals unit = Inl (Err (AmountConversionError msg))))"
proof (intro conjI csv_base_units_Inr)
  show "\<exists>r. csv_amount_to_base_units amount mint_decimals unit = Inr r
      \<or> (\<exists>msg. csv_amount_to_base_units amount mint_decimals unit = Inl (Err (AmountConversionError msg)))"
    by (auto simp: csv_amount_to_base_units_def ok_or_def Let_def split: csv_amount_unit.splits option.splits)
qed

text \<open>Looking a claimant up in the list of leaves (\<^verbatim>\<open>get_node\<close>) and in the hash map made of it
  (\<^verbatim>\<open>convert_to_hashmap\<close>) agree on every tree the builder returns, and both find exactly the claimants
  of the rows.\<close>

lemma lookups_agree:
  assumes "airdrop_new hashv rows version = Inr tree"
  shows "get_node tree c = or_panic (convert_to_hashmap tree c)
    \<and> (convert_to_hashmap tree c \<noteq> None \<longleftrightarrow> c \<in> tn_claimant ` set rows)"
proof -
  have "built_from hashv rows tree" using assms by (rule airdrop_new_built)
  then have cl: "map tn_claimant (at_tree_nodes tree) = first_seen (map tn_claimant rows)"
    by (simp add: built_from_def)
  then have "distinct (map tn_claimant (at_tree_nodes tree))" by simp
  then have same: "convert_to_hashmap tree c = find_node c (at_tree_nodes tree)"
    by (simp add: convert_to_hashmap_def hashmap_find_node)
  have "tn_claimant ` set (at_tree_nodes tree) = tn_claimant ` set rows"
    using arg_cong [OF cl, of set] by simp
  then show ?thesis using same find_node_None [of c "at_tree_nodes tree"] by (simp add: get_node_def)
qed

end
