(* ===== verification/If_Aggregate.thy ===== *)
theory If_Aggregate
  imports Ordered_Map Airdrop_Tree
begin

text \<open>
  The tool \<^verbatim>\<open>aggregate-if-csvs\<close> (\<^verbatim>\<open>cli/src/bin/instructions/process_aggregate_if_csvs.rs\<close>): the markets of
  an insurance-fund configuration that share a mint become one market, and the amounts and locked
  amounts of each claimant are summed over their CSV files. Parsing the configuration and the CSV
  files is a parameter, as is \<^verbatim>\<open>Pubkey::from_str\<close>; what the tool writes is its result. Warnings and
  progress messages are left out.
\<close>

section \<open>Aggregation\<close>

record if_market =
  im_index :: u64
  im_symbol :: string
  im_mint :: string

record merged_mint =
  mm_mint :: string
  mm_symbol :: string
  mm_index :: u64
  mm_source_markets :: "u64 list"
  mm_entries :: "csv_entry list"

datatype aggregate_error =
    InvalidEntryPubkey u64 string string
  | AmountOverflow string string
  | LockedAmountOverflow string string

type_synonym claimant_sums = "(string \<times> (u64 \<times> u64)) list"
type_synonym mint_groups = "(string \<times> (if_market \<times> claimant_sums)) list"

definition locked_or_zero :: "csv_entry \<Rightarrow> u64" where
  "locked_or_zero e = (case ce_locked_amount e of Some l \<Rightarrow> l | None \<Rightarrow> 0)"

definition sums_of :: "claimant_sums \<Rightarrow> string \<Rightarrow> u64 \<times> u64" where
  "sums_of sums pubkey = (case map_of sums pubkey of Some acc \<Rightarrow> acc | None \<Rightarrow> (0, 0))"

fun add_entries ::
  "(string \<Rightarrow> pubkey option) \<Rightarrow> if_market \<Rightarrow> claimant_sums \<Rightarrow> csv_entry list \<Rightarrow> aggregate_error + claimant_sums" where
  "add_entries pubkey_from_str market sums [] = Inr sums"
| "add_entries pubkey_from_str market sums (entry # entries) =
     require (pubkey_from_str (ce_pubkey entry) \<noteq> None)
       (InvalidEntryPubkey (im_index market) (im_symbol market) (ce_pubkey entry)) (
     let (amount, locked) = sums_of sums (ce_pubkey entry) in
     and_then (ok_or (checked_add amount (ce_amount entry)) (AmountOverflow (ce_pubkey entry) (im_mint market)))
       (\<lambda>amount'.
     and_then (ok_or (checked_add locked (locked_or_zero entry)) (LockedAmountOverflow (ce_pubkey entry) (im_mint market)))
       (\<lambda>locked'.
     add_entries pubkey_from_str market (bt_insert (ce_pubkey entry) (amount', locked') sums) entries)))"

definition group_of :: "mint_groups \<Rightarrow> if_market \<Rightarrow> if_market \<times> claimant_sums" where
  "group_of groups market = (case map_of groups (im_mint market) of Some g \<Rightarrow> g | None \<Rightarrow> (market, []))"

definition lower_index :: "if_market \<Rightarrow> if_market \<Rightarrow> if_market" where
  "lower_index market kept = (if im_index market < im_index kept then market else kept)"

fun add_markets ::
  "(string \<Rightarrow> pubkey option) \<Rightarrow> mint_groups \<Rightarrow> (if_market \<times> csv_entry list) list \<Rightarrow> aggregate_error + mint_groups" where
  "add_markets pubkey_from_str groups [] = Inr groups"
| "add_markets pubkey_from_str groups ((market, entries) # inputs) =
     (let (kept, sums) = group_of groups market in
     and_then (add_entries pubkey_from_str market sums entries) (\<lambda>sums'.
     add_markets pubkey_from_str (bt_insert (im_mint market) (lower_index market kept, sums') groups) inputs))"

definition merge_group :: "(if_market \<times> csv_entry list) list \<Rightarrow> string \<times> (if_market \<times> claimant_sums) \<Rightarrow> merged_mint" where
  "merge_group inputs g =
     (let (mint, rep, sums) = g in
     \<lparr>mm_mint = mint, mm_symbol = im_symbol rep, mm_index = im_index rep,
      mm_source_markets = sort (map (\<lambda>(m, _). im_index m) (filter (\<lambda>(m, _). im_mint m = mint) inputs)),
      mm_entries = map (\<lambda>(pubkey, amount, locked).
        \<lparr>ce_pubkey = pubkey, ce_amount = amount, ce_locked_amount = Some locked\<rparr>) sums\<rparr>)"

definition aggregate_if_entries ::
  "(string \<Rightarrow> pubkey option) \<Rightarrow> (if_market \<times> csv_entry list) list \<Rightarrow> aggregate_error + merged_mint list" where
  "aggregate_if_entries pubkey_from_str inputs =
     and_then (add_markets pubkey_from_str [] inputs) (\<lambda>groups. Inr (map (merge_group inputs) groups))"

section \<open>The command\<close>

record if_config =
  ic_markets :: "if_market list"
  ic_csv_dir :: "string option"

record aggregate_args =
  ag_config :: string
  ag_csv_dir :: "string option"
  ag_out_csv_dir :: string
  ag_out_config :: string

text \<open>What is written: the CSV files in order, each a list of records, and the merged configuration.\<close>

record aggregate_output =
  ao_files :: "(string \<times> string list list) list"
  ao_markets :: "merged_mint list"
  ao_csv_dir :: string

definition join_path :: "string \<Rightarrow> string \<Rightarrow> string" where
  "join_path dir file = dir @ ''/'' @ file"

definition label :: "u64 \<Rightarrow> string \<Rightarrow> string" where
  "label index symbol = show_u64 index @ ''-'' @ symbol"

definition market_csv_path :: "string \<Rightarrow> if_market \<Rightarrow> string" where
  "market_csv_path csv_dir market = join_path csv_dir (label (im_index market) (im_symbol market) @ ''.csv'')"

definition csv_record :: "csv_entry \<Rightarrow> string list" where
  "csv_record entry = [ce_pubkey entry, show_u64 (ce_amount entry), show_u64 (locked_or_zero entry)]"

definition merged_file :: "string \<Rightarrow> merged_mint \<Rightarrow> string \<times> string list list" where
  "merged_file out_csv_dir m =
     (join_path out_csv_dir (label (mm_index m) (mm_symbol m) @ ''.csv''),
      [''pubkey'', ''amount'', ''locked_amount''] # map csv_record (mm_entries m))"

definition process_aggregate_if_csvs ::
  "(string \<Rightarrow> pubkey option) \<Rightarrow> (string \<Rightarrow> csv_entry list option) \<Rightarrow> if_config \<Rightarrow> aggregate_args
     \<Rightarrow> aggregate_error failure + aggregate_output" where
  "process_aggregate_if_csvs pubkey_from_str read_csv config args =
     require (ic_markets config \<noteq> []) Panicked (
     and_then (or_panic (case ag_csv_dir args of Some dir \<Rightarrow> Some dir | None \<Rightarrow> ic_csv_dir config)) (\<lambda>csv_dir.
     and_then (collect_results (\<lambda>market.
         and_then (or_panic (read_csv (market_csv_path csv_dir market))) (\<lambda>entries. Inr (market, entries)))
         (ic_markets config)) (\<lambda>inputs.
     and_then (map_err (\<lambda>_. Panicked) (aggregate_if_entries pubkey_from_str inputs)) (\<lambda>merged.
     Inr \<lparr>ao_files = map (merged_file (ag_out_csv_dir args)) merged, ao_markets = merged,
          ao_csv_dir = ag_out_csv_dir args\<rparr>))))"

section \<open>The sums\<close>

definition entries_amount :: "string \<Rightarrow> csv_entry list \<Rightarrow> nat" where
  "entries_amount p es = sum_list (map (\<lambda>e. unat (ce_amount e)) (filter (\<lambda>e. ce_pubkey e = p) es))"

definition entries_locked :: "string \<Rightarrow> csv_entry list \<Rightarrow> nat" where
  "entries_locked p es = sum_list (map (\<lambda>e. unat (locked_or_zero e)) (filter (\<lambda>e. ce_pubkey e = p) es))"

definition rows_of :: "string \<Rightarrow> (if_market \<times> csv_entry list) list \<Rightarrow> csv_entry list" where
  "rows_of mint inputs = concat (map snd (filter (\<lambda>(m, _). im_mint m = mint) inputs))"

lemma entries_simps [simp]:
  "entries_amount p [] = 0" "entries_locked p [] = 0"
  "entries_amount p (e # es) = (if ce_pubkey e = p then unat (ce_amount e) else 0) + entries_amount p es"
  "entries_locked p (e # es) = (if ce_pubkey e = p then unat (locked_or_zero e) else 0) + entries_locked p es"
  "entries_amount p (es @ fs) = entries_amount p es + entries_amount p fs"
  "entries_locked p (es @ fs) = entries_locked p es + entries_locked p fs"
  by (simp_all add: entries_amount_def entries_locked_def)

text \<open>What adding rows to sums gives: exact sums, when the rows are valid and the sums fit.\<close>

definition sums_fit :: "(string \<Rightarrow> pubkey option) \<Rightarrow> claimant_sums \<Rightarrow> csv_entry list \<Rightarrow> bool" where
  "sums_fit parse sums es \<longleftrightarrow>
     (\<forall>e \<in> set es. parse (ce_pubkey e) \<noteq> None)
     \<and> (\<forall>p. unat (fst (sums_of sums p)) + entries_amount p es < 2 ^ 64
          \<and> unat (snd (sums_of sums p)) + entries_locked p es < 2 ^ 64)"

definition sums_added :: "claimant_sums \<Rightarrow> csv_entry list \<Rightarrow> claimant_sums \<Rightarrow> bool" where
  "sums_added sums es sums' \<longleftrightarrow>
     ascending sums'
     \<and> (\<forall>p. unat (fst (sums_of sums' p)) = unat (fst (sums_of sums p)) + entries_amount p es
          \<and> unat (snd (sums_of sums' p)) = unat (snd (sums_of sums p)) + entries_locked p es)
     \<and> dom (map_of sums') = dom (map_of sums) \<union> ce_pubkey ` set es"

lemma sums_of_insert:
  "ascending sums \<Longrightarrow> sums_of (bt_insert k v sums) p = (if p = k then v else sums_of sums p)"
  by (simp add: sums_of_def btree.lookup_insert)

lemma sums_fit_Cons:
  assumes "ascending sums" "a = fst (sums_of sums (ce_pubkey e))" "l = snd (sums_of sums (ce_pubkey e))"
  shows "sums_fit parse sums (e # es) \<longleftrightarrow>
    parse (ce_pubkey e) \<noteq> None \<and> unat a + unat (ce_amount e) < 2 ^ 64 \<and> unat l + unat (locked_or_zero e) < 2 ^ 64
    \<and> sums_fit parse (bt_insert (ce_pubkey e) (a + ce_amount e, l + locked_or_zero e) sums) es" (is "?l \<longleftrightarrow> ?r")
proof (cases "unat a + unat (ce_amount e) < 2 ^ 64 \<and> unat l + unat (locked_or_zero e) < 2 ^ 64")
  case True
  let ?s = "bt_insert (ce_pubkey e) (a + ce_amount e, l + locked_or_zero e) sums"
  have "unat (fst (sums_of ?s p)) + entries_amount p es = unat (fst (sums_of sums p)) + entries_amount p (e # es)"
    "unat (snd (sums_of ?s p)) + entries_locked p es = unat (snd (sums_of sums p)) + entries_locked p (e # es)" for p
    using True assms unat_add_ok [of a "ce_amount e"] unat_add_ok [of l "locked_or_zero e"]
    by (auto simp: sums_of_insert)
  with True show ?thesis by (auto simp: sums_fit_def)
next
  case False
  have "\<not> sums_fit parse sums (e # es)"
  proof
    assume "sums_fit parse sums (e # es)"
    then have "unat a + entries_amount (ce_pubkey e) (e # es) < 2 ^ 64" "unat l + entries_locked (ce_pubkey e) (e # es) < 2 ^ 64"
      using assms(2,3) by (auto simp only: sums_fit_def)
    with False show False by simp
  qed
  with False show ?thesis by blast
qed

lemma sums_added_Cons:
  assumes "ascending sums" "a = fst (sums_of sums (ce_pubkey e))" "l = snd (sums_of sums (ce_pubkey e))"
    and "unat a' = unat a + unat (ce_amount e)" "unat l' = unat l + unat (locked_or_zero e)"
    and "sums_added (bt_insert (ce_pubkey e) (a', l') sums) es sums'"
  shows "sums_added sums (e # es) sums'"
proof -
  have "unat (fst (sums_of (bt_insert (ce_pubkey e) (a', l') sums) p)) = unat (fst (sums_of sums p)) + entries_amount p [e]"
    "unat (snd (sums_of (bt_insert (ce_pubkey e) (a', l') sums) p)) = unat (snd (sums_of sums p)) + entries_locked p [e]" for p
    using assms(1-5) by (auto simp: sums_of_insert)
  moreover have "dom (map_of (bt_insert (ce_pubkey e) (a', l') sums)) = dom (map_of sums) \<union> {ce_pubkey e}"
    using assms(1) by (auto simp: btree.lookup_insert)
  ultimately show ?thesis using assms(6) by (simp add: sums_added_def add.assoc)
qed

lemma add_entries_exact:
  "ascending sums \<Longrightarrow>
   (if sums_fit parse sums es then \<exists>sums'. add_entries parse market sums es = Inr sums' \<and> sums_added sums es sums'
    else \<exists>e. add_entries parse market sums es = Inl e)"
proof (induction es arbitrary: sums)
  case Nil
  then show ?case using unat_u64_bound by (simp add: sums_fit_def sums_added_def)
next
  case (Cons e es)
  obtain a l where al: "sums_of sums (ce_pubkey e) = (a, l)" by fastforce
  then have eqs: "a = fst (sums_of sums (ce_pubkey e))" "l = snd (sums_of sums (ce_pubkey e))" by simp_all
  note fits = sums_fit_Cons [OF Cons.prems eqs, of parse es]
  show ?case
  proof (cases "parse (ce_pubkey e) \<noteq> None \<and> unat a + unat (ce_amount e) < 2 ^ 64 \<and> unat l + unat (locked_or_zero e) < 2 ^ 64")
    case True
    then have add: "checked_add a (ce_amount e) = Some (a + ce_amount e)"
      "checked_add l (locked_or_zero e) = Some (l + locked_or_zero e)"
      and sums: "unat (a + ce_amount e) = unat a + unat (ce_amount e)"
      "unat (l + locked_or_zero e) = unat l + unat (locked_or_zero e)"
      by (simp_all add: checked_add_def unat_add_ok)
    let ?s = "bt_insert (ce_pubkey e) (a + ce_amount e, l + locked_or_zero e) sums"
    have step: "add_entries parse market sums (e # es) = add_entries parse market ?s es"
      using True al add by simp
    have fit: "sums_fit parse sums (e # es) \<longleftrightarrow> sums_fit parse ?s es"
      using fits True by blast
    have "sums_added sums (e # es) sums'" if "sums_added ?s es sums'" for sums'
      using sums_added_Cons [OF Cons.prems eqs sums that] .
    then show ?thesis
      using Cons.IH [of ?s] bt_insert_ascending [OF Cons.prems] unfolding step fit by (auto split: if_splits)
  next
    case False
    then have "\<not> sums_fit parse sums (e # es)" using fits by blast
    moreover have "\<exists>x. add_entries parse market sums (e # es) = Inl x"
      using False al
      by (cases "parse (ce_pubkey e)"; cases "checked_add a (ce_amount e)"; cases "checked_add l (locked_or_zero e)")
        (auto simp: checked_add_def split: if_splits)
    ultimately show ?thesis by simp
  qed
qed

section \<open>The groups\<close>

definition lowest :: "string \<Rightarrow> (if_market \<times> csv_entry list) list \<Rightarrow> if_market \<Rightarrow> bool" where
  "lowest mint inputs rep \<longleftrightarrow>
     rep \<in> fst ` set inputs \<and> im_mint rep = mint
     \<and> (\<forall>(m, _) \<in> set inputs. im_mint m = mint \<longrightarrow> im_index rep \<le> im_index m)"

definition has_mint :: "string \<Rightarrow> (if_market \<times> csv_entry list) list \<Rightarrow> bool" where
  "has_mint mint inputs \<longleftrightarrow> (\<exists>m es. (m, es) \<in> set inputs \<and> im_mint m = mint)"

definition grouped :: "(if_market \<times> csv_entry list) list \<Rightarrow> mint_groups \<Rightarrow> bool" where
  "grouped inputs groups \<longleftrightarrow>
     ascending groups
     \<and> (\<forall>mint. map_of groups mint = None \<longrightarrow> \<not> has_mint mint inputs)
     \<and> (\<forall>mint rep sums. map_of groups mint = Some (rep, sums) \<longrightarrow>
          lowest mint inputs rep \<and> sums_added [] (rows_of mint inputs) sums)"

definition fits :: "(string \<Rightarrow> pubkey option) \<Rightarrow> (if_market \<times> csv_entry list) list \<Rightarrow> bool" where
  "fits parse inputs \<longleftrightarrow> (\<forall>mint. sums_fit parse [] (rows_of mint inputs))"

lemma sums_of_Nil [simp]: "sums_of [] p = (0, 0)"
  by (simp add: sums_of_def)

lemma rows_of_simps [simp]:
  "rows_of mint [] = []"
  "rows_of mint (inputs @ inputs') = rows_of mint inputs @ rows_of mint inputs'"
  "rows_of mint ((m, es) # inputs) = (if im_mint m = mint then es else []) @ rows_of mint inputs"
  by (simp_all add: rows_of_def)

lemma rows_of_none: "\<not> has_mint mint inputs \<Longrightarrow> rows_of mint inputs = []"
  by (auto simp: rows_of_def has_mint_def filter_empty_conv)

lemma sums_fit_on:
  assumes "sums_added [] ds sums" "\<forall>e \<in> set ds. parse (ce_pubkey e) \<noteq> None"
  shows "sums_fit parse sums es \<longleftrightarrow> sums_fit parse [] (ds @ es)"
  using assms by (auto simp: sums_fit_def sums_added_def)

lemma sums_added_append:
  "sums_added [] ds sums \<Longrightarrow> sums_added sums es sums' \<Longrightarrow> sums_added [] (ds @ es) sums'"
  by (auto simp: sums_added_def)

lemma sums_fit_prefix: "sums_fit parse [] (ds @ es) \<Longrightarrow> sums_fit parse [] ds"
  by (auto simp: sums_fit_def intro: add_lessD1)

lemma group_ofD:
  assumes "grouped inputs groups" "group_of groups m = (kept, sums)"
  shows "sums_added [] (rows_of (im_mint m) inputs) sums"
    and "lowest (im_mint m) (inputs @ [(m, es)]) (lower_index m kept)"
proof -
  have "sums_added [] (rows_of (im_mint m) inputs) sums \<and> lowest (im_mint m) (inputs @ [(m, es)]) (lower_index m kept)"
  proof (cases "map_of groups (im_mint m)")
    case None
    then have none: "\<not> has_mint (im_mint m) inputs" "kept = m" "sums = []"
      using assms by (simp_all add: grouped_def group_of_def)
    from none(1) show ?thesis unfolding none(2,3) rows_of_none [OF none(1)]
      by (auto simp: sums_added_def lowest_def lower_index_def ascending_def has_mint_def)
  next
    case (Some g)
    with assms have g: "map_of groups (im_mint m) = Some (kept, sums)" by (simp add: group_of_def)
    then have "lowest (im_mint m) inputs kept" "sums_added [] (rows_of (im_mint m) inputs) sums"
      using assms(1) unfolding grouped_def by blast+
    then show ?thesis by (auto simp: lowest_def lower_index_def)
  qed
  then show "sums_added [] (rows_of (im_mint m) inputs) sums"
    and "lowest (im_mint m) (inputs @ [(m, es)]) (lower_index m kept)" by simp_all
qed

lemma grouped_step:
  assumes "grouped inputs groups" "group_of groups m = (kept, sums)" "sums_added sums es sums'"
  shows "grouped (inputs @ [(m, es)]) (bt_insert (im_mint m) (lower_index m kept, sums') groups)"
proof -
  have asc: "ascending groups" using assms(1) by (simp add: grouped_def)
  have other: "lowest mint (inputs @ [(m, es)]) rep \<longleftrightarrow> lowest mint inputs rep" if "mint \<noteq> im_mint m" for mint rep
    using that by (auto simp: lowest_def)
  have "has_mint mint (inputs @ [(m, es)]) \<longleftrightarrow> has_mint mint inputs" if "mint \<noteq> im_mint m" for mint
    using that by (auto simp: has_mint_def)
  moreover have "sums_added [] (rows_of (im_mint m) (inputs @ [(m, es)])) sums'"
    using sums_added_append [OF group_ofD(1) [OF assms(1,2)] assms(3)] by simp
  ultimately show ?thesis
    using assms(1) group_ofD(2) [OF assms(1,2)] other unfolding grouped_def
    by (auto simp: bt_insert_ascending btree.lookup_insert [OF asc])
qed

lemma fits_step:
  assumes "fits parse inputs" "sums_fit parse [] (rows_of (im_mint m) inputs @ es)"
  shows "fits parse (inputs @ [(m, es)])"
  using assms by (simp add: fits_def)

lemma fits_prefix: "fits parse (inputs @ inputs') \<Longrightarrow> fits parse inputs"
  by (auto simp: fits_def intro: sums_fit_prefix)

lemma add_markets_exact:
  assumes "grouped done groups" "fits parse done"
  shows "if fits parse (done @ inputs) then \<exists>g. add_markets parse groups inputs = Inr g \<and> grouped (done @ inputs) g
    else \<exists>e. add_markets parse groups inputs = Inl e"
  using assms
proof (induction inputs arbitrary: "done" groups)
  case (Cons i inputs)
  obtain m es where i: "i = (m, es)" by fastforce
  obtain kept sums where g: "group_of groups m = (kept, sums)" by fastforce
  note sums = group_ofD(1) [OF Cons.prems(1) g]
  have valid: "\<forall>e \<in> set (rows_of (im_mint m) done). parse (ce_pubkey e) \<noteq> None"
    using Cons.prems(2) unfolding fits_def sums_fit_def by blast
  have fit: "sums_fit parse sums es \<longleftrightarrow> sums_fit parse [] (rows_of (im_mint m) done @ es)"
    by (rule sums_fit_on [OF sums valid])
  have asc: "ascending sums" using sums by (simp add: sums_added_def)
  show ?case
  proof (cases "sums_fit parse sums es")
    case True
    with add_entries_exact [OF asc, of parse es m] obtain sums' where s': "add_entries parse m sums es = Inr sums'"
      "sums_added sums es sums'" by auto
    have step: "add_markets parse groups (i # inputs)
        = add_markets parse (bt_insert (im_mint m) (lower_index m kept, sums') groups) inputs"
      using i g s'(1) by simp
    have eq: "done @ i # inputs = (done @ [(m, es)]) @ inputs" using i by simp
    show ?thesis unfolding step eq
      by (rule Cons.IH [OF grouped_step [OF Cons.prems(1) g s'(2)] fits_step [OF Cons.prems(2) True [unfolded fit]]])
  next
    case False
    with add_entries_exact [OF asc, of parse es m] obtain e where "add_entries parse m sums es = Inl e" by auto
    then have "add_markets parse groups (i # inputs) = Inl e" using i g by simp
    moreover have "\<not> fits parse (done @ i # inputs)"
    proof
      assume "fits parse (done @ i # inputs)"
      then have "fits parse ((done @ [i]) @ inputs)" by simp
      then have "sums_fit parse [] (rows_of (im_mint m) (done @ [i]))" using fits_prefix unfolding fits_def by blast
      with False fit i show False by simp
    qed
    ultimately show ?thesis by simp
  qed
qed simp

section \<open>What the merged mints hold\<close>

definition merged_from :: "(if_market \<times> csv_entry list) list \<Rightarrow> merged_mint \<Rightarrow> bool" where
  "merged_from inputs m \<longleftrightarrow>
     (let rows = rows_of (mm_mint m) inputs in
     (\<exists>rep. lowest (mm_mint m) inputs rep \<and> mm_index m = im_index rep \<and> mm_symbol m = im_symbol rep)
     \<and> mm_source_markets m = sort (map (im_index \<circ> fst) (filter (\<lambda>(mk, _). im_mint mk = mm_mint m) inputs))
     \<and> sorted_wrt (<) (map ce_pubkey (mm_entries m)) \<and> ce_pubkey ` set (mm_entries m) = ce_pubkey ` set rows
     \<and> (\<forall>e \<in> set (mm_entries m). unat (ce_amount e) = entries_amount (ce_pubkey e) rows
          \<and> (\<exists>l. ce_locked_amount e = Some l \<and> unat l = entries_locked (ce_pubkey e) rows)))"

lemma merge_group_mint [simp]: "mm_mint (merge_group inputs g) = fst g"
  by (cases g) (simp add: merge_group_def)

lemma merge_group_from:
  assumes "grouped inputs groups" "(mint, rep, sums) \<in> set groups"
  shows "merged_from inputs (merge_group inputs (mint, rep, sums))"
proof -
  have "map_of groups mint = Some (rep, sums)" using assms by (simp add: grouped_def btree.item_iff)
  with assms(1) have low: "lowest mint inputs rep" and added: "sums_added [] (rows_of mint inputs) sums"
    unfolding grouped_def by blast+
  have asc: "ascending sums" using added by (simp add: sums_added_def)
  have keys: "fst ` set sums = ce_pubkey ` set (rows_of mint inputs)"
    using added by (simp add: sums_added_def dom_map_of_conv_image_fst)
  have "unat a = entries_amount p (rows_of mint inputs) \<and> unat l = entries_locked p (rows_of mint inputs)"
    if "(p, a, l) \<in> set sums" for p a l
  proof -
    have "sums_of sums p = (a, l)" using that asc by (simp add: sums_of_def btree.item_iff)
    then show ?thesis using added unfolding sums_added_def by (metis fst_conv snd_conv sums_of_Nil unat_0 add_0)
  qed
  then show ?thesis using low asc keys
    unfolding merged_from_def merge_group_def Let_def
    by (auto simp: ascending_def comp_def case_prod_beta image_image intro: arg_cong [where f = sort])
qed

section \<open>From merged rows to leaves\<close>

lemma from_csv_Inr:
  "from_csv parse e dec unit = Inr n \<longleftrightarrow>
     (\<exists>a la c. csv_amount_to_base_units (ce_amount e) dec unit = Inr a
        \<and> (case ce_locked_amount e of Some l \<Rightarrow> (\<exists>x. csv_amount_to_base_units l dec unit = Inr x \<and> la = Some x) | None \<Rightarrow> la = None)
        \<and> parse (ce_pubkey e) = Some c
        \<and> n = \<lparr>tn_claimant = c, tn_amount = a, tn_locked_amount = la, tn_proof = None\<rparr>)"
  by (auto simp: from_csv_def ok_iff split: option.splits)

lemma amount_of_single:
  assumes "distinct (map tn_claimant rows)" "r \<in> set rows"
  shows "amount_of (tn_claimant r) rows = unat (tn_amount r)" "locked_of (tn_claimant r) rows = unat (node_locked_amount r)"
proof -
  have "filter (\<lambda>n. tn_claimant n = tn_claimant r) rows = [r]"
    using assms
  proof (induction rows)
    case (Cons n rows)
    then show ?case by (auto simp: filter_empty_conv) (metis image_eqI)+
  qed simp
  then show "amount_of (tn_claimant r) rows = unat (tn_amount r)" "locked_of (tn_claimant r) rows = unat (node_locked_amount r)"
    by (simp_all add: amount_of_def locked_of_def)
qed

lemma distinct_rows:
  assumes "list_all2 (\<lambda>e n. from_csv parse e dec unit = Inr n) es rows" "distinct (map ce_pubkey es)"
    and "inj_on parse {p. parse p \<noteq> None}"
  shows "distinct (map tn_claimant rows)"
proof -
  have eq: "map (parse \<circ> ce_pubkey) es = map (Some \<circ> tn_claimant) rows"
    using assms(1) by (induction rule: list_all2_induct) (auto simp: from_csv_Inr)
  have "set (map ce_pubkey es) \<subseteq> {p. parse p \<noteq> None}"
  proof
    fix p
    assume "p \<in> set (map ce_pubkey es)"
    then have "parse p \<in> set (map (parse \<circ> ce_pubkey) es)" by auto
    then show "p \<in> {p. parse p \<noteq> None}" unfolding eq by auto
  qed
  then have "inj_on parse (set (map ce_pubkey es))" using assms(3) by (rule inj_on_subset [rotated])
  then have "distinct (map parse (map ce_pubkey es))" using assms(2) by (simp only: distinct_map conj_absorb)
  then have "distinct (map Some (map tn_claimant rows))" using eq by simp
  then show ?thesis by (simp only: distinct_map)
qed

lemma aggregate_merged:
  assumes "aggregate_if_entries parse inputs = Inr merged" "m \<in> set merged"
  shows "merged_from inputs m"
proof -
  have start: "grouped [] []" "fits parse []"
    by (auto simp: grouped_def ascending_def has_mint_def fits_def sums_fit_def)
  from assms(1) obtain g where g: "add_markets parse [] inputs = Inr g" "merged = map (merge_group inputs) g"
    by (auto simp: aggregate_if_entries_def ok_iff)
  then have "grouped inputs g" using add_markets_exact [OF start, of inputs] by (auto split: if_splits)
  then show ?thesis using assms(2) g(2) merge_group_from by auto
qed

section \<open>Properties\<close>

text \<open>C28: The outcome of the aggregation on every input. It fails exactly when some row's key is not a public key
  or some claimant's amounts or locked amounts within one mint do not fit 64 bits together. Otherwise it
  returns one market per mint, by ascending mint, with the label of the lowest-index source market, all
  source indices, and one row per claimant of the mint, by ascending key, carrying exactly the sums of the
  claimant's amounts and locked amounts over all source markets.\<close>

theorem aggregate_outcome:
  "if fits parse inputs
   then \<exists>merged. aggregate_if_entries parse inputs = Inr merged \<and> sorted_wrt (<) (map mm_mint merged)
     \<and> mm_mint ` set merged = (im_mint \<circ> fst) ` set inputs \<and> list_all (merged_from inputs) merged
   else \<exists>e. aggregate_if_entries parse inputs = Inl e"
proof -
  have start: "grouped [] []" "fits parse []"
    by (auto simp: grouped_def ascending_def has_mint_def fits_def sums_fit_def)
  show ?thesis
  proof (cases "fits parse inputs")
    case True
    with add_markets_exact [OF start, of inputs] obtain g where g: "add_markets parse [] inputs = Inr g" "grouped inputs g"
      by auto
    have asc: "ascending g" using g(2) by (simp add: grouped_def)
    have "fst ` set g = (im_mint \<circ> fst) ` set inputs"
    proof (intro set_eqI iffI)
      fix mint
      assume "mint \<in> fst ` set g"
      then obtain rep sums where "map_of g mint = Some (rep, sums)" using btree.item_iff [OF asc] by fastforce
      then have "lowest mint inputs rep" using g(2) unfolding grouped_def by blast
      then show "mint \<in> (im_mint \<circ> fst) ` set inputs" by (auto simp: lowest_def)
    next
      fix mint
      assume "mint \<in> (im_mint \<circ> fst) ` set inputs"
      then have "has_mint mint inputs" by (force simp: has_mint_def)
      then have "map_of g mint \<noteq> None" using g(2) unfolding grouped_def by blast
      then show "mint \<in> fst ` set g" by (simp add: map_of_eq_None_iff)
    qed
    moreover have "\<forall>m \<in> set (map (merge_group inputs) g). merged_from inputs m"
      using merge_group_from [OF g(2)] by auto
    ultimately show ?thesis using True g(1) asc
      by (simp add: aggregate_if_entries_def ascending_def image_image comp_def list_all_iff)
  next
    case False
    with add_markets_exact [OF start, of inputs] obtain e where "add_markets parse [] inputs = Inl e" by auto
    with False show ?thesis by (simp add: aggregate_if_entries_def)
  qed
qed

text \<open>C29: Aggregating and then building the tree pays every claimant the sum over the markets. If the tree is
  built from the rows of a merged mint, it has exactly one leaf per row (the builder has nothing left to
  combine, provided two texts never denote the same key), and the leaf of each claimant carries the sum of
  the claimant's amounts, and of the locked amounts, over all source markets of the mint, scaled to base units.\<close>

theorem aggregate_then_build:
  assumes "aggregate_if_entries parse inputs = Inr merged" "m \<in> set merged"
    and "inj_on parse {p. parse p \<noteq> None}"
    and "new_from_entries hashv parse (mm_entries m) version dec unit = Inr tree"
    and "p \<in> ce_pubkey ` set (rows_of (mm_mint m) inputs)"
  shows "length (at_tree_nodes tree) = length (mm_entries m)
    \<and> (\<exists>n \<in> set (at_tree_nodes tree). \<exists>e. parse p = Some (tn_claimant n) \<and> unit_exponent unit dec = Some e
         \<and> unat (tn_amount n) = entries_amount p (rows_of (mm_mint m) inputs) * 10 ^ e
         \<and> unat (node_locked_amount n) = entries_locked p (rows_of (mm_mint m) inputs) * 10 ^ e)"
proof -
  note from_inputs = aggregate_merged [OF assms(1,2), unfolded merged_from_def Let_def]
  have dis: "distinct (map ce_pubkey (mm_entries m))" using from_inputs strict_sorted_iff by blast
  from assms(4) obtain rows where rows: "list_all2 (\<lambda>e n. from_csv parse e dec unit = Inr n) (mm_entries m) rows"
    "airdrop_new hashv rows version = Inr tree"
    by (auto simp: new_from_entries_def ok_iff)
  have built: "built_from hashv rows tree" using rows(2) by (rule airdrop_new_built)
  note dis_rows = distinct_rows [OF rows(1) dis assms(3)]
  have claimants: "map tn_claimant (at_tree_nodes tree) = map tn_claimant rows"
    using built dis_rows by (simp add: built_from_def)
  have "ce_pubkey ` set (mm_entries m) = ce_pubkey ` set (rows_of (mm_mint m) inputs)" using from_inputs by blast
  then have "p \<in> ce_pubkey ` set (mm_entries m)" using assms(5) by simp
  then obtain e where e: "e \<in> set (mm_entries m)" "ce_pubkey e = p" by auto
  then obtain i where i: "i < length (mm_entries m)" "mm_entries m ! i = e" by (auto simp: in_set_conv_nth)
  define r where "r = rows ! i"
  have r: "r \<in> set rows" "from_csv parse e dec unit = Inr r"
    using list_all2_nthD [OF rows(1) i(1)] list_all2_lengthD [OF rows(1)] i by (simp_all add: r_def)
  have "tn_claimant r \<in> set (map tn_claimant (at_tree_nodes tree))" using r(1) unfolding claimants by simp
  then obtain n where n: "n \<in> set (at_tree_nodes tree)" "tn_claimant n = tn_claimant r" by auto
  have am: "unat (tn_amount n) = unat (tn_amount r)" "unat (node_locked_amount n) = unat (node_locked_amount r)"
    using built n amount_of_single [OF dis_rows r(1)] by (auto simp: built_from_def)
  obtain l where l: "ce_locked_amount e = Some l" "unat l = entries_locked p (rows_of (mm_mint m) inputs)"
    "unat (ce_amount e) = entries_amount p (rows_of (mm_mint m) inputs)"
    using from_inputs e by blast
  have "\<exists>x. unit_exponent unit dec = Some x \<and> unat (tn_amount r) = unat (ce_amount e) * 10 ^ x
      \<and> unat (node_locked_amount r) = unat l * 10 ^ x" and "parse p = Some (tn_claimant r)"
    using r(2) l(1) e(2) by (auto simp: from_csv_Inr csv_base_units_Inr node_locked_amount_def)
  moreover have "length (at_tree_nodes tree) = length (mm_entries m)"
    using arg_cong [OF claimants, of length] list_all2_lengthD [OF rows(1)] by simp
  ultimately show ?thesis using n am l(2,3) by (intro conjI bexI [of _ n]) auto
qed

text \<open>Two markets of one mint and one claimant, the key "a".\<close>

definition demo_parse :: "string \<Rightarrow> pubkey option" where
  "demo_parse s = (if s = ''a'' then Some (Pubkey 1) else None)"

definition demo_markets :: "(if_market \<times> csv_entry list) list" where
  "demo_markets =
     [(\<lparr>im_index = 4, im_symbol = ''X'', im_mint = ''m''\<rparr>, [\<lparr>ce_pubkey = ''a'', ce_amount = 5, ce_locked_amount = None\<rparr>]),
      (\<lparr>im_index = 2, im_symbol = ''Y'', im_mint = ''m''\<rparr>, [\<lparr>ce_pubkey = ''a'', ce_amount = 7, ce_locked_amount = Some 3\<rparr>])]"

definition demo_merged :: merged_mint where
  "demo_merged = \<lparr>mm_mint = ''m'', mm_symbol = ''Y'', mm_index = 2, mm_source_markets = [2, 4],
     mm_entries = [\<lparr>ce_pubkey = ''a'', ce_amount = 12, ce_locked_amount = Some 3\<rparr>]\<rparr>"

lemma demo_aggregates: "aggregate_if_entries demo_parse demo_markets = Inr [demo_merged]"
  by (simp add: aggregate_if_entries_def demo_parse_def demo_markets_def demo_merged_def sums_of_def group_of_def
      checked_add_def locked_or_zero_def lower_index_def merge_group_def insort_key_def)

theorem aggregate_then_build_witness:
  "\<exists>tree n. new_from_entries (\<lambda>_. 0) demo_parse (mm_entries demo_merged) 0 0 Tokens = Inr tree
     \<and> n \<in> set (at_tree_nodes tree) \<and> demo_parse ''a'' = Some (tn_claimant n)
     \<and> unat (tn_amount n) = 12 \<and> unat (node_locked_amount n) = 3"
proof -
  let ?row = "\<lparr>tn_claimant = Pubkey 1, tn_amount = 12, tn_locked_amount = Some 3, tn_proof = None\<rparr>"
  obtain tree where "airdrop_new (\<lambda>_. 0) [?row] 0 = Inr tree"
    by (rule airdrop_new_ok [of "[?row]" "\<lambda>_. 0" 0]) (auto simp: node_total_def node_locked_amount_def)
  then have tree: "new_from_entries (\<lambda>_. 0) demo_parse (mm_entries demo_merged) 0 0 Tokens = Inr tree"
    by (simp add: new_from_entries_def demo_merged_def from_csv_def csv_amount_to_base_units_def checked_pow_def
        checked_mul_def demo_parse_def)
  have inj: "inj_on demo_parse {p. demo_parse p \<noteq> None}" by (auto simp: inj_on_def demo_parse_def split: if_splits)
  have rows: "''a'' \<in> ce_pubkey ` set (rows_of (mm_mint demo_merged) demo_markets)"
    "entries_amount ''a'' (rows_of (mm_mint demo_merged) demo_markets) = 12"
    "entries_locked ''a'' (rows_of (mm_mint demo_merged) demo_markets) = 3"
    by (simp_all add: demo_markets_def demo_merged_def locked_or_zero_def)
  from aggregate_then_build [OF demo_aggregates _ inj tree rows(1)] rows(2,3) tree show ?thesis
    by (auto simp: unit_exponent_def)
qed

end
