(* ===== verification/Cli_Trees.thy ===== *)
theory Cli_Trees
  imports If_Aggregate
begin

text \<open>
  The tool that turns a CSV into trees (\<^verbatim>\<open>cli/src/bin/instructions/process_create_merkle_tree.rs\<close>, with the
  lists of \<^verbatim>\<open>cli.rs\<close>, \<^verbatim>\<open>process_create_test_list.rs\<close> and \<^verbatim>\<open>process_find_airdrop_version.rs\<close>): it looks for
  the first version without a distributor, optionally takes the test wallets out, cuts the rows into
  trees of a maximal size with consecutive versions, and adds a tree of the test wallets.

  What the cluster answers for an address, the parsing of keys and of CSV files are parameters. The
  trees written are returned also when the tool panics later; a panic is the version \<open>None\<close>.
\<close>

section \<open>The next free version\<close>

datatype rpc_answer = Found | AccountNotFound | RpcFailure

definition VERSION_LIMIT :: u64 where
  "VERSION_LIMIT = 1000000000000000000"

function find_version :: "(u64 \<Rightarrow> rpc_answer) \<Rightarrow> u64 \<Rightarrow> u64 option" where
  "find_version account current_version =
     (if current_version < VERSION_LIMIT
      then case account current_version of
          AccountNotFound \<Rightarrow> Some current_version
        | _ \<Rightarrow> find_version account (current_version + 1)
      else None)"
  by pat_completeness auto
termination
proof (relation "measure (\<lambda>(account, v). unat VERSION_LIMIT - unat v)")
  have "unat (v + 1) = unat v + 1" if "v < VERSION_LIMIT" for v
    using that by (simp add: VERSION_LIMIT_def word_less_nat_alt unat_add_ok)
  then show "((account, v + 1), account, v) \<in> measure (\<lambda>(account, v). unat VERSION_LIMIT - unat v)"
    if "v < VERSION_LIMIT" for account :: "u64 \<Rightarrow> rpc_answer" and v
    using that by (simp add: word_less_nat_alt)
  then show "((account, v + 1), account, v) \<in> measure (\<lambda>(account, v). unat VERSION_LIMIT - unat v)"
    if "v < VERSION_LIMIT" for account :: "u64 \<Rightarrow> rpc_answer" and v
    using that by simp
qed simp

declare find_version.simps [simp del]

definition process_find_airdrop_version :: "(u64 \<Rightarrow> rpc_answer) \<Rightarrow> u64 option \<Rightarrow> u64 option" where
  "process_find_airdrop_version account start_airdrop_version =
     find_version account (case start_airdrop_version of Some v \<Rightarrow> v | None \<Rightarrow> 0)"

section \<open>Lists of wallets\<close>

definition get_pre_list :: "string list" where
  "get_pre_list =
     [''4FED9aSQhGfX43FrSUa6GgmNjBsy76GTe9UHig7r2nK6'', ''6PAG5Le18uDrwkWWyuMFF3N3G74ksShVbUR5L7uDJtFR'',
      ''HZ1g3FXyvDt4pC1p7mUFnA44UtPkXghGJUtoxw5TDi42'', ''7gcjNCwGKhFsfDgHwH6Ja4pM2xBJj47hJpexxMFDyBpM'',
      ''8LWr1b9bXN7vRAgSL1Gg8U36ZB7oHGDupRQYVcw4FiQ9'', ''9qkVBGAgPzixW8Fky7sTjAoAv6ZAZEymVGvmYvqVwFmR'',
      ''FtfVWjnft13vKCGHGj6QaZcHWP8GcvJKanXQY3JL3zd3'', ''6gS27oW41tRD4GHW5QXe3vQN9SkC7TyFFQmtuRtJRT9Q'',
      ''dRiaT3YueNdfkhRBkLnzE6TDf4b35uESgL3Boopzxj6'', ''DRiL3JgMc8Hdxv6TBkxDcan9qEm2JoBhFiWViQxupPo'',
      ''DriQrk2v2HsLigaqH2qJtpCQ3MrNLGvq8GTB6jtXC2F'', ''DriEp7U5awPuc6p4ZM8gFWWxS79Go7VQstkKaMiGwJb'',
      ''DriM2HACfSFeh5tHum2aRgfgFeRGy72qpbc4UsMkvLm'']"

definition get_test_list :: "string list" where
  "get_test_list =
     [''4zvTjdpyr3SAgLeSpCnq4KaHvX2j5SbkwxYydzbfqhRQ'', ''GMtwcuktJfrRcnyGktWW4Vab8cfjPcBy3xbuZgRegw6E'',
      ''6HQeT87Qgh8TkZPJVcbkZh8bQ3gW2st7ZJin8xEkvdWh'']"

section \<open>Cutting the rows into trees\<close>

text \<open>The unit as the command line has it, and its conversion.\<close>

datatype csv_amount_unit_cli = CliTokens | CliCents

fun into_csv_amount_unit :: "csv_amount_unit_cli \<Rightarrow> csv_amount_unit" where
  "into_csv_amount_unit CliTokens = Tokens"
| "into_csv_amount_unit CliCents = Cents"

record create_args =
  ca_csv_path :: string
  ca_merkle_tree_path :: string
  ca_max_nodes_per_tree :: u64
  ca_should_include_test_list :: bool
  ca_amount :: u64
  ca_decimals :: u32
  ca_csv_amount_unit :: csv_amount_unit_cli
  ca_start_airdrop_version :: "u64 option"

text \<open>The versions and trees written, and the next version unless the tool panicked.\<close>

type_synonym written = "(u64 \<times> airdrop_merkle_tree) list \<times> u64 option"

lemma new_from_entries_Nil: "new_from_entries hashv parse [] version dec unit = Inl (Err MerkleRootError)"
  by (simp add: new_from_entries_def airdrop_new_Nil)

text \<open>One tree: built, written to \<^verbatim>\<open>tree_<version>.json\<close>, version counted up.\<close>

definition write_tree ::
  "hash_fn \<Rightarrow> (string \<Rightarrow> pubkey option) \<Rightarrow> create_args \<Rightarrow> csv_entry list \<Rightarrow> u64 \<Rightarrow> written" where
  "write_tree hashv parse args entries version =
     (case new_from_entries hashv parse entries version (ca_decimals args) (into_csv_amount_unit (ca_csv_amount_unit args)) of
        Inl _ \<Rightarrow> ([], None)
      | Inr tree \<Rightarrow> ([(version, tree)], checked_add version 1))"

lemma write_tree_Nil: "write_tree hashv parse args [] version = ([], None)"
  by (simp add: write_tree_def new_from_entries_Nil)

function shard_trees ::
  "hash_fn \<Rightarrow> (string \<Rightarrow> pubkey option) \<Rightarrow> create_args \<Rightarrow> u64 \<Rightarrow> csv_entry list \<Rightarrow> written" where
  "shard_trees hashv parse args version csv_entries =
     (if csv_entries = [] then ([], Some version)
      else
        let last_index = min (unat (ca_max_nodes_per_tree args)) (length csv_entries);
            sub_tree = take last_index csv_entries;
            rest = drop last_index csv_entries in
        case write_tree hashv parse args sub_tree version of
          (trees, None) \<Rightarrow> (trees, None)
        | (trees, Some version') \<Rightarrow>
            let (trees', result) = shard_trees hashv parse args version' rest in (trees @ trees', result))"
  by pat_completeness auto
termination
proof (relation "measure (\<lambda>(hashv, parse, args, version, es). length es)")
  fix hashv :: hash_fn and parse args version es n sub rest w trees r version'
  assume h: "es \<noteq> []" "n = min (unat (ca_max_nodes_per_tree args)) (length es)" "sub = take n es" "rest = drop n es"
    "(trees, r) = write_tree hashv parse args sub version" "r = Some version'"
  have "sub \<noteq> []" using h(5,6) write_tree_Nil by fastforce
  then show "((hashv, parse, args, version', rest), hashv, parse, args, version, es)
      \<in> measure (\<lambda>(hashv, parse, args, version, es). length es)"
    using h(1-4) by auto
qed simp

declare shard_trees.simps [simp del]

definition start_version :: "(u64 \<Rightarrow> rpc_answer) \<Rightarrow> pubkey \<Rightarrow> create_args \<Rightarrow> u64" where
  "start_version account mint args =
     (if mint \<noteq> Pubkey 0 \<and> ca_start_airdrop_version args = None
      then (case find_version account 0 of Some v \<Rightarrow> v | None \<Rightarrow> 0)
      else (case ca_start_airdrop_version args of Some v \<Rightarrow> v | None \<Rightarrow> 0))"

definition trimmed :: "create_args \<Rightarrow> csv_entry list \<Rightarrow> csv_entry list" where
  "trimmed args csv_entries =
     (if ca_should_include_test_list args then filter (\<lambda>e. ce_pubkey e \<notin> set get_test_list) csv_entries else csv_entries)"

definition test_entries :: "create_args \<Rightarrow> csv_entry list" where
  "test_entries args = map (\<lambda>x. \<lparr>ce_pubkey = x, ce_amount = ca_amount args, ce_locked_amount = Some 0\<rparr>) get_test_list"

definition process_create_merkle_tree ::
  "hash_fn \<Rightarrow> (string \<Rightarrow> pubkey option) \<Rightarrow> (u64 \<Rightarrow> rpc_answer) \<Rightarrow> pubkey \<Rightarrow> create_args \<Rightarrow> csv_entry list \<Rightarrow> written" where
  "process_create_merkle_tree hashv parse account mint args csv_entries =
     (case shard_trees hashv parse args (start_version account mint args) (trimmed args csv_entries) of
        (trees, None) \<Rightarrow> (trees, None)
      | (trees, Some airdrop_version) \<Rightarrow>
          let (trees', result) =
            (if ca_should_include_test_list args then write_tree hashv parse args (test_entries args) airdrop_version
             else ([], Some airdrop_version)) in
          (trees @ trees', case result of Some v \<Rightarrow> checked_sub v 1 | None \<Rightarrow> None))"

record create_test_list_args =
  tl_csv_path :: string
  tl_merkle_tree_path :: string
  tl_amount :: u64
  tl_decimals :: u32

definition test_list_rows :: "create_test_list_args \<Rightarrow> string list list" where
  "test_list_rows args = [''pubkey'', ''amount''] # map (\<lambda>addr. [addr, show_u64 (tl_amount args)]) get_pre_list"

definition process_create_test_list ::
  "hash_fn \<Rightarrow> (string \<Rightarrow> pubkey option) \<Rightarrow> (u64 \<Rightarrow> rpc_answer) \<Rightarrow> (string list list \<Rightarrow> csv_entry list option)
     \<Rightarrow> pubkey \<Rightarrow> create_test_list_args \<Rightarrow> written" where
  "process_create_test_list hashv parse account read_csv mint args =
     (case read_csv (test_list_rows args) of
        None \<Rightarrow> ([], None)
      | Some csv_entries \<Rightarrow>
          process_create_merkle_tree hashv parse account mint
            \<lparr>ca_csv_path = tl_csv_path args, ca_merkle_tree_path = tl_merkle_tree_path args,
             ca_max_nodes_per_tree = tl_amount args, ca_should_include_test_list = False, ca_amount = tl_amount args,
             ca_decimals = tl_decimals args, ca_csv_amount_unit = CliTokens, ca_start_airdrop_version = None\<rparr> csv_entries)"

section \<open>What the trees hold together\<close>

lemma built_amounts:
  assumes "built_from h rows tree"
  shows "amount_of c (at_tree_nodes tree) = amount_of c rows" "locked_of c (at_tree_nodes tree) = locked_of c rows"
proof -
  have cl: "map tn_claimant (at_tree_nodes tree) = first_seen (map tn_claimant rows)" using assms by (simp add: built_from_def)
  then have dis: "distinct (map tn_claimant (at_tree_nodes tree))" by simp
  have im: "tn_claimant ` set (at_tree_nodes tree) = tn_claimant ` set rows" using arg_cong [OF cl, of set] by simp
  have "amount_of c (at_tree_nodes tree) = amount_of c rows \<and> locked_of c (at_tree_nodes tree) = locked_of c rows"
  proof (cases "c \<in> tn_claimant ` set (at_tree_nodes tree)")
    case True
    then obtain n where n: "n \<in> set (at_tree_nodes tree)" "tn_claimant n = c" by auto
    from amount_of_single [OF dis n(1)] n show ?thesis using assms by (auto simp: built_from_def)
  next
    case False
    then have "filter (\<lambda>n. tn_claimant n = c) (at_tree_nodes tree) = []" "filter (\<lambda>n. tn_claimant n = c) rows = []"
      using im by (auto simp: filter_empty_conv)
    then show ?thesis by (simp add: amount_of_def locked_of_def)
  qed
  then show "amount_of c (at_tree_nodes tree) = amount_of c rows" "locked_of c (at_tree_nodes tree) = locked_of c rows"
    by simp_all
qed

definition converts :: "(string \<Rightarrow> pubkey option) \<Rightarrow> create_args \<Rightarrow> csv_entry list \<Rightarrow> tree_node list \<Rightarrow> bool" where
  "converts parse args es rows \<longleftrightarrow>
     list_all2 (\<lambda>e n. from_csv parse e (ca_decimals args) (into_csv_amount_unit (ca_csv_amount_unit args)) = Inr n) es rows"

text \<open>Trees for some rows: consecutive versions, at most \<open>limit\<close> leaves each, and together exactly what the
  rows say, in total and for every claimant.\<close>

definition trees_for :: "nat \<Rightarrow> u64 \<Rightarrow> tree_node list \<Rightarrow> (u64 \<times> airdrop_merkle_tree) list \<Rightarrow> bool" where
  "trees_for limit version rows trees \<longleftrightarrow>
     map (unat \<circ> fst) trees = [unat version..<unat version + length trees]
     \<and> list_all (\<lambda>(v, t). at_airdrop_version t = v \<and> length (at_tree_nodes t) \<le> limit) trees
     \<and> sum_list (map (\<lambda>(v, t). unat (at_max_total_claim t)) trees) = sum_total rows
     \<and> (\<forall>c. sum_list (map (\<lambda>(v, t). amount_of c (at_tree_nodes t)) trees) = amount_of c rows
          \<and> sum_list (map (\<lambda>(v, t). locked_of c (at_tree_nodes t)) trees) = locked_of c rows)"

lemma trees_for_append:
  assumes "trees_for limit version rows trees" "trees_for limit version' rows' trees'"
    and "unat version' = unat version + length trees"
  shows "trees_for limit version (rows @ rows') (trees @ trees')"
proof -
  have "[k..<k + m] @ [k + m..<k + m + n] = [k..<k + m + n]" for k m n :: nat
    using upt_add_eq_append [of k "k + m" n] by simp
  then show ?thesis using assms by (simp add: trees_for_def amount_of_def locked_of_def add.assoc)
qed

lemma write_tree_ok:
  assumes "write_tree hashv parse args es version = (trees, Some version')" "length es \<le> limit"
  shows "\<exists>rows. converts parse args es rows \<and> trees_for limit version rows trees
    \<and> unat version' = unat version + length trees"
proof -
  from assms(1) obtain tree where t: "new_from_entries hashv parse es version (ca_decimals args) (into_csv_amount_unit (ca_csv_amount_unit args)) = Inr tree"
    "trees = [(version, tree)]" "checked_add version 1 = Some version'"
    by (auto simp: write_tree_def split: sum.splits)
  from t(1) obtain rows where rows: "converts parse args es rows" "airdrop_new hashv rows version = Inr tree"
    by (auto simp: new_from_entries_def ok_iff converts_def)
  note built = airdrop_new_built [OF rows(2)]
  have "length (at_tree_nodes tree) = length (first_seen (map tn_claimant rows))"
    using built(1) by (metis built_from_def length_map)
  also have "\<dots> \<le> length rows" by (simp add: first_seen_def) (metis length_map length_remdups_leq length_rev)
  also have "\<dots> \<le> limit" using assms(2) rows(1) by (simp add: converts_def list_all2_lengthD)
  finally have "trees_for limit version rows trees"
    using built(1,4) built_amounts [OF built(1)] t(2) by (simp add: trees_for_def built_from_def)
  with rows(1) t(2,3) show ?thesis by (auto simp: checked_add_Some)
qed

lemma shard_trees_ok:
  "shard_trees hashv parse args version es = (trees, Some version') \<Longrightarrow>
   \<exists>rows. converts parse args es rows \<and> trees_for (unat (ca_max_nodes_per_tree args)) version rows trees
     \<and> unat version' = unat version + length trees"
proof (induction hashv parse args version es arbitrary: trees rule: shard_trees.induct)
  case (1 hashv parse args version es)
  let ?limit = "unat (ca_max_nodes_per_tree args)"
  let ?n = "min ?limit (length es)"
  show ?case
  proof (cases "es = []")
    case True
    with "1.prems" show ?thesis
      by (simp add: shard_trees.simps converts_def trees_for_def amount_of_def locked_of_def)
  next
    case False
    from "1.prems" False obtain ts v ts' where w: "write_tree hashv parse args (take ?n es) version = (ts, Some v)"
      "shard_trees hashv parse args v (drop ?n es) = (ts', Some version')" "trees = ts @ ts'"
      by (subst (asm) shard_trees.simps) (auto simp: Let_def split: prod.splits option.splits)
    have "length (take ?n es) \<le> ?limit" by simp
    from write_tree_ok [OF w(1) this] obtain rows where r: "converts parse args (take ?n es) rows"
      "trees_for ?limit version rows ts" "unat v = unat version + length ts" by blast
    from "1.IH" [OF False refl refl refl w(1) [symmetric] refl w(2)] obtain rows' where r': "converts parse args (drop ?n es) rows'"
      "trees_for ?limit v rows' ts'" "unat version' = unat v + length ts'" by blast
    have "converts parse args (take ?n es @ drop ?n es) (rows @ rows')"
      using r(1) r'(1) unfolding converts_def by (rule list_all2_appendI)
    then have "converts parse args es (rows @ rows')" by simp
    with trees_for_append [OF r(2) r'(2) r(3)] r(3) r'(3) w(3) show ?thesis by auto
  qed
qed

lemma trees_for_mono: "trees_for limit version rows trees \<Longrightarrow> limit \<le> limit' \<Longrightarrow> trees_for limit' version rows trees"
  by (auto simp: trees_for_def list_all_iff)

lemma create_merkle_tree_covers:
  assumes "process_create_merkle_tree hashv parse account mint args csv_entries = (trees, Some last_version)"
  shows "\<exists>rows. converts parse args
      (trimmed args csv_entries @ (if ca_should_include_test_list args then test_entries args else [])) rows
    \<and> trees_for (max (unat (ca_max_nodes_per_tree args)) (length get_test_list)) (start_version account mint args) rows trees
    \<and> unat last_version + 1 = unat (start_version account mint args) + length trees"
proof -
  let ?v = "start_version account mint args" and ?test = "ca_should_include_test_list args"
  let ?limit = "max (unat (ca_max_nodes_per_tree args)) (length get_test_list)"
  from assms obtain ts v ts' r where s: "shard_trees hashv parse args ?v (trimmed args csv_entries) = (ts, Some v)"
    "(if ?test then write_tree hashv parse args (test_entries args) v else ([], Some v)) = (ts', Some r)"
    "trees = ts @ ts'" "checked_sub r 1 = Some last_version"
    by (auto simp: process_create_merkle_tree_def Let_def split: prod.splits option.splits)
  from shard_trees_ok [OF s(1)] obtain rows where rows: "converts parse args (trimmed args csv_entries) rows"
    "trees_for ?limit ?v rows ts" "unat v = unat ?v + length ts"
    using trees_for_mono by (metis max.cobounded1)
  have "\<exists>rows'. converts parse args (if ?test then test_entries args else []) rows' \<and> trees_for ?limit v rows' ts'
      \<and> unat r = unat v + length ts'"
  proof (cases ?test)
    case True
    then have "write_tree hashv parse args (test_entries args) v = (ts', Some r)" using s(2) by simp
    from write_tree_ok [OF this, of ?limit] True show ?thesis by (simp add: test_entries_def)
  next
    case False
    then show ?thesis using s(2) by (simp add: converts_def trees_for_def amount_of_def locked_of_def)
  qed
  then obtain rows' where rows': "converts parse args (if ?test then test_entries args else []) rows'"
    "trees_for ?limit v rows' ts'" "unat r = unat v + length ts'" by blast
  have "converts parse args (trimmed args csv_entries @ (if ?test then test_entries args else [])) (rows @ rows')"
    using rows(1) rows'(1) unfolding converts_def by (rule list_all2_appendI)
  moreover have "unat last_version + 1 = unat ?v + length trees"
    using s(3) rows(3) rows'(3) s(4) [unfolded checked_sub_Some] by simp
  ultimately show ?thesis using trees_for_append [OF rows(2) rows'(2) rows(3)] s(3) by blast
qed

section \<open>Properties\<close>

text \<open>C25: The trees written cover the CSV exactly. When the tool ends without a panic, the rows (without the
  test wallets, if these get their own tree, which comes last) all converted to base units, the versions
  are consecutive from the start version on, no tree has more leaves than asked for (or than the test
  list), and together the trees pay exactly the total of the rows, and every claimant exactly the sums of
  the claimant's rows, even when these ended up in different trees.\<close>

theorem trees_cover_the_csv:
  assumes "process_create_merkle_tree hashv parse account mint args csv_entries = (trees, Some last_version)"
  shows "\<exists>rows. converts parse args
      (trimmed args csv_entries @ (if ca_should_include_test_list args then test_entries args else [])) rows
    \<and> trees_for (max (unat (ca_max_nodes_per_tree args)) (length get_test_list)) (start_version account mint args) rows trees
    \<and> unat last_version + 1 = unat (start_version account mint args) + length trees"
  by (rule create_merkle_tree_covers [OF assms])

definition demo_create_args :: create_args where
  "demo_create_args = \<lparr>ca_csv_path = ''rows.csv'', ca_merkle_tree_path = ''trees'', ca_max_nodes_per_tree = 1, ca_should_include_test_list = False, ca_amount = 0, ca_decimals = 0,
     ca_csv_amount_unit = CliTokens, ca_start_airdrop_version = Some 3\<rparr>"

theorem trees_cover_the_csv_witness:
  "\<exists>trees last_version rows. process_create_merkle_tree (\<lambda>_. 0) demo_parse (\<lambda>_. Found) (Pubkey 0) demo_create_args
       (mm_entries demo_merged) = (trees, Some last_version)
     \<and> trees_for 3 3 rows trees \<and> unat last_version + 1 = 3 + length trees"
proof -
  let ?row = "\<lparr>tn_claimant = Pubkey 1, tn_amount = 12, tn_locked_amount = Some 3, tn_proof = None\<rparr>"
  obtain tree where "airdrop_new (\<lambda>_. 0) [?row] 3 = Inr tree"
    by (rule airdrop_new_ok [of "[?row]" "\<lambda>_. 0" 3]) (auto simp: node_total_def node_locked_amount_def)
  then have run: "process_create_merkle_tree (\<lambda>_. 0) demo_parse (\<lambda>_. Found) (Pubkey 0) demo_create_args (mm_entries demo_merged)
      = ([(3, tree)], Some 3)"
    by (simp add: process_create_merkle_tree_def start_version_def trimmed_def shard_trees.simps write_tree_def
        new_from_entries_def demo_create_args_def demo_merged_def from_csv_def csv_amount_to_base_units_def checked_pow_def
        checked_mul_def checked_add_def checked_sub_def demo_parse_def)
  from trees_cover_the_csv [OF run] obtain rows where
    "trees_for (max (unat (ca_max_nodes_per_tree demo_create_args)) (length get_test_list))
       (start_version (\<lambda>_. Found) (Pubkey 0) demo_create_args) rows [(3, tree)]" by blast
  then have "trees_for 3 3 rows [(3, tree)]" by (simp add: demo_create_args_def get_test_list_def start_version_def eval_nat_numeral)
  with run show ?thesis by (intro exI [of _ "[(3, tree)]"] exI [of _ 3] exI [of _ rows]) simp
qed

text \<open>C34: The search for a version always ends, within the limit of versions, with the least version from the
  start on for which the cluster says there is no account, or with none if there is none.\<close>

theorem find_version_finds_the_least:
  "case find_version account v of
     Some w \<Rightarrow> v \<le> w \<and> w < VERSION_LIMIT \<and> account w = AccountNotFound
       \<and> {u. v \<le> u \<and> u < w \<and> account u = AccountNotFound} = {}
   | None \<Rightarrow> {u. v \<le> u \<and> u < VERSION_LIMIT \<and> account u = AccountNotFound} = {}"
proof (induction account v rule: find_version.induct)
  case (1 account v)
  show ?case
  proof (cases "v < VERSION_LIMIT")
    case lt: True
    then have above: "u = v \<or> v + 1 \<le> u" if "v \<le> u" for u
      using that by (auto simp: word_le_nat_alt word_less_nat_alt word_unat_eq_iff VERSION_LIMIT_def unat_add_ok)
    have up: "v \<le> v + 1" using lt by (simp add: word_le_nat_alt word_less_nat_alt VERSION_LIMIT_def unat_add_ok)
    show ?thesis
    proof (cases "account v = AccountNotFound")
      case True
      then show ?thesis using lt by (auto simp: find_version.simps [of account v])
    next
      case False
      then have step: "find_version account v = find_version account (v + 1)"
        using lt by (simp add: find_version.simps [of account v] split: rpc_answer.splits)
      have IH: "case find_version account (v + 1) of
          Some w \<Rightarrow> v + 1 \<le> w \<and> w < VERSION_LIMIT \<and> account w = AccountNotFound
            \<and> {u. v + 1 \<le> u \<and> u < w \<and> account u = AccountNotFound} = {}
        | None \<Rightarrow> {u. v + 1 \<le> u \<and> u < VERSION_LIMIT \<and> account u = AccountNotFound} = {}"
        using "1.IH" [OF lt] False by (cases "account v") auto
      show ?thesis unfolding step using IH False above up by (auto split: option.splits)
    qed
  next
    case False
    then show ?thesis by (auto simp: find_version.simps [of account v])
  qed
qed

end
