(* ===== verification/End_To_End.thy ===== *)
theory End_To_End
  imports Airdrop_Tree Distributor_Live
begin

text \<open>
  The tree builder and the program together: a distributor that was created with the root and the
  limits of a built tree. What it pays is what the rows of the tree say, and the limits of the tree
  never stand in the way of a claimant.

  A run is followed under two conditions on its labels (\<open>honest\<close>): the distributor is created from
  the tree and never re-rooted, and the byte strings hashed for the tree and for the claims made do
  not collide.
\<close>

section \<open>A distributor that carries a tree\<close>

definition committed :: "airdrop_merkle_tree \<Rightarrow> merkle_distributor \<Rightarrow> bool" where
  "committed tree md \<longleftrightarrow>
     md_root md = at_merkle_root tree \<and> md_max_total_claim md = at_max_total_claim tree
     \<and> md_max_num_nodes md = at_max_num_nodes tree"

definition entitled :: "airdrop_merkle_tree \<Rightarrow> claim_status \<Rightarrow> bool" where
  "entitled tree cs \<longleftrightarrow>
     (\<exists>n \<in> set (at_tree_nodes tree). tn_claimant n = cs_claimant cs
        \<and> tn_amount n = cs_unlocked_amount cs \<and> node_locked_amount n = cs_locked_amount cs)"

fun honest_call :: "hash_fn \<Rightarrow> airdrop_merkle_tree \<Rightarrow> pubkey \<Rightarrow> instruction \<Rightarrow> bool" where
  "honest_call h tree d (NewDistributor a args) \<longleftrightarrow>
     (nd_distributor a = d \<longrightarrow> na_root args = at_merkle_root tree
        \<and> na_max_total_claim args = at_max_total_claim tree \<and> na_max_num_nodes args = at_max_num_nodes tree)"
| "honest_call h tree d (SetRoot a r old n m) \<longleftrightarrow> sr_distributor a \<noteq> d"
| "honest_call h tree d (NewClaim a u l p) \<longleftrightarrow>
     (nc_distributor a = d \<longrightarrow> collision_free h (claim_inputs h (at_tree_nodes tree) p (nc_claimant a) u l))"
| "honest_call h tree d i \<longleftrightarrow> True"

definition honest :: "hash_fn \<Rightarrow> airdrop_merkle_tree \<Rightarrow> pubkey \<Rightarrow> label \<Rightarrow> bool" where
  "honest h tree d l \<longleftrightarrow> (case l of Call cx i \<Rightarrow> honest_call h tree d i | Outside \<Rightarrow> True)"

text \<open>The state predicate: every claim record of \<open>d\<close> is for a node of the tree.\<close>

definition from_tree :: "hash_fn \<Rightarrow> airdrop_merkle_tree \<Rightarrow> pubkey \<Rightarrow> env \<Rightarrow> chain \<Rightarrow> bool" where
  "from_tree h tree d env c \<longleftrightarrow>
     (hashv env = h \<and> tree_commit h (hashed_nodes h (at_tree_nodes tree)) = Some (at_merkle_root tree) \<longrightarrow>
       (\<forall>md. ch_distributors c d = Some md \<longrightarrow> committed tree md)
       \<and> (\<forall>k cs. ch_claim_statuses c k = Some cs \<and> cs_distributor cs = d \<longrightarrow> entitled tree cs))"

lemma configured_committed: "configured md md' \<Longrightarrow> committed tree md' \<longleftrightarrow> committed tree md"
  by (cases md; cases md') (simp add: configured_def committed_def)

lemma counters_committed [simp]:
  "committed tree (md\<lparr>md_num_nodes_claimed := x\<rparr>) \<longleftrightarrow> committed tree md"
  "committed tree (md\<lparr>md_total_amount_claimed := x\<rparr>) \<longleftrightarrow> committed tree md"
  "committed tree (md\<lparr>md_total_amount_forgone := x\<rparr>) \<longleftrightarrow> committed tree md"
  "committed tree (md\<lparr>md_clawed_back := b\<rparr>) \<longleftrightarrow> committed tree md"
  by (simp_all add: committed_def)

lemma exec_committed:
  assumes "exec env cx i c = Inr c'" "honest_call h tree d i"
    and "\<forall>md. ch_distributors c d = Some md \<longrightarrow> committed tree md"
  shows "\<forall>md. ch_distributors c' d = Some md \<longrightarrow> committed tree md"
  using assms(1)
proof (cases rule: exec_cases)
  case (create a args)
  then show ?thesis using assms(2,3)
    by (elim new_distributorE) (auto simp: committed_def fresh_distributor_def split: if_splits)
next
  case (close a)
  then show ?thesis using assms(3) by (elim close_distributorE) (auto split: if_splits)
next
  case (reroot a r old n m)
  then show ?thesis using assms(2,3) by (elim set_rootE) (auto split: if_splits)
next
  case (claim a u l p)
  then show ?thesis using assms(3) by (elim new_claimE) (auto split: if_splits)
next
  case (draw a)
  then show ?thesis using assms(3) by (elim claim_lockedE) (auto split: if_splits)
next
  case (claw a)
  then show ?thesis using assms(3) by (elim clawbackE) (auto split: if_splits)
next
  case setting
  with assms(1) show ?thesis
  proof (rule settingE)
    fix e md md'
    assume "ch_distributors c e = Some md" "configured md md'" "c' = store_distributor c e md'"
    then show ?thesis using assms(3) by (auto simp: store_distributor_def configured_committed split: if_splits)
  qed
qed

lemma claim_leaf_slices:
  "claim_leaf env c u l = hashv env [LEAF_PREFIX, be_bytes (hashv env (claim_slices c u l))]"
  by (simp add: claim_leaf_def claim_slices_def)

lemma new_claim_entitled:
  assumes "new_claim env cx a u l p c = Inr c'" "ch_distributors c (nc_distributor a) = Some md" "committed tree md"
    and "tree_commit (hashv env) (hashed_nodes (hashv env) (at_tree_nodes tree)) = Some (at_merkle_root tree)"
    and "collision_free (hashv env) (claim_inputs (hashv env) (at_tree_nodes tree) p (nc_claimant a) u l)"
  shows "\<exists>n \<in> set (at_tree_nodes tree). tn_claimant n = nc_claimant a \<and> tn_amount n = u \<and> node_locked_amount n = l"
proof -
  have "verify (hashv env) p (md_root md) (claim_leaf env (nc_claimant a) u l)"
    using assms(1,2) by (elim new_claimE) simp
  then show ?thesis using assms(3) claim_in_tree [OF assms(4,5)] by (simp add: committed_def claim_leaf_slices)
qed

lemma exec_entitled:
  assumes "exec env cx i c = Inr c'" "honest_call (hashv env) tree d i"
    and "\<forall>md. ch_distributors c d = Some md \<longrightarrow> committed tree md"
    and "\<forall>k cs. ch_claim_statuses c k = Some cs \<and> cs_distributor cs = d \<longrightarrow> entitled tree cs"
    and root: "tree_commit (hashv env) (hashed_nodes (hashv env) (at_tree_nodes tree)) = Some (at_merkle_root tree)"
    and cs': "ch_claim_statuses c' k = Some cs'" "cs_distributor cs' = d"
  shows "entitled tree cs'"
proof (cases "ch_claim_statuses c k")
  case (Some cs)
  from exec_claims [OF assms(1) Some] cs'(1) have "cs_evolves cs cs'" by simp
  then have same: "cs_claimant cs' = cs_claimant cs" "cs_distributor cs' = cs_distributor cs"
      "cs_unlocked_amount cs' = cs_unlocked_amount cs" "cs_locked_amount cs' = cs_locked_amount cs"
    by (cases cs; cases cs'; simp add: cs_evolves_def)+
  with assms(4) Some cs'(2) have "entitled tree cs" by simp
  with same show ?thesis by (simp add: entitled_def)
next
  case None
  from assms(1) show ?thesis
  proof (cases rule: exec_records)
    case (claim a u l p)
    note call = claim
    from call(2) show ?thesis
    proof (rule new_claimE)
      fix md paid led num claimed forgone f
      assume h: "ch_distributors c (nc_distributor a) = Some md"
        "c' = c\<lparr>ch_distributors := (ch_distributors c)(nc_distributor a \<mapsto> md\<lparr>md_num_nodes_claimed := num,
             md_total_amount_claimed := claimed, md_total_amount_forgone := forgone\<rparr>),
           ch_claim_statuses := (ch_claim_statuses c)(nc_claim_status a \<mapsto> fresh_claim md a u l paid),
           ch_ledger := led,
           ch_events := ch_events c @ [NewClaimEvent (nc_claimant a) (cx_unix_timestamp cx) paid f]\<rparr>"
      then have cs: "cs' = fresh_claim md a u l paid" and d: "nc_distributor a = d"
        using None cs' by (auto simp: fresh_claim_def split: if_splits)
      have "\<exists>n \<in> set (at_tree_nodes tree). tn_claimant n = nc_claimant a \<and> tn_amount n = u \<and> node_locked_amount n = l"
        by (rule new_claim_entitled [OF call(2) h(1) _ root]) (use assms(2,3) call(1) h(1) d in auto)
      then show ?thesis unfolding cs entitled_def by (simp add: fresh_claim_def)
    qed
  next
    case (draw a)
    then show ?thesis using None cs'(1) by (elim claim_lockedE) (auto split: if_splits)
  qed (use None cs'(1) in simp)
qed

interpretation tree_claims: kept_by_steps "from_tree h tree d" "honest h tree d" for h tree d
proof unfold_locales
  fix c env
  assume "initial c"
  then show "from_tree h tree d env c" by (simp add: from_tree_def initial_def)
next
  fix env c l c'
  assume h: "env_ok env" "step env c l c'" "honest h tree d l" "from_tree h tree d env c"
  show "from_tree h tree d env c'"
  proof (cases l)
    case (Call cx i)
    with h have e: "exec env cx i c = Inr c'" "honest_call h tree d i" by (auto simp: honest_def)
    show ?thesis unfolding from_tree_def
    proof (intro impI conjI)
      assume "hashv env = h \<and> tree_commit h (hashed_nodes h (at_tree_nodes tree)) = Some (at_merkle_root tree)"
      with h(4) have inv: "hashv env = h"
        "tree_commit (hashv env) (hashed_nodes (hashv env) (at_tree_nodes tree)) = Some (at_merkle_root tree)"
        "\<forall>md. ch_distributors c d = Some md \<longrightarrow> committed tree md"
        "\<forall>k cs. ch_claim_statuses c k = Some cs \<and> cs_distributor cs = d \<longrightarrow> entitled tree cs"
        by (auto simp: from_tree_def)
      show "\<forall>md. ch_distributors c' d = Some md \<longrightarrow> committed tree md" by (rule exec_committed [OF e inv(3)])
      show "\<forall>k cs. ch_claim_statuses c' k = Some cs \<and> cs_distributor cs = d \<longrightarrow> entitled tree cs"
        using exec_entitled [OF e(1) e(2) [folded inv(1)] inv(3,4,2)] by blast
    qed
  next
    case Outside
    with h show ?thesis by (auto simp: from_tree_def)
  qed
qed

section \<open>The limits of the tree are enough\<close>

lemma sum_by_claimant:
  assumes "finite C" "tn_claimant ` set rows \<subseteq> C"
  shows "(\<Sum>c\<in>C. amount_of c rows + locked_of c rows) = sum_total rows"
  using assms(2)
proof (induction rows)
  case (Cons n rows)
  have "(\<Sum>c\<in>C. amount_of c (n # rows) + locked_of c (n # rows))
      = (\<Sum>c\<in>C. (if tn_claimant n = c then node_total n else 0) + (amount_of c rows + locked_of c rows))"
    by (rule sum.cong) (auto simp: amount_of_def locked_of_def node_total_def)
  also have "\<dots> = node_total n + sum_total rows"
    using Cons assms(1) by (simp add: sum.distrib)
  finally show ?case by simp
qed (simp add: amount_of_def locked_of_def)

lemma built_total:
  assumes "built_from h rows tree"
  shows "(\<Sum>n\<in>set (at_tree_nodes tree). node_total n) = unat (at_max_total_claim tree)"
    and "distinct (map tn_claimant (at_tree_nodes tree))"
proof -
  let ?ns = "at_tree_nodes tree"
  have cl: "map tn_claimant ?ns = first_seen (map tn_claimant rows)" using assms by (simp add: built_from_def)
  then show dis: "distinct (map tn_claimant ?ns)" by simp
  have im: "tn_claimant ` set ?ns = tn_claimant ` set rows" using arg_cong [OF cl, of set] by simp
  have "(\<Sum>n\<in>set ?ns. node_total n) = (\<Sum>n\<in>set ?ns. amount_of (tn_claimant n) rows + locked_of (tn_claimant n) rows)"
    by (rule sum.cong) (use assms in \<open>auto simp: built_from_def node_total_def\<close>)
  also have "\<dots> = (\<Sum>c\<in>tn_claimant ` set ?ns. amount_of c rows + locked_of c rows)"
    using dis by (simp add: sum.reindex distinct_map)
  also have "\<dots> = sum_total rows" by (rule sum_by_claimant) (simp_all add: im)
  also have "\<dots> = unat (at_max_total_claim tree)" using assms by (simp add: built_from_def)
  finally show "(\<Sum>n\<in>set ?ns. node_total n) = unat (at_max_total_claim tree)" .
qed

text \<open>The claim records of \<open>d\<close> use up different nodes of the tree; the nodes \<open>U\<close> without one are still there.\<close>

lemma claims_use_nodes:
  fixes g :: "tree_node \<Rightarrow> nat"
  assumes good: "good env c"
    and ent: "\<And>k cs. ch_claim_statuses c k = Some cs \<Longrightarrow> cs_distributor cs = d \<Longrightarrow>
      \<exists>n\<in>set ns. tn_claimant n = cs_claimant cs \<and> f cs \<le> g n"
    and U: "U \<subseteq> set ns" "\<And>n. n \<in> U \<Longrightarrow> ch_claim_statuses c (claim_status_key env (tn_claimant n) d) = None"
  shows "claim_sum f (ch_claim_statuses c) d + sum g U \<le> sum g (set ns)"
proof -
  define K where "K = {k. \<exists>cs. ch_claim_statuses c k = Some cs \<and> cs_distributor cs = d}"
  define st where "st k = the (ch_claim_statuses c k)" for k
  have st: "ch_claim_statuses c k = Some (st k) \<and> cs_distributor (st k) = d
      \<and> k = claim_status_key env (cs_claimant (st k)) d" if "k \<in> K" for k
    using that good by (auto simp: K_def st_def good_def cs_ok_def)
  have "\<forall>k\<in>K. \<exists>n\<in>set ns. tn_claimant n = cs_claimant (st k) \<and> f (st k) \<le> g n" using st ent by blast
  then obtain node where node: "\<And>k. k \<in> K \<Longrightarrow> node k \<in> set ns \<and> tn_claimant (node k) = cs_claimant (st k) \<and> f (st k) \<le> g (node k)"
    by metis
  have inj: "inj_on node K" by (rule inj_onI) (metis node st)
  have disj: "node ` K \<inter> U = {}" using node st U(2) by fastforce
  have "claim_part f d (ch_claim_statuses c k) = (if k \<in> K then f (st k) else 0)" for k
    using st [of k] by (cases "ch_claim_statuses c k") (auto simp: claim_part_def K_def)
  then have "claim_sum f (ch_claim_statuses c) d = (\<Sum>k\<in>K. f (st k))"
    by (simp add: claim_sum_def sum.If_cases)
  also have "\<dots> \<le> (\<Sum>k\<in>K. g (node k))" using node by (intro sum_mono) blast
  also have "\<dots> = sum g (node ` K)" using inj by (simp add: sum.reindex)
  finally have "claim_sum f (ch_claim_statuses c) d + sum g U \<le> sum g (node ` K) + sum g U" by simp
  also have "\<dots> = sum g (node ` K \<union> U)"
    using disj finite_subset [OF U(1)] by (intro sum.union_disjoint [symmetric]) auto
  also have "\<dots> \<le> sum g (set ns)" using node U(1) by (intro sum_mono2) auto
  finally show ?thesis .
qed

lemma claim_sum_add:
  "claim_sum f records d + claim_sum g records d = claim_sum (\<lambda>cs. f cs + g cs) records d"
  by (simp add: claim_sum_def sum.distrib [symmetric] claim_part_def)
    (intro sum.cong refl, auto split: option.split)

lemma claim_sum_one_more:
  assumes "records k = Some cs" "cs_distributor cs = d"
  shows "claim_sum f records d + x \<le> claim_sum (\<lambda>cs'. f cs' + (if cs' = cs then x else 0)) records d"
proof -
  let ?g = "\<lambda>cs'. if cs' = cs then x else 0 :: nat"
  have "x = claim_part ?g d (records k)" using assms by (simp add: claim_part_def)
  also have "\<dots> \<le> claim_sum ?g records d" unfolding claim_sum_def by (rule member_le_sum) simp_all
  finally show ?thesis by (simp flip: claim_sum_add)
qed

section \<open>Runs of a distributor made from a tree\<close>

definition tree_run ::
  "env \<Rightarrow> airdrop_merkle_tree \<Rightarrow> pubkey \<Rightarrow> (pubkey \<times> pubkey) set \<Rightarrow> chain \<Rightarrow> label list \<Rightarrow> chain \<Rightarrow> bool" where
  "tree_run env tree d S c0 tr c \<longleftrightarrow>
     env_ok env \<and> initial c0 \<and> run env c0 tr c
     \<and> list_all (in_books d S) tr \<and> distinct_addresses env S \<and> list_all (honest (hashv env) tree d) tr"

lemma tree_runD:
  assumes "tree_run env tree d S c0 tr c" "built_from (hashv env) rows tree"
  shows "good env c"
    and "ch_distributors c d = Some md \<Longrightarrow> committed tree md"
    and "ch_claim_statuses c k = Some cs \<Longrightarrow> cs_distributor cs = d \<Longrightarrow> entitled tree cs"
    and "ch_distributors c d = Some md \<Longrightarrow> unat (md_total_amount_claimed md) = claim_sum paid_out (ch_claim_statuses c) d"
    and "ch_distributors c d = Some md \<Longrightarrow> unat (md_total_amount_forgone md) = claim_sum given_up (ch_claim_statuses c) d"
    and "ch_distributors c d = Some md \<Longrightarrow> unat (md_num_nodes_claimed md) = claim_sum (\<lambda>_. 1) (ch_claim_statuses c) d"
proof -
  note r = assms(1) [unfolded tree_run_def]
  show "good env c" using r run_good by blast
  have "from_tree (hashv env) tree d env c" using r tree_claims.always by blast
  then show "ch_distributors c d = Some md \<Longrightarrow> committed tree md"
    and "ch_claim_statuses c k = Some cs \<Longrightarrow> cs_distributor cs = d \<Longrightarrow> entitled tree cs"
    using assms(2) by (auto simp: from_tree_def built_from_def)
  have "books d S env c" using r claim_books.always by blast
  then have bal: "balanced c d" using r by (simp add: books_def)
  show "ch_distributors c d = Some md \<Longrightarrow> unat (md_total_amount_claimed md) = claim_sum paid_out (ch_claim_statuses c) d"
    "ch_distributors c d = Some md \<Longrightarrow> unat (md_total_amount_forgone md) = claim_sum given_up (ch_claim_statuses c) d"
    "ch_distributors c d = Some md \<Longrightarrow> unat (md_num_nodes_claimed md) = claim_sum (\<lambda>_. 1) (ch_claim_statuses c) d"
    using bal by (simp_all add: balanced_def totals_def)
qed

lemma entitled_bound:
  assumes "good env c" "ch_claim_statuses c k = Some cs" "entitled tree cs"
  shows "\<exists>n\<in>set (at_tree_nodes tree). tn_claimant n = cs_claimant cs \<and> paid_out cs + given_up cs \<le> node_total n
    \<and> (\<forall>x. x + unat (cs_locked_amount_withdrawn cs) \<le> unat (cs_locked_amount cs) \<longrightarrow> paid_out cs + x \<le> node_total n)"
proof -
  have "cs_ok env k cs" using assms(1,2) by (simp add: good_def)
  then have b: "unat (cs_locked_amount_withdrawn cs) \<le> unat (cs_locked_amount cs)"
    "unat (cs_unlocked_amount_claimed cs) \<le> unat (cs_unlocked_amount cs)" by (simp_all add: cs_ok_def)
  obtain n where n: "n \<in> set (at_tree_nodes tree)" "tn_claimant n = cs_claimant cs"
    "tn_amount n = cs_unlocked_amount cs" "node_locked_amount n = cs_locked_amount cs"
    using assms(3) unfolding entitled_def by blast
  have "paid_out cs + given_up cs \<le> node_total n"
    using n(3,4) b by (simp add: paid_out_def given_up_def node_total_def)
  moreover have "paid_out cs + x \<le> node_total n"
    if "x + unat (cs_locked_amount_withdrawn cs) \<le> unat (cs_locked_amount cs)" for x
    using n(3,4) b that by (simp add: paid_out_def node_total_def)
  ultimately show ?thesis using n(1,2) by blast
qed

text \<open>What an open node needs is left: a node in the count and its amounts under the cap.\<close>

lemma room_for_node:
  assumes "tree_run env tree d S c0 tr c" "built_from (hashv env) rows tree" "ch_distributors c d = Some md"
    and n: "n \<in> set (at_tree_nodes tree)" "ch_claim_statuses c (claim_status_key env (tn_claimant n) d) = None"
  shows "unat (md_num_nodes_claimed md) + 1 \<le> unat (md_max_num_nodes md)"
    and "unat (md_total_amount_claimed md) + unat (md_total_amount_forgone md) + unat (tn_amount n)
      \<le> unat (md_max_total_claim md)"
proof -
  note r = tree_runD [OF assms(1,2)]
  have com: "committed tree md" using r(2) assms(3) .
  have dis: "distinct (at_tree_nodes tree)" using built_total(2) [OF assms(2)] by (simp add: distinct_map)
  have "claim_sum (\<lambda>_. 1) (ch_claim_statuses c) d + sum (\<lambda>_. 1) {n} \<le> sum (\<lambda>_. 1) (set (at_tree_nodes tree))"
    by (rule claims_use_nodes [OF r(1)]) (use r(3) n in \<open>auto simp: entitled_def\<close>)
  moreover have "unat (md_max_num_nodes md) = length (at_tree_nodes tree)"
    using com assms(2) by (simp add: committed_def built_from_def)
  ultimately show "unat (md_num_nodes_claimed md) + 1 \<le> unat (md_max_num_nodes md)"
    using r(6) [OF assms(3)] dis by (simp add: distinct_card)
  have "claim_sum (\<lambda>cs. paid_out cs + given_up cs) (ch_claim_statuses c) d + sum node_total {n}
      \<le> sum node_total (set (at_tree_nodes tree))"
    by (rule claims_use_nodes [OF r(1)]) (use entitled_bound [OF r(1)] r(3) n in \<open>blast | simp\<close>)+
  moreover have "sum node_total (set (at_tree_nodes tree)) = unat (md_max_total_claim md)"
    using com built_total(1) [OF assms(2)] by (simp add: committed_def)
  ultimately show "unat (md_total_amount_claimed md) + unat (md_total_amount_forgone md) + unat (tn_amount n)
      \<le> unat (md_max_total_claim md)"
    using r(4,5) [OF assms(3)] by (simp add: node_total_def flip: claim_sum_add)
qed

text \<open>And what a claim record has not drawn of its locked part fits the cap.\<close>

lemma room_for_draw:
  assumes "tree_run env tree d S c0 tr c" "built_from (hashv env) rows tree" "ch_distributors c d = Some md"
    and cs: "ch_claim_statuses c k = Some cs" "cs_distributor cs = d"
    and x: "x + unat (cs_locked_amount_withdrawn cs) \<le> unat (cs_locked_amount cs)"
  shows "unat (md_total_amount_claimed md) + x \<le> unat (md_max_total_claim md)"
proof -
  note r = tree_runD [OF assms(1,2)]
  let ?f = "\<lambda>cs'. paid_out cs' + (if cs' = cs then x else 0)"
  have bound: "\<exists>n\<in>set (at_tree_nodes tree). tn_claimant n = cs_claimant cs' \<and> ?f cs' \<le> node_total n"
    if "ch_claim_statuses c k' = Some cs'" "cs_distributor cs' = d" for k' cs'
    using entitled_bound [OF r(1) that(1) r(3) [OF that]] x by force
  have "unat (md_total_amount_claimed md) + x \<le> claim_sum ?f (ch_claim_statuses c) d"
    using claim_sum_one_more [of "ch_claim_statuses c" k cs d paid_out x] cs r(4) [OF assms(3)] by simp
  also have "\<dots> \<le> sum node_total (set (at_tree_nodes tree))"
    using claims_use_nodes [OF r(1), where U = "{}" and d = d and ns = "at_tree_nodes tree" and f = ?f and g = node_total] bound
    by simp
  also have "\<dots> = unat (md_max_total_claim md)"
    using r(2) [OF assms(3)] built_total(1) [OF assms(2)] by (simp add: committed_def)
  finally show ?thesis .
qed

text \<open>An open node is paid when its claimant shows it.\<close>

lemma node_claim_ok:
  assumes "airdrop_new (hashv env) rows version = Inr tree" "tree_run env tree d S c0 tr c"
    and "pda_law env" "transfer_available env" "ch_distributors c d = Some md"
    and "n \<in> set (at_tree_nodes tree)" "tn_claimant n = nc_claimant a" "tn_proof n = Some proof" "nc_distributor a = d"
    and "nc_claim_status a = claim_status_key env (nc_claimant a) d"
      "ch_distributors c (nc_claim_status a) = None" "ch_claim_statuses c (nc_claim_status a) = None"
      "lg_accounts (ch_ledger c) (nc_claim_status a) = None" "lg_supply (ch_ledger c) (nc_claim_status a) = None"
      "nc_from a = md_token_vault md" "nc_token_program a = token_program_id env"
      "nc_system_program a = system_program_id env" "nc_claimant a \<in> set (cx_signers cx)"
    and "lg_accounts (ch_ledger c) (md_token_vault md) = Some v" "lg_accounts (ch_ledger c) (nc_to a) = Some t"
      "ta_mint v = md_mint md" "ta_mint t = md_mint md" "ta_owner t = nc_claimant a"
    and "\<not> md_clawed_back md" "md_enable_slot md \<le> cx_slot cx" "md_start_ts md \<le> cx_unix_timestamp cx"
      "window_fits (md_start_ts md) (md_end_ts md)"
    and "unat (md_max_total_claim md) \<le> unat (md_total_amount_claimed md) + unat (ta_amount v)"
      "unat (ta_amount t) + unat (tn_amount n) < 2 ^ 64"
  shows "\<exists>c' paid. exec env cx (NewClaim a (tn_amount n) (node_locked_amount n) proof) c = Inr c'
    \<and> unat paid = bonus_vested (unat (tn_amount n)) (ival (cx_unix_timestamp cx)) (ival (md_start_ts md)) (ival (md_end_ts md))
    \<and> ch_ledger c' = moved (md_token_vault md) (nc_to a) paid (ch_ledger c)"
proof -
  have built: "built_from (hashv env) rows tree" using assms(1) by (rule airdrop_new_built)
  note r = tree_runD [OF assms(2) built]
  have free: "ch_claim_statuses c (claim_status_key env (tn_claimant n) d) = None" using assms(7,10,12) by simp
  note room = room_for_node [OF assms(2) built assms(5,6) free]
  have "verify (hashv env) proof (at_merkle_root tree) (claim_leaf env (tn_claimant n) (tn_amount n) (node_locked_amount n))"
    using built assms(6,8) by (auto simp: built_from_def node_hash_slices claim_leaf_slices)
  then have ver: "verify (hashv env) proof (md_root md) (claim_leaf env (nc_claimant a) (tn_amount n) (node_locked_amount n))"
    using r(2) [OF assms(5)] assms(7) by (simp add: committed_def)
  have vault: "unat (tn_amount n) \<le> unat (ta_amount v)" using room(2) assms(28) by simp
  from new_claim_ok [OF assms(3,4) r(1) assms(5) [folded assms(9)] assms(10) [folded assms(9)] assms(11-27) ver room vault assms(29)]
  show ?thesis by auto
qed

section \<open>The tree of the witnesses\<close>

definition demo_tree_row :: tree_node where
  "demo_tree_row = \<lparr>tn_claimant = Pubkey 50, tn_amount = 400, tn_locked_amount = Some 600, tn_proof = None\<rparr>"

lemma demo_tree:
  obtains tree n where "airdrop_new (hashv demo_env) [demo_tree_row] 0 = Inr tree"
    "at_tree_nodes tree = [n]" "tn_claimant n = Pubkey 50" "tn_amount n = 400" "node_locked_amount n = 600"
    "tn_proof n \<noteq> None" "at_merkle_root tree = 33" "at_max_total_claim tree = 1000" "at_max_num_nodes tree = 1"
proof -
  obtain tree where tree: "airdrop_new (hashv demo_env) [demo_tree_row] 0 = Inr tree"
      "built_from (hashv demo_env) [demo_tree_row] tree"
    by (rule airdrop_new_ok [of "[demo_tree_row]" "hashv demo_env" 0])
      (auto simp: demo_tree_row_def node_total_def node_locked_amount_def)
  from tree(2) have b: "map tn_claimant (at_tree_nodes tree) = [Pubkey 50]"
    by (simp add: built_from_def demo_tree_row_def)
  then obtain n where n: "at_tree_nodes tree = [n]" "tn_claimant n = Pubkey 50" by auto
  from tree(2) n have a: "unat (tn_amount n) = 400" "unat (node_locked_amount n) = 600" "tn_proof n \<noteq> None"
    "unat (at_max_total_claim tree) = 1000" "unat (at_max_num_nodes tree) = 1"
    "tree_commit (hashv demo_env) (hashed_nodes (hashv demo_env) [n]) = Some (at_merkle_root tree)"
    by (auto simp: built_from_def demo_tree_row_def amount_of_def locked_of_def node_total_def node_locked_amount_def)
  have root: "at_merkle_root tree = 33"
    using a(6) by (simp add: tree_commit_root tree_root.simps hashed_nodes_def hash_leaf_def demo_env_def LEAF_PREFIX_def)
  have "tn_amount n = 400" "node_locked_amount n = 600" "at_max_total_claim tree = 1000" "at_max_num_nodes tree = 1"
    using a(1,2,4,5) by (simp_all add: word_unat_eq_iff)
  with tree(1) n a(3) root show thesis by (intro that)
qed

lemma demo_collision_free:
  assumes "at_tree_nodes tree = [n]" "tn_claimant n = Pubkey 50" "tn_amount n = 400" "node_locked_amount n = 600"
  shows "collision_free (hashv demo_env) (claim_inputs (hashv demo_env) (at_tree_nodes tree) [] (Pubkey 50) 400 600)"
  using assms
  by (simp add: collision_free_def claim_inputs_def tree_inputs_def check_inputs_def hashed_nodes_def level_inputs.simps
      node_hash_slices claim_slices_def demo_env_def LEAF_PREFIX_def)

lemma demo_tree_run:
  assumes "at_tree_nodes tree = [n]" "tn_claimant n = Pubkey 50" "tn_amount n = 400" "node_locked_amount n = 600"
    and "at_merkle_root tree = 33" "at_max_total_claim tree = 1000" "at_max_num_nodes tree = 1"
  shows "tree_run demo_env tree (Pubkey 10) {(Pubkey 50, Pubkey 10)} demo_start (take 1 demo_trace) demo_created"
    and "tree_run demo_env tree (Pubkey 10) {(Pubkey 50, Pubkey 10)} demo_start (take 2 demo_trace) demo_claimed"
proof -
  have "list_all (\<lambda>l. in_books (Pubkey 10) {(Pubkey 50, Pubkey 10)} l \<and> honest (hashv demo_env) tree (Pubkey 10) l)
      (take 2 demo_trace)"
    using assms(5-7) demo_collision_free [OF assms(1-4)]
    by (simp add: demo_trace_def in_books_def honest_def closes_def demo_create_def demo_claim_def demo_claim_accounts_def)
  then have labels: "list_all (in_books (Pubkey 10) {(Pubkey 50, Pubkey 10)}) (take 2 demo_trace)"
    "list_all (honest (hashv demo_env) tree (Pubkey 10)) (take 2 demo_trace)"
    "list_all (in_books (Pubkey 10) {(Pubkey 50, Pubkey 10)}) (take 1 demo_trace)"
    "list_all (honest (hashv demo_env) tree (Pubkey 10)) (take 1 demo_trace)"
    by (auto simp: list_all_iff demo_trace_def)
  show "tree_run demo_env tree (Pubkey 10) {(Pubkey 50, Pubkey 10)} demo_start (take 1 demo_trace) demo_created"
    "tree_run demo_env tree (Pubkey 10) {(Pubkey 50, Pubkey 10)} demo_start (take 2 demo_trace) demo_claimed"
    using labels demo_env_ok(1) demo_initial demo_runs(1,6) by (simp_all add: tree_run_def distinct_addresses_def)
qed

section \<open>Properties\<close>

text \<open>C2: Only entitlements are paid. In every run of a distributor created from the tree of some rows, unless
  two hashed byte strings collide, each claim record of the distributor is of a claimant of the rows, with
  exactly the sums of the claimant's unlocked and locked rows as its amounts, and no more than these has
  been paid.\<close>

theorem only_entitlements_are_paid:
  assumes "airdrop_new (hashv env) rows version = Inr tree" "tree_run env tree d S c0 tr c"
    and "ch_claim_statuses c k = Some cs" "cs_distributor cs = d"
  shows "cs_claimant cs \<in> tn_claimant ` set rows
    \<and> unat (cs_unlocked_amount cs) = amount_of (cs_claimant cs) rows
    \<and> unat (cs_locked_amount cs) = locked_of (cs_claimant cs) rows
    \<and> paid_out cs \<le> amount_of (cs_claimant cs) rows + locked_of (cs_claimant cs) rows"
proof -
  have built: "built_from (hashv env) rows tree" using assms(1) by (rule airdrop_new_built)
  note r = tree_runD [OF assms(2) built]
  from r(3) [OF assms(3,4)] obtain n where n: "n \<in> set (at_tree_nodes tree)" "tn_claimant n = cs_claimant cs"
    "tn_amount n = cs_unlocked_amount cs" "node_locked_amount n = cs_locked_amount cs"
    unfolding entitled_def by blast
  have "map tn_claimant (at_tree_nodes tree) = first_seen (map tn_claimant rows)" using built by (simp add: built_from_def)
  from arg_cong [OF this, of set] imageI [OF n(1), of tn_claimant] n(2)
  have "cs_claimant cs \<in> tn_claimant ` set rows" by simp
  moreover have "unat (tn_amount n) = amount_of (tn_claimant n) rows"
    "unat (node_locked_amount n) = locked_of (tn_claimant n) rows"
    using built n(1) by (auto simp: built_from_def)
  moreover have "cs_ok env k cs" using r(1) assms(3) by (simp add: good_def)
  ultimately show ?thesis using n by (simp add: cs_ok_def paid_out_def)
qed

theorem only_entitlements_are_paid_witness:
  "ch_claim_statuses demo_claimed (Pubkey 60) = Some (demo_status 0)
   \<and> unat (cs_unlocked_amount (demo_status 0)) = amount_of (Pubkey 50) [demo_tree_row]
   \<and> unat (cs_locked_amount (demo_status 0)) = locked_of (Pubkey 50) [demo_tree_row]"
proof -
  obtain tree n where tree: "airdrop_new (hashv demo_env) [demo_tree_row] 0 = Inr tree"
    "at_tree_nodes tree = [n]" "tn_claimant n = Pubkey 50" "tn_amount n = 400" "node_locked_amount n = 600"
    "tn_proof n \<noteq> None" "at_merkle_root tree = 33" "at_max_total_claim tree = 1000" "at_max_num_nodes tree = 1"
    by (rule demo_tree)
  have cs: "ch_claim_statuses demo_claimed (Pubkey 60) = Some (demo_status 0)" "cs_distributor (demo_status 0) = Pubkey 10"
    "cs_claimant (demo_status 0) = Pubkey 50"
    by (simp_all add: demo_claimed_def demo_status_def)
  from only_entitlements_are_paid [OF tree(1) demo_tree_run(2) [OF tree(2-5,7-9)] cs(1,2)] cs show ?thesis by simp
qed

text \<open>C1: Everyone in the tree can claim. In every run of a distributor created from a built tree and funded
  for it, a claimant of the tree who has not claimed yet and shows the amounts and the proof of its node
  is paid the vested share of the unlocked part: neither the cap nor the node count nor the vault stands
  in the way, whatever the others have claimed before.\<close>

theorem everyone_can_claim:
  assumes "airdrop_new (hashv env) rows version = Inr tree" "tree_run env tree d S c0 tr c"
    and "pda_law env" "transfer_available env" "ch_distributors c d = Some md"
    and "n \<in> set (at_tree_nodes tree)" "tn_claimant n = nc_claimant a" "tn_proof n = Some proof" "nc_distributor a = d"
    and "nc_claim_status a = claim_status_key env (nc_claimant a) d"
      "ch_distributors c (nc_claim_status a) = None" "ch_claim_statuses c (nc_claim_status a) = None"
      "lg_accounts (ch_ledger c) (nc_claim_status a) = None" "lg_supply (ch_ledger c) (nc_claim_status a) = None"
      "nc_from a = md_token_vault md" "nc_token_program a = token_program_id env"
      "nc_system_program a = system_program_id env" "nc_claimant a \<in> set (cx_signers cx)"
    and "lg_accounts (ch_ledger c) (md_token_vault md) = Some v" "lg_accounts (ch_ledger c) (nc_to a) = Some t"
      "ta_mint v = md_mint md" "ta_mint t = md_mint md" "ta_owner t = nc_claimant a"
    and "\<not> md_clawed_back md" "md_enable_slot md \<le> cx_slot cx" "md_start_ts md \<le> cx_unix_timestamp cx"
      "window_fits (md_start_ts md) (md_end_ts md)"
    and "unat (md_max_total_claim md) \<le> unat (md_total_amount_claimed md) + unat (ta_amount v)"
      "unat (ta_amount t) + unat (tn_amount n) < 2 ^ 64"
  shows "\<exists>c' paid. exec env cx (NewClaim a (tn_amount n) (node_locked_amount n) proof) c = Inr c'
    \<and> unat paid = bonus_vested (unat (tn_amount n)) (ival (cx_unix_timestamp cx)) (ival (md_start_ts md)) (ival (md_end_ts md))
    \<and> ch_ledger c' = moved (md_token_vault md) (nc_to a) paid (ch_ledger c)"
  using assms by (rule node_claim_ok)

theorem everyone_can_claim_witness:
  "\<exists>tree n q c' paid. airdrop_new (hashv demo_env) [demo_tree_row] 0 = Inr tree \<and> n \<in> set (at_tree_nodes tree)
     \<and> exec demo_env (demo_ctx (I64 150) (Pubkey 50)) (NewClaim demo_claim_accounts (tn_amount n) (node_locked_amount n) q)
         demo_created = Inr c'
     \<and> ch_ledger c' = moved (Pubkey 11) (Pubkey 51) paid (ch_ledger demo_created)"
proof -
  obtain tree n where tree: "airdrop_new (hashv demo_env) [demo_tree_row] 0 = Inr tree"
    "at_tree_nodes tree = [n]" "tn_claimant n = Pubkey 50" "tn_amount n = 400" "node_locked_amount n = 600"
    "tn_proof n \<noteq> None" "at_merkle_root tree = 33" "at_max_total_claim tree = 1000" "at_max_num_nodes tree = 1"
    by (rule demo_tree)
  from tree(6) obtain q where p: "tn_proof n = Some q" by blast
  have n: "n \<in> set (at_tree_nodes tree)" "tn_claimant n = nc_claimant demo_claim_accounts"
    using tree(2,3) by (simp_all add: demo_claim_accounts_def)
  have accs: "lg_accounts (ch_ledger demo_created) (md_token_vault (demo_distributor 0 0 0 False))
      = Some (demo_account (Pubkey 10) 1000)"
    "lg_accounts (ch_ledger demo_created) (nc_to demo_claim_accounts) = Some (demo_account (Pubkey 50) 0)"
    and d: "ch_distributors demo_created (Pubkey 10) = Some (demo_distributor 0 0 0 False)"
    by (simp_all add: demo_defs)
  have "\<exists>c' paid. exec demo_env (demo_ctx (I64 150) (Pubkey 50))
      (NewClaim demo_claim_accounts (tn_amount n) (node_locked_amount n) q) demo_created = Inr c'
    \<and> unat paid = bonus_vested (unat (tn_amount n)) (ival (cx_unix_timestamp (demo_ctx (I64 150) (Pubkey 50))))
        (ival (md_start_ts (demo_distributor 0 0 0 False))) (ival (md_end_ts (demo_distributor 0 0 0 False)))
    \<and> ch_ledger c' = moved (md_token_vault (demo_distributor 0 0 0 False)) (nc_to demo_claim_accounts) paid
        (ch_ledger demo_created)"
    by (rule everyone_can_claim [OF tree(1) demo_tree_run(1) [OF tree(2-5,7-9)] demo_env_ok(3,2) d n p _ _ _ _ _ _ _ _ _ _ accs])
      (simp_all add: demo_defs claim_status_key_def claim_status_seeds_def window_fits_def ival_def less_eq_i64_def tree(4))
  then obtain c' paid where "exec demo_env (demo_ctx (I64 150) (Pubkey 50))
      (NewClaim demo_claim_accounts (tn_amount n) (node_locked_amount n) q) demo_created = Inr c'"
    "ch_ledger c' = moved (Pubkey 11) (Pubkey 51) paid (ch_ledger demo_created)"
    by (auto simp: demo_distributor_def demo_claim_accounts_def)
  with tree(1) n(1) show ?thesis by blast
qed

text \<open>C9: Everyone who has claimed can draw. In every run of a distributor created from a built tree and funded
  for it, a claimant with a claim record draws whatever has vested of its locked part and was not drawn
  yet: the cap, which counts the claims of everybody, is never in the way.\<close>

theorem everyone_can_draw:
  assumes "airdrop_new (hashv env) rows version = Inr tree" "tree_run env tree d S c0 tr c"
    and "pda_law env" "transfer_available env" "ch_distributors c d = Some md"
    and "ch_claim_statuses c (cl_claim_status a) = Some cs" "cs_distributor cs = d" "cl_distributor a = d"
    and "cl_claim_status a = claim_status_key env (cl_claimant a) d"
      "cl_from a = md_token_vault md" "cl_token_program a = token_program_id env"
      "cl_claimant a \<in> set (cx_signers cx)"
    and "lg_accounts (ch_ledger c) (md_token_vault md) = Some v" "lg_accounts (ch_ledger c) (cl_to a) = Some t"
      "ta_mint v = ta_mint t" "ta_owner t = cl_claimant a"
    and "\<not> md_clawed_back md" "md_enable_slot md \<le> cx_slot cx" "window_fits (md_start_ts md) (md_end_ts md)"
    and "unat amount = linear_vested (unat (cs_locked_amount cs))
        (ival (cx_unix_timestamp cx)) (ival (md_start_ts md)) (ival (md_end_ts md))
        - unat (cs_locked_amount_withdrawn cs)" "0 < unat amount"
    and "unat (md_max_total_claim md) \<le> unat (md_total_amount_claimed md) + unat (ta_amount v)"
      "unat (ta_amount t) + unat amount < 2 ^ 64"
  shows "\<exists>c'. exec env cx (ClaimLocked a) c = Inr c'
    \<and> ch_ledger c' = moved (md_token_vault md) (cl_to a) amount (ch_ledger c)"
proof -
  have built: "built_from (hashv env) rows tree" using assms(1) by (rule airdrop_new_built)
  note r = tree_runD [OF assms(2) built]
  have "linear_vested (unat (cs_locked_amount cs)) (ival (cx_unix_timestamp cx)) (ival (md_start_ts md)) (ival (md_end_ts md))
      \<le> unat (cs_locked_amount cs)"
    by (rule linear.at_most_all)
  then have "unat amount + unat (cs_locked_amount_withdrawn cs) \<le> unat (cs_locked_amount cs)"
    using assms(20,21) by simp
  from room_for_draw [OF assms(2) built assms(5-7) this]
  have room: "unat (md_total_amount_claimed md) + unat amount \<le> unat (md_max_total_claim md)" .
  then have vault: "unat amount \<le> unat (ta_amount v)" using assms(22) by simp
  from claim_locked_ok [OF assms(3,4) r(1) assms(5) [folded assms(8)] assms(6) assms(9) [folded assms(8)] assms(10-21) vault room assms(23)]
  show ?thesis by auto
qed

theorem everyone_can_draw_witness:
  "\<exists>c'. exec demo_env (demo_ctx (I64 175) (Pubkey 50)) (ClaimLocked demo_locked_accounts) demo_claimed = Inr c'
     \<and> ch_ledger c' = moved (Pubkey 11) (Pubkey 51) 450 (ch_ledger demo_claimed)"
proof -
  obtain tree n where tree: "airdrop_new (hashv demo_env) [demo_tree_row] 0 = Inr tree"
    "at_tree_nodes tree = [n]" "tn_claimant n = Pubkey 50" "tn_amount n = 400" "node_locked_amount n = 600"
    "tn_proof n \<noteq> None" "at_merkle_root tree = 33" "at_max_total_claim tree = 1000" "at_max_num_nodes tree = 1"
    by (rule demo_tree)
  have accs: "lg_accounts (ch_ledger demo_claimed) (md_token_vault (demo_distributor 300 100 1 False))
      = Some (demo_account (Pubkey 10) 700)"
    "lg_accounts (ch_ledger demo_claimed) (cl_to demo_locked_accounts) = Some (demo_account (Pubkey 50) 300)"
    and d: "ch_distributors demo_claimed (Pubkey 10) = Some (demo_distributor 300 100 1 False)"
    "ch_claim_statuses demo_claimed (cl_claim_status demo_locked_accounts) = Some (demo_status 0)"
    by (simp_all add: demo_defs)
  have "\<exists>c'. exec demo_env (demo_ctx (I64 175) (Pubkey 50)) (ClaimLocked demo_locked_accounts) demo_claimed = Inr c'
    \<and> ch_ledger c' = moved (md_token_vault (demo_distributor 300 100 1 False)) (cl_to demo_locked_accounts) 450
        (ch_ledger demo_claimed)"
    by (rule everyone_can_draw [OF tree(1) demo_tree_run(2) [OF tree(2-5,7-9)] demo_env_ok(3,2) d _ _ _ _ _ _ accs])
      (simp_all add: demo_defs claim_status_key_def claim_status_seeds_def window_fits_def linear_vested_def ival_def)
  then show ?thesis by (simp add: demo_distributor_def demo_locked_accounts_def)
qed

end
