(* ===== verification/Cli_Chain.thy ===== *)
theory Cli_Chain
  imports Cli_Trees End_To_End
begin

text \<open>
  The tools that bring trees on chain and check them there: \<^verbatim>\<open>process_new_distributor.rs\<close> with
  \<^verbatim>\<open>check_distributor_onchain_matches\<close> and \<^verbatim>\<open>get_or_create_ata\<close> of \<^verbatim>\<open>cli.rs\<close>, \<^verbatim>\<open>process_fund_all.rs\<close>,
  \<^verbatim>\<open>process_verify.rs\<close>, \<^verbatim>\<open>process_new_claim.rs\<close> and \<^verbatim>\<open>process_claim.rs\<close>.

  A tool runs against the chain of theory \<open>Distributor\<close>: it reads accounts and sends transactions, which
  are executed at once and in full or not at all. Creating an associated token account and reading a
  tree file are parameters. The result of a tool is the chain it leaves behind and whether it came to
  its end or panicked on the way. Priority fees, messages and the choice of a commitment level are left
  out.
\<close>

section \<open>Runs of a tool\<close>

type_synonym outcome = "chain \<times> bool"

abbreviation finished :: "chain \<Rightarrow> outcome" where "finished c \<equiv> (c, True)"

abbreviation panicked :: "chain \<Rightarrow> outcome" where "panicked c \<equiv> (c, False)"

definition and_run :: "outcome \<Rightarrow> (chain \<Rightarrow> outcome) \<Rightarrow> outcome" where
  "and_run r f = (case r of (c, ok) \<Rightarrow> if ok then f c else (c, False))"

primrec for_each :: "('a \<Rightarrow> chain \<Rightarrow> outcome) \<Rightarrow> 'a list \<Rightarrow> chain \<Rightarrow> outcome" where
  "for_each f [] c = finished c"
| "for_each f (x # xs) c = and_run (f x c) (for_each f xs)"

lemma and_run_finished [simp]: "and_run (c, True) f = f c" "and_run (c, False) f = (c, False)"
  by (simp_all add: and_run_def)

lemma and_run_ok: "and_run r f = (c', True) \<longleftrightarrow> (\<exists>c. r = (c, True) \<and> f c = (c', True))"
  by (cases r) (auto simp: and_run_def)

lemma for_each_ok_Cons: "for_each f (x # xs) c = (c', True) \<longleftrightarrow> (\<exists>c1. f x c = (c1, True) \<and> for_each f xs c1 = (c', True))"
  by (simp add: and_run_ok)

text \<open>The client: the program's surroundings, the key that pays and signs, the mint, the creation of
  associated token accounts.\<close>

record client =
  ki_env :: env
  ki_payer :: pubkey
  ki_mint :: pubkey
  ki_create_ata :: "pubkey \<Rightarrow> pubkey \<Rightarrow> ledger \<Rightarrow> string + ledger"

definition distributor_address :: "client \<Rightarrow> u64 \<Rightarrow> pubkey" where
  "distributor_address k version =
     fst (find_program_address (ki_env k) (distributor_seeds (ki_mint k) version) (program_id (ki_env k)))"

definition ata :: "client \<Rightarrow> pubkey \<Rightarrow> pubkey" where
  "ata k owner = associated_token_address (ki_env k) owner (ki_mint k)"

text \<open>The files of the tree directory, with what reading them as a tree gives.\<close>

record tree_file =
  tf_path :: string
  tf_is_dir :: bool
  tf_extension :: "string option"
  tf_tree :: "airdrop_merkle_tree option"

definition by_path :: "tree_file list \<Rightarrow> tree_file list" where
  "by_path files = sort_key tf_path files"

section \<open>Funding\<close>

definition fund_tree :: "client \<Rightarrow> airdrop_merkle_tree \<Rightarrow> chain \<Rightarrow> outcome" where
  "fund_tree k merkle_tree c =
     (let distributor_pubkey = distributor_address k (at_airdrop_version merkle_tree);
          token_vault = ata k distributor_pubkey in
      case ch_distributors c distributor_pubkey of
        None \<Rightarrow> panicked c
      | Some distributor_state \<Rightarrow>
          if md_clawed_back distributor_state then finished c
          else
            case checked_sub (at_max_total_claim merkle_tree) (md_total_amount_claimed distributor_state) of
              None \<Rightarrow> panicked c
            | Some target \<Rightarrow>
                (case lg_accounts (ch_ledger c) token_vault of
                   None \<Rightarrow> panicked c
                 | Some token_vault_state \<Rightarrow>
                     if target \<le> ta_amount token_vault_state then finished c
                     else
                       let fund_amount = target - ta_amount token_vault_state in
                       case token_transfer (ki_env k) (ata k (ki_payer k)) token_vault (ki_payer k) fund_amount (ch_ledger c) of
                         Inl _ \<Rightarrow> panicked c
                       | Inr l \<Rightarrow> finished (c\<lparr>ch_ledger := l\<rparr>)))"

definition fund_file :: "client \<Rightarrow> tree_file \<Rightarrow> chain \<Rightarrow> outcome" where
  "fund_file k file c =
     (if tf_is_dir file then finished c
      else case tf_extension file of
        None \<Rightarrow> finished c
      | Some ext \<Rightarrow>
          if ext \<noteq> ''json'' then finished c
          else case tf_tree file of
            None \<Rightarrow> panicked c
          | Some merkle_tree \<Rightarrow> fund_tree k merkle_tree c)"

definition process_fund_all :: "client \<Rightarrow> tree_file list \<Rightarrow> chain \<Rightarrow> outcome" where
  "process_fund_all k files c = for_each (fund_file k) (by_path files) c"

section \<open>Verifying\<close>

record verify_args =
  va_merkle_tree_path :: string
  va_clawback_start_ts :: i64
  va_clawback_receiver_owner :: pubkey
  va_enable_slot :: u64
  va_admin :: pubkey
  va_closable :: bool
  va_skip_verify_amount :: bool

definition verify_file :: "client \<Rightarrow> verify_args \<Rightarrow> chain \<Rightarrow> tree_file \<Rightarrow> bool" where
  "verify_file k args c file =
     (case tf_tree file of
        None \<Rightarrow> False
      | Some merkle_tree \<Rightarrow>
          let distributor_pubkey = distributor_address k (at_airdrop_version merkle_tree) in
          (va_skip_verify_amount args \<or>
             (case lg_accounts (ch_ledger c) (ata k distributor_pubkey) of
                None \<Rightarrow> False
              | Some token_vault_account \<Rightarrow> ta_amount token_vault_account = at_max_total_claim merkle_tree))
          \<and> (case ch_distributors c distributor_pubkey of
               None \<Rightarrow> False
             | Some state \<Rightarrow>
                 md_root state = at_merkle_root merkle_tree
                 \<and> md_clawback_start_ts state = va_clawback_start_ts args
                 \<and> md_closable state = va_closable args
                 \<and> md_admin state = va_admin args
                 \<and> md_enable_slot state = va_enable_slot args
                 \<and> md_clawback_receiver state = ata k (va_clawback_receiver_owner args)))"

text \<open>Whether the tool comes to its end: every assertion held.\<close>

definition process_verify :: "client \<Rightarrow> verify_args \<Rightarrow> tree_file list \<Rightarrow> chain \<Rightarrow> bool" where
  "process_verify k args files c = list_all (verify_file k args c) (by_path files)"

section \<open>Creating distributors\<close>

record new_distributor_cmd =
  nx_start_vesting_ts :: i64
  nx_end_vesting_ts :: i64
  nx_merkle_tree_path :: string
  nx_clawback_start_ts :: i64
  nx_enable_slot :: u64
  nx_airdrop_version :: "u64 option"
  nx_closable :: bool
  nx_skip_verify :: bool

text \<open>The account at an address; \<open>Some None\<close> is one that is not a distributor.\<close>

definition account_at :: "chain \<Rightarrow> pubkey \<Rightarrow> merkle_distributor option option" where
  "account_at c k =
     (case ch_distributors c k of
        Some md \<Rightarrow> Some (Some md)
      | None \<Rightarrow>
          if ch_claim_statuses c k = None \<and> lg_accounts (ch_ledger c) k = None \<and> lg_supply (ch_ledger c) k = None
          then None else Some None)"

definition check_distributor_onchain_matches ::
  "merkle_distributor option \<Rightarrow> airdrop_merkle_tree \<Rightarrow> new_distributor_cmd \<Rightarrow> pubkey \<Rightarrow> ledger \<Rightarrow> string + unit" where
  "check_distributor_onchain_matches account merkle_tree args pubkey l =
     (case account of
        None \<Rightarrow> Inr ()
      | Some distributor \<Rightarrow>
          require (md_root distributor = at_merkle_root merkle_tree) ''root mismatch'' (
          require (md_max_total_claim distributor = at_max_total_claim merkle_tree) ''max_total_claim mismatch'' (
          require (md_max_num_nodes distributor = at_max_num_nodes merkle_tree) ''max_num_nodes mismatch'' (
          require (md_start_ts distributor = nx_start_vesting_ts args) ''start_ts mismatch'' (
          require (md_end_ts distributor = nx_end_vesting_ts args) ''end_ts mismatch'' (
          require (md_clawback_start_ts distributor = nx_clawback_start_ts args) ''clawback_start_ts mismatch'' (
          require (md_enable_slot distributor = nx_enable_slot args) ''enable_slot mismatch'' (
          require (md_closable distributor = nx_closable args) ''closable mismatch'' (
          and_then (ok_or (lg_accounts l (md_clawback_receiver distributor)) ''clawback_receiver mismatch'') (\<lambda>receiver.
          require (ta_owner receiver = md_admin distributor) ''clawback_receiver mismatch'' (
          require (md_admin distributor = pubkey) ''admin mismatch'' (
          Inr ()))))))))))))"

definition get_or_create_ata :: "client \<Rightarrow> pubkey \<Rightarrow> chain \<Rightarrow> outcome" where
  "get_or_create_ata k user c =
     (if account_at c (ata k user) \<noteq> None then finished c
      else case ki_create_ata k user (ki_mint k) (ch_ledger c) of
        Inl _ \<Rightarrow> panicked c
      | Inr l \<Rightarrow> finished (c\<lparr>ch_ledger := l\<rparr>))"

definition payer_ctx :: "client \<Rightarrow> ctx \<Rightarrow> ctx" where
  "payer_ctx k cx = cx\<lparr>cx_signers := [ki_payer k]\<rparr>"

text \<open>The transaction that creates the vault, if it is missing, and the distributor.\<close>

definition send_new_distributor ::
  "client \<Rightarrow> ctx \<Rightarrow> new_distributor_cmd \<Rightarrow> airdrop_merkle_tree \<Rightarrow> bool \<Rightarrow> chain \<Rightarrow> outcome" where
  "send_new_distributor k cx args merkle_tree vault_missing c =
     (let distributor_pubkey = distributor_address k (at_airdrop_version merkle_tree);
          token_vault = ata k distributor_pubkey in
      case (if vault_missing then ki_create_ata k distributor_pubkey (ki_mint k) (ch_ledger c) else Inr (ch_ledger c)) of
        Inl _ \<Rightarrow> panicked c
      | Inr l \<Rightarrow>
          (case exec (ki_env k) (payer_ctx k cx) (NewDistributor
              \<lparr>nd_distributor = distributor_pubkey, nd_clawback_receiver = ata k (ki_payer k), nd_mint = ki_mint k,
               nd_token_vault = token_vault, nd_admin = ki_payer k, nd_system_program = system_program_id (ki_env k),
               nd_associated_token_program = associated_token_program_id (ki_env k),
               nd_token_program = token_program_id (ki_env k)\<rparr>
              \<lparr>na_version = at_airdrop_version merkle_tree, na_root = at_merkle_root merkle_tree,
               na_max_total_claim = at_max_total_claim merkle_tree, na_max_num_nodes = at_max_num_nodes merkle_tree,
               na_start_vesting_ts = nx_start_vesting_ts args, na_end_vesting_ts = nx_end_vesting_ts args,
               na_clawback_start_ts = nx_clawback_start_ts args, na_enable_slot = nx_enable_slot args,
               na_closable = nx_closable args\<rparr>) (c\<lparr>ch_ledger := l\<rparr>) of
             Inl _ \<Rightarrow> panicked c
           | Inr c' \<Rightarrow> finished c'))"

text \<open>\<^verbatim>\<open>check_distributor_onchain_matches(..).expect(..)\<close> on the account, if there is one.\<close>

definition expect_match :: "client \<Rightarrow> new_distributor_cmd \<Rightarrow> airdrop_merkle_tree \<Rightarrow> chain \<Rightarrow> outcome" where
  "expect_match k args merkle_tree c =
     (case account_at c (distributor_address k (at_airdrop_version merkle_tree)) of
        None \<Rightarrow> finished c
      | Some account \<Rightarrow>
          (case check_distributor_onchain_matches account merkle_tree args (ki_payer k) (ch_ledger c) of
             Inl _ \<Rightarrow> panicked c
           | Inr _ \<Rightarrow> finished c))"

fun create_distributors ::
  "client \<Rightarrow> ctx \<Rightarrow> new_distributor_cmd \<Rightarrow> tree_file list \<Rightarrow> chain \<Rightarrow> outcome" where
  "create_distributors k cx args [] c = finished c"
| "create_distributors k cx args (file # files) c =
     (case tf_tree file of
        None \<Rightarrow> create_distributors k cx args files c
      | Some merkle_tree \<Rightarrow>
          if nx_airdrop_version args \<noteq> None \<and> nx_airdrop_version args \<noteq> Some (at_airdrop_version merkle_tree)
          then create_distributors k cx args files c
          else
            let distributor_pubkey = distributor_address k (at_airdrop_version merkle_tree) in
            if account_at c distributor_pubkey \<noteq> None
            then and_run (expect_match k args merkle_tree c) (create_distributors k cx args files)
            else
              let vault_missing = (account_at c (ata k distributor_pubkey) = None) in
              and_run (get_or_create_ata k (ki_payer k) c) (\<lambda>c1.
              and_run (send_new_distributor k cx args merkle_tree vault_missing c1) (\<lambda>c2.
              and_run (if nx_skip_verify args then finished c2 else expect_match k args merkle_tree c2) (\<lambda>c3.
              if nx_airdrop_version args \<noteq> None then finished c3
              else create_distributors k cx args files c3))))"

definition process_new_distributor ::
  "client \<Rightarrow> ctx \<Rightarrow> new_distributor_cmd \<Rightarrow> tree_file list \<Rightarrow> chain \<Rightarrow> outcome" where
  "process_new_distributor k cx args files c = create_distributors k cx args (by_path files) c"

section \<open>Claiming\<close>

definition process_new_claim :: "client \<Rightarrow> ctx \<Rightarrow> airdrop_merkle_tree \<Rightarrow> chain \<Rightarrow> outcome" where
  "process_new_claim k cx merkle_tree c =
     (let claimant = ki_payer k;
          distributor = distributor_address k (at_airdrop_version merkle_tree) in
      case get_node merkle_tree claimant of
        Inl _ \<Rightarrow> panicked c
      | Inr node \<Rightarrow>
          let claimant_ata = ata k claimant in
          (case (if account_at c claimant_ata = None then ki_create_ata k claimant (ki_mint k) (ch_ledger c)
                 else Inr (ch_ledger c), tn_proof node) of
             (Inr l, Some proof) \<Rightarrow>
               (case exec (ki_env k) (payer_ctx k cx) (NewClaim
                   \<lparr>nc_distributor = distributor, nc_claim_status = claim_status_key (ki_env k) claimant distributor,
                    nc_from = ata k distributor, nc_to = claimant_ata, nc_claimant = claimant,
                    nc_token_program = token_program_id (ki_env k), nc_system_program = system_program_id (ki_env k)\<rparr>
                   (node_unlocked_amount node) (node_locked_amount node) proof) (c\<lparr>ch_ledger := l\<rparr>) of
                  Inl _ \<Rightarrow> panicked c
                | Inr c' \<Rightarrow> finished c')
           | _ \<Rightarrow> panicked c))"

definition process_claim :: "client \<Rightarrow> ctx \<Rightarrow> airdrop_merkle_tree \<Rightarrow> chain \<Rightarrow> outcome" where
  "process_claim k cx merkle_tree c =
     (let claimant = ki_payer k;
          distributor = distributor_address k (at_airdrop_version merkle_tree);
          claim_status_pda = claim_status_key (ki_env k) claimant distributor in
      and_run (if account_at c claim_status_pda \<noteq> None then finished c else process_new_claim k cx merkle_tree c) (\<lambda>c1.
      case exec (ki_env k) (payer_ctx k cx) (ClaimLocked
          \<lparr>cl_distributor = distributor, cl_claim_status = claim_status_pda, cl_from = ata k distributor,
           cl_to = ata k claimant, cl_claimant = claimant, cl_token_program = token_program_id (ki_env k)\<rparr>) c1 of
        Inl _ \<Rightarrow> panicked c1
      | Inr c2 \<Rightarrow> finished c2))"

section \<open>What funding does\<close>

text \<open>The payer is no distributor, holds the source account, and distributors found under the client's mint
  are of that mint.\<close>

definition can_fund :: "client \<Rightarrow> chain \<Rightarrow> bool" where
  "can_fund k c \<longleftrightarrow>
     transfer_effect (ki_env k) \<and> good (ki_env k) c \<and> ch_distributors c (ki_payer k) = None
     \<and> (\<exists>s. lg_accounts (ch_ledger c) (ata k (ki_payer k)) = Some s \<and> ta_owner s = ki_payer k)
     \<and> (\<forall>version md. ch_distributors c (distributor_address k version) = Some md \<longrightarrow> md_mint md = ki_mint k)"

definition vault_balance :: "client \<Rightarrow> chain \<Rightarrow> u64 \<Rightarrow> nat" where
  "vault_balance k c version = balance (ch_ledger c) (ata k (distributor_address k version))"

definition covered :: "client \<Rightarrow> chain \<Rightarrow> airdrop_merkle_tree \<Rightarrow> bool" where
  "covered k c t \<longleftrightarrow>
     (\<exists>md. ch_distributors c (distributor_address k (at_airdrop_version t)) = Some md
        \<and> (md_clawed_back md
             \<or> unat (md_total_amount_claimed md) \<le> unat (at_max_total_claim t)
               \<and> unat (at_max_total_claim t) \<le> unat (md_total_amount_claimed md) + vault_balance k c (at_airdrop_version t)))"

lemma source_is_no_vault:
  assumes "can_fund k c" "ch_distributors c (distributor_address k version) = Some md"
  shows "ata k (ki_payer k) \<noteq> ata k (distributor_address k version)"
    and "\<exists>v. lg_accounts (ch_ledger c) (ata k (distributor_address k version)) = Some v"
proof -
  let ?d = "distributor_address k version"
  have ok: "md_ok (ki_env k) (ch_ledger c) ?d md" and mint: "md_mint md = ki_mint k"
    using assms by (auto simp: can_fund_def intro: goodD)
  then have own: "owned_vault (ch_ledger c) ?d (ata k ?d)" by (simp add: md_ok_def ata_def)
  then show "\<exists>v. lg_accounts (ch_ledger c) (ata k ?d) = Some v" by (auto simp: owned_vault_def)
  have "?d \<noteq> ki_payer k" using assms by (auto simp: can_fund_def)
  then show "ata k (ki_payer k) \<noteq> ata k ?d" using own assms(1) by (auto simp: can_fund_def owned_vault_def)
qed

lemma can_fund_keeps:
  assumes "can_fund k c" "keeps_accounts (ch_ledger c) l"
  shows "can_fund k (c\<lparr>ch_ledger := l\<rparr>)"
proof -
  have "good (ki_env k) (c\<lparr>ch_ledger := l\<rparr>)"
    using assms by (auto simp: can_fund_def good_def intro: md_ok_keeps)
  moreover have "\<exists>s. lg_accounts l (ata k (ki_payer k)) = Some s \<and> ta_owner s = ki_payer k"
    using assms by (auto simp: can_fund_def elim: keeps_accountsD)
  ultimately show ?thesis using assms(1) by (simp add: can_fund_def)
qed

lemma fund_tree_cases:
  assumes "fund_tree k t c = (c', True)"
  obtains md where "ch_distributors c (distributor_address k (at_airdrop_version t)) = Some md" "md_clawed_back md" "c' = c"
  | md target a where "ch_distributors c (distributor_address k (at_airdrop_version t)) = Some md"
      "\<not> md_clawed_back md" "checked_sub (at_max_total_claim t) (md_total_amount_claimed md) = Some target"
      "lg_accounts (ch_ledger c) (ata k (distributor_address k (at_airdrop_version t))) = Some a"
      "target \<le> ta_amount a" "c' = c"
  | md target a l where "ch_distributors c (distributor_address k (at_airdrop_version t)) = Some md"
      "\<not> md_clawed_back md" "checked_sub (at_max_total_claim t) (md_total_amount_claimed md) = Some target"
      "lg_accounts (ch_ledger c) (ata k (distributor_address k (at_airdrop_version t))) = Some a" "\<not> target \<le> ta_amount a"
      "token_transfer (ki_env k) (ata k (ki_payer k)) (ata k (distributor_address k (at_airdrop_version t))) (ki_payer k)
         (target - ta_amount a) (ch_ledger c) = Inr l"
      "c' = c\<lparr>ch_ledger := l\<rparr>"
proof (cases "ch_distributors c (distributor_address k (at_airdrop_version t))")
  case None
  with assms show thesis by (simp add: fund_tree_def)
next
  case md: (Some md)
  show thesis
  proof (cases "md_clawed_back md")
    case True
    with assms md show thesis by (intro that(1) [of md]) (simp_all add: fund_tree_def)
  next
    case live: False
    with assms md obtain target a where ta: "checked_sub (at_max_total_claim t) (md_total_amount_claimed md) = Some target"
      "lg_accounts (ch_ledger c) (ata k (distributor_address k (at_airdrop_version t))) = Some a"
      by (cases "checked_sub (at_max_total_claim t) (md_total_amount_claimed md)";
          cases "lg_accounts (ch_ledger c) (ata k (distributor_address k (at_airdrop_version t)))") (simp_all add: fund_tree_def)
    show thesis
    proof (cases "target \<le> ta_amount a")
      case True
      with assms md live ta show thesis by (intro that(2) [of md target a]) (simp_all add: fund_tree_def)
    next
      case False
      show thesis
        by (cases "token_transfer (ki_env k) (ata k (ki_payer k)) (ata k (distributor_address k (at_airdrop_version t)))
              (ki_payer k) (target - ta_amount a) (ch_ledger c)")
          (use assms md live ta False in \<open>simp_all add: fund_tree_def that(3) [of md target a]\<close>)
    qed
  qed
qed

lemma fund_tree_effect:
  assumes "can_fund k c" "fund_tree k t c = (c', True)"
  shows "can_fund k c'" "ch_distributors c' = ch_distributors c" "covered k c' t"
    and "ch_distributors c (distributor_address k v) = Some mdv \<Longrightarrow> vault_balance k c v \<le> vault_balance k c' v"
    and "covered k c t \<Longrightarrow> c' = c"
proof -
  let ?d = "distributor_address k (at_airdrop_version t)"
  from assms(2)
  have "can_fund k c' \<and> ch_distributors c' = ch_distributors c \<and> covered k c' t
      \<and> (\<forall>v mdv. ch_distributors c (distributor_address k v) = Some mdv \<longrightarrow> vault_balance k c v \<le> vault_balance k c' v)
      \<and> (covered k c t \<longrightarrow> c' = c)"
  proof (cases rule: fund_tree_cases)
    case (1 md)
    with assms(1) show ?thesis by (auto simp: covered_def)
  next
    case (2 md target a)
    then have "unat (at_max_total_claim t) \<le> unat (md_total_amount_claimed md) + unat (ta_amount a)"
      "unat (md_total_amount_claimed md) \<le> unat (at_max_total_claim t)"
      by (simp_all add: word_le_nat_alt checked_sub_Some)
    with 2 assms(1) show ?thesis by (auto simp: covered_def vault_balance_def balance_def)
  next
    case fund: (3 md target a l)
    note md = fund(1)
    have te: "transfer_effect (ki_env k)" using assms(1) by (simp add: can_fund_def)
    note bal = transfer_balance(1) [OF te fund(6)]
    have up: "vault_balance k c v \<le> vault_balance k c' v" if "ch_distributors c (distributor_address k v) = Some mdv" for v mdv
      using bal [of "ata k (distributor_address k v)"] source_is_no_vault(1) [OF assms(1) that] fund(7)
      by (auto simp: vault_balance_def split: if_splits)
    have t: "unat (at_max_total_claim t) = unat (md_total_amount_claimed md) + unat target"
      using fund(3) by (simp add: checked_sub_Some)
    have "balance l (ata k ?d) = unat (ta_amount a) + unat (target - ta_amount a)"
      using bal [of "ata k ?d"] source_is_no_vault(1) [OF assms(1) md] fund(4) by (simp add: balance_def)
    also have "\<dots> = unat target" using fund(5) by (simp add: unat_sub not_le word_le_nat_alt word_less_nat_alt)
    finally have "covered k c' t" using md fund(7) t by (simp add: covered_def vault_balance_def)
    moreover have "\<not> covered k c t"
      using md fund(2,4,5) t by (simp add: covered_def vault_balance_def balance_def word_le_nat_alt)
    ultimately show ?thesis
      using up fund(7) can_fund_keeps [OF assms(1)] transfer_keeps(1) [OF te fund(6)] by auto
  qed
  then show "can_fund k c'" "ch_distributors c' = ch_distributors c" "covered k c' t"
    and "ch_distributors c (distributor_address k v) = Some mdv \<Longrightarrow> vault_balance k c v \<le> vault_balance k c' v"
    and "covered k c t \<Longrightarrow> c' = c" by blast+
qed

text \<open>The files that are funded: trees in plain files with the extension \<^verbatim>\<open>json\<close>.\<close>

definition funded_tree :: "tree_file \<Rightarrow> airdrop_merkle_tree \<Rightarrow> bool" where
  "funded_tree f t \<longleftrightarrow> \<not> tf_is_dir f \<and> tf_extension f = Some ''json'' \<and> tf_tree f = Some t"

lemma fund_file_cases:
  assumes "fund_file k f c = (c', True)"
  obtains (tree) t where "funded_tree f t" "fund_tree k t c = (c', True)"
    | (skip) "c' = c" "\<And>t. \<not> funded_tree f t"
  using assms by (auto simp: fund_file_def funded_tree_def split: if_splits option.splits)

lemma covered_up:
  assumes "covered k c t" "ch_distributors c' = ch_distributors c"
    and "\<And>v md. ch_distributors c (distributor_address k v) = Some md \<Longrightarrow> vault_balance k c v \<le> vault_balance k c' v"
  shows "covered k c' t"
proof -
  from assms(1) obtain md where md: "ch_distributors c (distributor_address k (at_airdrop_version t)) = Some md"
    "md_clawed_back md \<or> unat (md_total_amount_claimed md) \<le> unat (at_max_total_claim t)
       \<and> unat (at_max_total_claim t) \<le> unat (md_total_amount_claimed md) + vault_balance k c (at_airdrop_version t)"
    by (auto simp: covered_def)
  with assms(2) assms(3) [OF md(1)] show ?thesis by (auto simp: covered_def)
qed

lemma fund_file_effect:
  assumes "can_fund k c" "fund_file k f c = (c', True)"
  shows "can_fund k c'" "ch_distributors c' = ch_distributors c" "funded_tree f t \<Longrightarrow> covered k c' t"
    and "ch_distributors c (distributor_address k v) = Some md \<Longrightarrow> vault_balance k c v \<le> vault_balance k c' v"
proof -
  have "can_fund k c' \<and> ch_distributors c' = ch_distributors c \<and> (\<forall>t. funded_tree f t \<longrightarrow> covered k c' t)
      \<and> (\<forall>v md. ch_distributors c (distributor_address k v) = Some md \<longrightarrow> vault_balance k c v \<le> vault_balance k c' v)"
    using assms(2)
  proof (cases rule: fund_file_cases)
    case (tree t)
    then show ?thesis using fund_tree_effect(1-4) [OF assms(1) tree(2)] by (auto simp: funded_tree_def)
  next
    case skip
    then show ?thesis using assms(1) by simp
  qed
  then show "can_fund k c'" "ch_distributors c' = ch_distributors c" "funded_tree f t \<Longrightarrow> covered k c' t"
    and "ch_distributors c (distributor_address k v) = Some md \<Longrightarrow> vault_balance k c v \<le> vault_balance k c' v" by blast+
qed

lemma fund_files_effect:
  "can_fund k c \<Longrightarrow> for_each (fund_file k) fs c = (c', True) \<Longrightarrow>
   can_fund k c' \<and> ch_distributors c' = ch_distributors c
   \<and> (\<forall>v md. ch_distributors c (distributor_address k v) = Some md \<longrightarrow> vault_balance k c v \<le> vault_balance k c' v)
   \<and> (\<forall>f t. f \<in> set fs \<and> funded_tree f t \<longrightarrow> covered k c' t)"
proof (induction fs arbitrary: c)
  case (Cons f fs)
  from Cons.prems(2) obtain c1 where c1: "fund_file k f c = (c1, True)" "for_each (fund_file k) fs c1 = (c', True)"
    by (auto simp: and_run_ok)
  note step = fund_file_effect [OF Cons.prems(1) c1(1)]
  note IH = Cons.IH [OF step(1) c1(2)]
  have "covered k c' t" if "funded_tree f t" for t
    using covered_up [OF step(3) [OF that]] IH by blast
  moreover have "vault_balance k c v \<le> vault_balance k c' v" if "ch_distributors c (distributor_address k v) = Some md" for v md
  proof -
    have "vault_balance k c1 v \<le> vault_balance k c' v" using IH that step(2) by auto
    with step(4) [OF that] show ?thesis by simp
  qed
  ultimately show ?case using IH step(2) by auto
qed simp

lemma fund_tree_covered:
  assumes "can_fund k c" "covered k c t"
  shows "fund_tree k t c = (c, True)"
proof -
  obtain md where md: "ch_distributors c (distributor_address k (at_airdrop_version t)) = Some md"
    "md_clawed_back md \<or> unat (md_total_amount_claimed md) \<le> unat (at_max_total_claim t)
       \<and> unat (at_max_total_claim t) \<le> unat (md_total_amount_claimed md) + vault_balance k c (at_airdrop_version t)"
    using assms(2) by (auto simp: covered_def)
  obtain v where v: "lg_accounts (ch_ledger c) (ata k (distributor_address k (at_airdrop_version t))) = Some v"
    using source_is_no_vault(2) [OF assms(1) md(1)] by blast
  show ?thesis
  proof (cases "md_clawed_back md")
    case False
    then have "checked_sub (at_max_total_claim t) (md_total_amount_claimed md)
        = Some (at_max_total_claim t - md_total_amount_claimed md)"
      using md(2) by (simp add: checked_sub_def word_le_nat_alt)
    moreover have "at_max_total_claim t - md_total_amount_claimed md \<le> ta_amount v"
      using md(2) False v by (simp add: word_le_nat_alt unat_sub vault_balance_def balance_def le_diff_conv add.commute)
    ultimately show ?thesis using md(1) v False by (simp add: fund_tree_def)
  qed (use md(1) in \<open>simp add: fund_tree_def\<close>)
qed

lemma fund_file_again:
  assumes "can_fund k c" "\<And>t. funded_tree f t \<Longrightarrow> covered k c t" "fund_file k f c0 = (c1, True)"
  shows "fund_file k f c = (c, True)"
  using assms(3) fund_tree_covered [OF assms(1)] assms(2)
  by (auto simp: fund_file_def funded_tree_def split: if_splits option.splits)

lemma fund_files_again:
  "can_fund k c \<Longrightarrow> (\<And>f t. f \<in> set fs \<Longrightarrow> funded_tree f t \<Longrightarrow> covered k c t) \<Longrightarrow>
   for_each (fund_file k) fs c0 = (c1, True) \<Longrightarrow> for_each (fund_file k) fs c = (c, True)"
proof (induction fs arbitrary: c0)
  case (Cons f fs)
  from Cons.prems(3) obtain c2 where c2: "fund_file k f c0 = (c2, True)" "for_each (fund_file k) fs c2 = (c1, True)"
    by (auto simp: and_run_ok)
  have "fund_file k f c = (c, True)" by (rule fund_file_again [OF Cons.prems(1) _ c2(1)]) (rule Cons.prems(2) [of f], simp_all)
  moreover have "for_each (fund_file k) fs c = (c, True)"
    by (rule Cons.IH [OF Cons.prems(1) _ c2(2)], rule Cons.prems(2)) simp_all
  ultimately show ?case by simp
qed simp

section \<open>What creating distributors does\<close>

text \<open>A distributor carries the tree and the terms of the command and is administered by the payer.\<close>

definition carries :: "client \<Rightarrow> new_distributor_cmd \<Rightarrow> airdrop_merkle_tree \<Rightarrow> merkle_distributor \<Rightarrow> bool" where
  "carries k args t md \<longleftrightarrow>
     md_root md = at_merkle_root t \<and> md_max_total_claim md = at_max_total_claim t
     \<and> md_max_num_nodes md = at_max_num_nodes t \<and> md_start_ts md = nx_start_vesting_ts args
     \<and> md_end_ts md = nx_end_vesting_ts args \<and> md_clawback_start_ts md = nx_clawback_start_ts args
     \<and> md_enable_slot md = nx_enable_slot args \<and> md_closable md = nx_closable args \<and> md_admin md = ki_payer k"

text \<open>The associated token program creates the one account and nothing else; its addresses are not those of
  distributors, both being derived.\<close>

definition creates_ata :: "client \<Rightarrow> bool" where
  "creates_ata k \<longleftrightarrow>
     (\<forall>user l l'. ki_create_ata k user (ki_mint k) l = Inr l' \<longrightarrow>
        lg_supply l' = lg_supply l \<and> (\<forall>x. x \<noteq> ata k user \<longrightarrow> lg_accounts l' x = lg_accounts l x))
     \<and> (\<forall>user version. ata k user \<noteq> distributor_address k version)"

definition only_distributors :: "client \<Rightarrow> chain \<Rightarrow> bool" where
  "only_distributors k c \<longleftrightarrow> (\<forall>version. account_at c (distributor_address k version) \<noteq> Some None)"

lemma account_at_eq:
  "account_at c x = None \<Longrightarrow> ch_distributors c x = None"
  "account_at c x \<noteq> Some None \<Longrightarrow> account_at c x \<noteq> None \<Longrightarrow> \<exists>md. ch_distributors c x = Some md \<and> account_at c x = Some (Some md)"
  by (auto simp: account_at_def split: option.splits if_splits)

lemma matches_carries:
  "check_distributor_onchain_matches (Some md) t args (ki_payer k) l = Inr () \<Longrightarrow> carries k args t md"
  by (auto simp: check_distributor_onchain_matches_def carries_def ok_iff)

lemma expect_match_ok:
  assumes "expect_match k args t c = (c', True)"
  shows "c' = c"
    and "ch_distributors c (distributor_address k (at_airdrop_version t)) = Some md \<Longrightarrow> carries k args t md"
proof -
  show "c' = c" using assms by (auto simp: expect_match_def split: option.splits sum.splits)
  assume "ch_distributors c (distributor_address k (at_airdrop_version t)) = Some md"
  then have "account_at c (distributor_address k (at_airdrop_version t)) = Some (Some md)" by (simp add: account_at_def)
  with assms show "carries k args t md"
    by (auto simp: expect_match_def intro!: matches_carries [of md t args k "ch_ledger c"] split: sum.splits)
qed

lemma created_ata_keeps:
  assumes "creates_ata k" "ki_create_ata k user (ki_mint k) (ch_ledger c) = Inr l"
  shows "account_at (c\<lparr>ch_ledger := l\<rparr>) (distributor_address k v) = account_at c (distributor_address k v)"
proof -
  have "lg_supply l = lg_supply (ch_ledger c)"
    "lg_accounts l (distributor_address k v) = lg_accounts (ch_ledger c) (distributor_address k v)"
    using assms unfolding creates_ata_def by metis+
  then show ?thesis by (auto simp: account_at_def)
qed

lemma get_or_create_ata_ok:
  assumes "creates_ata k" "get_or_create_ata k user c = (c', True)"
  shows "ch_distributors c' = ch_distributors c"
    and "account_at c' (distributor_address k v) = account_at c (distributor_address k v)"
  using assms created_ata_keeps [OF assms(1)]
  by (auto simp: get_or_create_ata_def split: if_splits sum.splits)

lemma send_new_distributor_ok:
  assumes "creates_ata k" "send_new_distributor k cx args t missing c = (c', True)"
  shows "ch_distributors c (distributor_address k (at_airdrop_version t)) = None"
    and "\<exists>md. ch_distributors c' = (ch_distributors c)(distributor_address k (at_airdrop_version t) \<mapsto> md)
      \<and> carries k args t md"
    and "distributor_address k v \<noteq> distributor_address k (at_airdrop_version t) \<Longrightarrow>
      account_at c' (distributor_address k v) = account_at c (distributor_address k v)"
proof -
  define d where d: "d = distributor_address k (at_airdrop_version t)"
  from assms(2) obtain l where l: "(if missing then ki_create_ata k d (ki_mint k) (ch_ledger c) else Inr (ch_ledger c)) = Inr l"
    by (cases "if missing then ki_create_ata k d (ki_mint k) (ch_ledger c) else Inr (ch_ledger c)")
      (simp_all add: send_new_distributor_def Let_def d [symmetric])
  have same: "account_at (c\<lparr>ch_ledger := l\<rparr>) (distributor_address k v) = account_at c (distributor_address k v)" for v
    using l created_ata_keeps [OF assms(1)] by (auto split: if_splits)
  from assms(2) l obtain a na where "new_distributor (ki_env k) (payer_ctx k cx) a na (c\<lparr>ch_ledger := l\<rparr>) = Inr c'"
    "nd_distributor a = d" "nd_admin a = ki_payer k"
    "na_root na = at_merkle_root t" "na_max_total_claim na = at_max_total_claim t" "na_max_num_nodes na = at_max_num_nodes t"
    "na_start_vesting_ts na = nx_start_vesting_ts args" "na_end_vesting_ts na = nx_end_vesting_ts args"
    "na_clawback_start_ts na = nx_clawback_start_ts args" "na_enable_slot na = nx_enable_slot args"
    "na_closable na = nx_closable args"
    by (auto simp: send_new_distributor_def Let_def d [symmetric] split: sum.splits)
  then obtain bump where "ch_distributors c d = None"
    "c' = c\<lparr>ch_ledger := l, ch_distributors := (ch_distributors c)(d \<mapsto> fresh_distributor a na bump)\<rparr>"
    "carries k args t (fresh_distributor a na bump)"
    by (auto elim!: new_distributorE simp: carries_def fresh_distributor_def)
  moreover from this have "account_at c' x = account_at (c\<lparr>ch_ledger := l\<rparr>) x" if "x \<noteq> d" for x
    using that by (auto simp: account_at_def)
  ultimately show "ch_distributors c (distributor_address k (at_airdrop_version t)) = None"
    and "\<exists>md. ch_distributors c' = (ch_distributors c)(distributor_address k (at_airdrop_version t) \<mapsto> md)
      \<and> carries k args t md"
    and "distributor_address k v \<noteq> distributor_address k (at_airdrop_version t) \<Longrightarrow>
      account_at c' (distributor_address k v) = account_at c (distributor_address k v)"
    using same by (auto simp: d)
qed

lemma create_distributors_ok:
  assumes "creates_ata k" "\<not> nx_skip_verify args" "nx_airdrop_version args = None"
  shows "create_distributors k cx args files c = (c', True) \<Longrightarrow> only_distributors k c \<Longrightarrow>
    (\<forall>d md. ch_distributors c d = Some md \<longrightarrow> ch_distributors c' d = Some md)
    \<and> (\<forall>file t. file \<in> set files \<and> tf_tree file = Some t \<longrightarrow>
         (\<exists>md. ch_distributors c' (distributor_address k (at_airdrop_version t)) = Some md \<and> carries k args t md))"
proof (induction files arbitrary: c)
  case (Cons f fs)
  show ?case
  proof (cases "tf_tree f")
    case None
    then show ?thesis using Cons.IH [of c] Cons.prems by auto
  next
    case t: (Some t)
    let ?d = "distributor_address k (at_airdrop_version t)"
    obtain c3 md where c3: "create_distributors k cx args fs c3 = (c', True)" "only_distributors k c3"
      "\<And>d x. ch_distributors c d = Some x \<Longrightarrow> ch_distributors c3 d = Some x"
      "ch_distributors c3 ?d = Some md" "carries k args t md"
    proof (cases "account_at c ?d = None")
      case False
      with Cons.prems(1) t assms(3) have "expect_match k args t c = (c, True)" "create_distributors k cx args fs c = (c', True)"
        by (auto simp: and_run_ok dest: expect_match_ok(1))
      moreover obtain md where "ch_distributors c ?d = Some md"
        using account_at_eq(2) [of c ?d] False Cons.prems(2) by (auto simp: only_distributors_def)
      ultimately show thesis using that Cons.prems(2) expect_match_ok(2) by blast
    next
      case True
      with Cons.prems(1) t assms(2,3) obtain c1 c2 c3 where c: "get_or_create_ata k (ki_payer k) c = (c1, True)"
        "send_new_distributor k cx args t (account_at c (ata k ?d) = None) c1 = (c2, True)"
        "expect_match k args t c2 = (c3, True)" "create_distributors k cx args fs c3 = (c', True)"
        by (auto simp: and_run_ok Let_def)
      note new = send_new_distributor_ok [OF assms(1) c(2)]
      have eq: "c3 = c2" by (rule expect_match_ok(1) [OF c(3)])
      from new(2) obtain md where md: "ch_distributors c2 = (ch_distributors c1)(?d \<mapsto> md)" "carries k args t md" by blast
      have "account_at c2 (distributor_address k v) \<noteq> Some None" for v
        using Cons.prems(2) new(3) [of v] get_or_create_ata_ok(2) [OF assms(1) c(1), of v] md(1)
        by (cases "distributor_address k v = ?d") (auto simp: only_distributors_def account_at_def [of c2 ?d])
      then have "only_distributors k c2" by (simp add: only_distributors_def)
      moreover have "ch_distributors c2 d = Some x" if "ch_distributors c d = Some x" for d x
        using that md(1) account_at_eq(1) [OF True] get_or_create_ata_ok(1) [OF assms(1) c(1)] by auto
      ultimately show thesis using that [of c2 md] c(4) md unfolding eq by simp
    qed
    then show ?thesis using Cons.IH [OF c3(1,2)] t by fastforce
  qed
qed simp

section \<open>Properties\<close>


definition demo_client :: client where
  "demo_client =
     \<lparr>ki_env = demo_env\<lparr>associated_token_address := (\<lambda>owner mint. if owner = Pubkey 10 then Pubkey 11 else Pubkey 70)\<rparr>,
      ki_payer = Pubkey 71, ki_mint = Pubkey 5, ki_create_ata = (\<lambda>_ _ l. Inr l)\<rparr>"

definition demo_tree_file :: tree_file where
  "demo_tree_file = \<lparr>tf_path = ''tree_0.json'', tf_is_dir = False, tf_extension = Some ''json'',
     tf_tree = Some \<lparr>at_merkle_root = 33, at_airdrop_version = 0, at_max_num_nodes = 1, at_max_total_claim = 1000,
       at_tree_nodes = []\<rparr>\<rparr>"

lemma demo_addresses:
  "distributor_address demo_client v = Pubkey 10" "ata demo_client (Pubkey 10) = Pubkey 11"
  "owner \<noteq> Pubkey 10 \<Longrightarrow> ata demo_client owner = Pubkey 70"
  by (simp_all add: distributor_address_def ata_def demo_client_def demo_env_def demo_find_def distributor_seeds_def)

lemma demo_funds:
  "fund_tree demo_client (the (tf_tree demo_tree_file)) (demo_created\<lparr>ch_ledger := demo_ledger 400 0 5000\<rparr>)
     = (demo_created\<lparr>ch_ledger := demo_ledger 1000 0 4400\<rparr>, True)"
proof -
  have "token_transfer (ki_env demo_client) (Pubkey 70) (Pubkey 11) (Pubkey 71) 600 (demo_ledger 400 0 5000) = Inr (demo_ledger 1000 0 4400)"
    by (simp add: demo_client_def demo_defs ledger_transfer_def moved_def checked_sub_def checked_add_def fun_eq_iff)
  moreover have "lg_accounts (demo_ledger 400 0 5000) (Pubkey 11) = Some (demo_account (Pubkey 10) 400)"
    by (simp add: demo_ledger_def)
  moreover have "ki_payer demo_client = Pubkey 71" by (simp add: demo_client_def)
  ultimately show ?thesis
    by (simp add: fund_tree_def demo_addresses demo_tree_file_def demo_created_def demo_distributor_def checked_sub_def
        demo_account_def Let_def)
qed



definition demo_cmd :: new_distributor_cmd where
  "demo_cmd = \<lparr>nx_start_vesting_ts = I64 100, nx_end_vesting_ts = I64 200, nx_merkle_tree_path = ''trees'', nx_clawback_start_ts = I64 100000,
     nx_enable_slot = 0, nx_airdrop_version = None, nx_closable = False, nx_skip_verify = False\<rparr>"

definition demo_admin :: client where
  "demo_admin = demo_client\<lparr>ki_payer := Pubkey 2\<rparr>"

definition demo_wallet :: ledger where
  "demo_wallet = \<lparr>lg_accounts = (\<lambda>_. None)(Pubkey 11 \<mapsto> demo_account (Pubkey 10) 0, Pubkey 70 \<mapsto> demo_account (Pubkey 2) 0),
     lg_supply = (\<lambda>_. None)(Pubkey 5 \<mapsto> 5000)\<rparr>"

definition demo_fresh :: chain where
  "demo_fresh = demo_start\<lparr>ch_ledger := demo_wallet\<rparr>"

lemma demo_admin_addresses:
  "distributor_address demo_admin v = Pubkey 10" "ata demo_admin (Pubkey 10) = Pubkey 11" "ata demo_admin (Pubkey 2) = Pubkey 70"
  "ki_payer demo_admin = Pubkey 2"
  using demo_addresses by (simp_all add: distributor_address_def ata_def demo_admin_def)

lemma demo_accounts:
  "account_at demo_fresh (Pubkey 10) = None" "account_at demo_fresh (Pubkey 11) = Some None"
  "account_at demo_fresh (Pubkey 70) = Some None"
  by (simp_all add: account_at_def demo_fresh_def demo_start_def demo_wallet_def)

lemma demo_creates_distributor:
  "send_new_distributor demo_admin (demo_ctx (I64 50) (Pubkey 2)) demo_cmd (the (tf_tree demo_tree_file)) False demo_fresh
     = (demo_fresh\<lparr>ch_distributors := (\<lambda>_. None)(Pubkey 10 \<mapsto> demo_distributor 0 0 0 False)\<rparr>, True)"
  by (simp add: send_new_distributor_def demo_admin_addresses demo_tree_file_def demo_cmd_def Let_def)
    (simp add: demo_admin_def demo_client_def demo_wallet_def demo_fresh_def demo_defs payer_ctx_def new_distributor_def
      check_new_distributor_def handle_new_distributor_def require_unused_def load_token_def load_mint_def
      require_signer_def require_associated_def merkle_distributor_default_def distributor_seeds_def admin_id_def
      checked_add_i64_def SECONDS_PER_DAY_def less_i64_def less_eq_i64_def ival_def i64_of_def)

lemma demo_matches:
  "expect_match demo_admin demo_cmd (the (tf_tree demo_tree_file))
     (demo_fresh\<lparr>ch_distributors := (\<lambda>_. None)(Pubkey 10 \<mapsto> demo_distributor 0 0 0 False)\<rparr>)
   = (demo_fresh\<lparr>ch_distributors := (\<lambda>_. None)(Pubkey 10 \<mapsto> demo_distributor 0 0 0 False)\<rparr>, True)"
  by (simp add: expect_match_def demo_admin_addresses account_at_def check_distributor_onchain_matches_def
      demo_distributor_def demo_tree_file_def demo_cmd_def demo_fresh_def demo_wallet_def demo_account_def)

lemma demo_deploys:
  "tf_tree f = tf_tree demo_tree_file \<Longrightarrow>
   process_new_distributor demo_admin (demo_ctx (I64 50) (Pubkey 2)) demo_cmd [f] demo_fresh
     = (demo_fresh\<lparr>ch_distributors := (\<lambda>_. None)(Pubkey 10 \<mapsto> demo_distributor 0 0 0 False)\<rparr>, True)"
  using demo_creates_distributor demo_matches
  by (simp add: process_new_distributor_def by_path_def demo_tree_file_def demo_admin_addresses demo_accounts Let_def
      get_or_create_ata_def) (simp add: demo_cmd_def)


end
