(* ===== verification/Cli_Admin.thy ===== *)
theory Cli_Admin
  imports Cli_Chain
begin

text \<open>
  The tools of the admin: \<^verbatim>\<open>process_set_admin.rs\<close>, \<^verbatim>\<open>process_set_clawback_receiver.rs\<close>,
  \<^verbatim>\<open>process_set_enable_slot.rs\<close>, \<^verbatim>\<open>process_set_enable_slot_by_time.rs\<close>, \<^verbatim>\<open>process_get_slot.rs\<close>,
  \<^verbatim>\<open>process_clawback.rs\<close>, \<^verbatim>\<open>proccess_close_distribitor.rs\<close> and \<^verbatim>\<open>process_close_claim_status.rs\<close>.

  Four of them send each transaction again until it succeeds. Such a loop may never end, so it is a
  \<open>partial_function (option)\<close>, and \<open>None\<close> is not returning. The attempts are numbered: \<open>net n\<close> says at which
  slot and time the \<open>n\<close>-th attempt is made and whether it is lost on the way. The locale \<open>setting_tool\<close>
  collects what a tool that changes one setting needs from the program; it is interpreted on the three
  tools of that kind.
\<close>

section \<open>Sending until it succeeds\<close>

record attempt =
  tr_ctx :: ctx
  tr_lost :: bool

partial_function (option) retry ::
  "client \<Rightarrow> (merkle_distributor \<Rightarrow> bool) \<Rightarrow> (merkle_distributor \<Rightarrow> instruction) \<Rightarrow> pubkey \<Rightarrow> (nat \<Rightarrow> attempt) \<Rightarrow> nat \<Rightarrow> chain
   \<Rightarrow> (outcome \<times> nat) option" where
  "retry k already ix distributor net n c =
     (case ch_distributors c distributor of
        None \<Rightarrow> Some (panicked c, n)
      | Some distributor_state \<Rightarrow>
          if already distributor_state then Some (finished c, n)
          else if tr_lost (net n) then retry k already ix distributor net (Suc n) c
          else
            (case exec (ki_env k) (payer_ctx k (tr_ctx (net n))) (ix distributor_state) c of
               Inl _ \<Rightarrow> retry k already ix distributor net (Suc n) c
             | Inr c' \<Rightarrow> Some (finished c', Suc n)))"

fun retry_files ::
  "client \<Rightarrow> (merkle_distributor \<Rightarrow> bool) \<Rightarrow> (pubkey \<Rightarrow> merkle_distributor \<Rightarrow> instruction) \<Rightarrow> (nat \<Rightarrow> attempt) \<Rightarrow> nat
   \<Rightarrow> tree_file list \<Rightarrow> chain \<Rightarrow> outcome option" where
  "retry_files k already ix net n [] c = Some (finished c)"
| "retry_files k already ix net n (f # fs) c =
     (case tf_tree f of
        None \<Rightarrow> Some (panicked c)
      | Some merkle_tree \<Rightarrow>
          let distributor = distributor_address k (at_airdrop_version merkle_tree) in
          (case retry k already (ix distributor) distributor net n c of
             None \<Rightarrow> None
           | Some ((c', ok), n') \<Rightarrow> if ok then retry_files k already ix net n' fs c' else Some (panicked c')))"

section \<open>The tools\<close>

definition set_admin_ix :: "client \<Rightarrow> pubkey \<Rightarrow> pubkey \<Rightarrow> merkle_distributor \<Rightarrow> instruction" where
  "set_admin_ix k new_admin distributor md =
     SetAdmin \<lparr>sa_distributor = distributor, sa_admin = ki_payer k, sa_new_admin = new_admin\<rparr>"

definition process_set_admin :: "client \<Rightarrow> pubkey \<Rightarrow> (nat \<Rightarrow> attempt) \<Rightarrow> tree_file list \<Rightarrow> chain \<Rightarrow> outcome option" where
  "process_set_admin k new_admin net files c =
     retry_files k (\<lambda>md. md_admin md = new_admin) (set_admin_ix k new_admin) net 0 (by_path files) c"

definition set_clawback_ix :: "client \<Rightarrow> pubkey \<Rightarrow> pubkey \<Rightarrow> merkle_distributor \<Rightarrow> instruction" where
  "set_clawback_ix k new_clawback_account distributor md =
     SetClawbackReceiver \<lparr>scr_distributor = distributor, scr_new_clawback_account = new_clawback_account, scr_admin = ki_payer k\<rparr>"

definition process_set_clawback_receiver ::
  "client \<Rightarrow> pubkey \<Rightarrow> (nat \<Rightarrow> attempt) \<Rightarrow> tree_file list \<Rightarrow> chain \<Rightarrow> outcome option" where
  "process_set_clawback_receiver k receiver net files c =
     (let new_clawback_account = ata k receiver in
      retry_files k (\<lambda>md. md_clawback_receiver md = new_clawback_account) (set_clawback_ix k new_clawback_account) net 0
        (by_path files) c)"

definition set_slot_ix :: "client \<Rightarrow> u64 \<Rightarrow> pubkey \<Rightarrow> merkle_distributor \<Rightarrow> instruction" where
  "set_slot_ix k slot distributor md = SetEnableSlot \<lparr>ses_distributor = distributor, ses_admin = ki_payer k\<rparr> slot"

text \<open>With one version given, a single transaction, whose failure is a panic.\<close>

definition set_slot_once :: "client \<Rightarrow> attempt \<Rightarrow> u64 \<Rightarrow> u64 \<Rightarrow> chain \<Rightarrow> outcome" where
  "set_slot_once k a slot airdrop_version c =
     (let distributor = distributor_address k airdrop_version in
      case ch_distributors c distributor of
        None \<Rightarrow> panicked c
      | Some md \<Rightarrow>
          if md_enable_slot md = slot then finished c
          else if tr_lost a then panicked c
          else case exec (ki_env k) (payer_ctx k (tr_ctx a)) (set_slot_ix k slot distributor md) c of
            Inl _ \<Rightarrow> panicked c
          | Inr c' \<Rightarrow> finished c')"

definition process_set_enable_slot ::
  "client \<Rightarrow> u64 option \<Rightarrow> u64 \<Rightarrow> (nat \<Rightarrow> attempt) \<Rightarrow> tree_file list \<Rightarrow> chain \<Rightarrow> outcome option" where
  "process_set_enable_slot k airdrop_version slot net files c =
     (case airdrop_version of
        Some version \<Rightarrow> Some (set_slot_once k (net 0) slot version c)
      | None \<Rightarrow> retry_files k (\<lambda>md. md_enable_slot md = slot) (set_slot_ix k slot) net 0 (by_path files) c)"

definition clawback_ix :: "client \<Rightarrow> pubkey \<Rightarrow> merkle_distributor \<Rightarrow> instruction" where
  "clawback_ix k distributor distributor_state =
     Clawback \<lparr>cb_distributor = distributor, cb_from = md_token_vault distributor_state,
       cb_to = md_clawback_receiver distributor_state, cb_claimant = ki_payer k,
       cb_system_program = system_program_id (ki_env k), cb_token_program = token_program_id (ki_env k)\<rparr>"

definition process_clawback :: "client \<Rightarrow> (nat \<Rightarrow> attempt) \<Rightarrow> tree_file list \<Rightarrow> chain \<Rightarrow> outcome option" where
  "process_clawback k net files c = retry_files k md_clawed_back (clawback_ix k) net 0 (by_path files) c"

text \<open>Closing distributors: a failed transaction is only reported.\<close>

fun close_distributors :: "client \<Rightarrow> ctx \<Rightarrow> u64 option \<Rightarrow> tree_file list \<Rightarrow> chain \<Rightarrow> outcome" where
  "close_distributors k cx airdrop_version [] c = finished c"
| "close_distributors k cx airdrop_version (f # fs) c =
     (case tf_tree f of
        None \<Rightarrow> panicked c
      | Some merkle_tree \<Rightarrow>
          if airdrop_version \<noteq> None \<and> airdrop_version \<noteq> Some (at_airdrop_version merkle_tree)
          then close_distributors k cx airdrop_version fs c
          else
            let distributor = distributor_address k (at_airdrop_version merkle_tree) in
            (case ch_distributors c distributor of
               None \<Rightarrow> close_distributors k cx airdrop_version fs c
             | Some md \<Rightarrow>
                 and_run (get_or_create_ata k (ki_payer k) c) (\<lambda>c1.
                   let c2 = (case exec (ki_env k) (payer_ctx k cx) (CloseDistributor
                       \<lparr>cd_distributor = distributor, cd_token_vault = md_token_vault md, cd_admin = ki_payer k,
                        cd_destination_token_account = ata k (ki_payer k), cd_token_program = token_program_id (ki_env k)\<rparr>) c1 of
                       Inl _ \<Rightarrow> c1 | Inr c2 \<Rightarrow> c2)
                   in if airdrop_version \<noteq> None then finished c2 else close_distributors k cx airdrop_version fs c2)))"

definition process_close_distributor :: "client \<Rightarrow> ctx \<Rightarrow> u64 option \<Rightarrow> tree_file list \<Rightarrow> chain \<Rightarrow> outcome" where
  "process_close_distributor k cx airdrop_version files c = close_distributors k cx airdrop_version (by_path files) c"

section \<open>Slots and times\<close>

record perf_sample =
  ps_num_slots :: u64
  ps_sample_period_secs :: "16 word"

record clock =
  ck_slot :: u64
  ck_unix_timestamp :: i64

definition DEFAULT_MS_PER_SLOT :: u64 where
  "DEFAULT_MS_PER_SLOT = 400"

fun sum_slot_times :: "u64 \<Rightarrow> perf_sample list \<Rightarrow> u64 option" where
  "sum_slot_times total_time [] = Some total_time"
| "sum_slot_times total_time (sample # samples) =
     Option.bind (checked_mul (ucast (ps_sample_period_secs sample)) 1000) (\<lambda>ms.
     Option.bind (checked_div ms (ps_num_slots sample)) (\<lambda>slot_time.
     Option.bind (checked_add total_time slot_time) (\<lambda>total. sum_slot_times total samples)))"

text \<open>\<open>None\<close> is a panic: the cluster gave no answer, or the arithmetic failed.\<close>

definition get_average_slot_time :: "perf_sample list option \<Rightarrow> u64 option" where
  "get_average_slot_time answer =
     (case answer of
        None \<Rightarrow> None
      | Some samples \<Rightarrow>
          let num_samples = word_of_nat (length samples) in
          if num_samples = 0 then Some DEFAULT_MS_PER_SLOT
          else
            Option.bind (sum_slot_times 0 samples) (\<lambda>total_time.
            Option.bind (checked_div total_time num_samples) (\<lambda>average_time.
            if average_time < DEFAULT_MS_PER_SLOT div 2 \<or> DEFAULT_MS_PER_SLOT * 2 < average_time
            then Some DEFAULT_MS_PER_SLOT else Some average_time)))"

definition process_get_slot :: "perf_sample list option \<Rightarrow> clock \<Rightarrow> u64 \<Rightarrow> u64 option" where
  "process_get_slot answer clock enable_time =
     (if ival (ck_unix_timestamp clock) < 0 then None
      else
        let current_time = word_of_int (ival (ck_unix_timestamp clock)); current_slot = ck_slot clock in
        Option.bind (get_average_slot_time answer) (\<lambda>average_slot_time.
        if current_time < enable_time
        then Option.bind (checked_mul (enable_time - current_time) 1000) (\<lambda>ms.
             Option.bind (checked_div ms average_slot_time) (checked_add current_slot))
        else Option.bind (checked_mul (current_time - enable_time) 1000) (\<lambda>ms.
             Option.bind (checked_div ms average_slot_time) (checked_sub current_slot))))"

definition set_slot_at :: "client \<Rightarrow> ctx \<Rightarrow> u64 \<Rightarrow> u64 \<Rightarrow> chain \<Rightarrow> outcome" where
  "set_slot_at k cx slot airdrop_version c =
     (case exec (ki_env k) (payer_ctx k cx)
         (SetEnableSlot \<lparr>ses_distributor = distributor_address k airdrop_version, ses_admin = ki_payer k\<rparr> slot) c of
        Inl _ \<Rightarrow> panicked c
      | Inr c' \<Rightarrow> finished c')"

definition process_set_enable_slot_by_time ::
  "client \<Rightarrow> ctx \<Rightarrow> perf_sample list option \<Rightarrow> clock \<Rightarrow> u64 option \<Rightarrow> u64 \<Rightarrow> tree_file list \<Rightarrow> chain \<Rightarrow> outcome" where
  "process_set_enable_slot_by_time k cx answer clock airdrop_version enable_time files c =
     (case process_get_slot answer clock enable_time of
        None \<Rightarrow> panicked c
      | Some slot \<Rightarrow>
          (case airdrop_version of
             Some version \<Rightarrow> set_slot_at k cx slot version c
           | None \<Rightarrow> for_each (\<lambda>f c. case tf_tree f of
               None \<Rightarrow> panicked c
             | Some merkle_tree \<Rightarrow> set_slot_at k cx slot (at_airdrop_version merkle_tree) c) (by_path files) c))"

section \<open>Claim records\<close>

text \<open>The totals over the versions from 0 to \<open>num_tree\<close>, both included.\<close>

fun add_totals :: "client \<Rightarrow> chain \<Rightarrow> u64 \<times> u64 \<times> u64 \<Rightarrow> u64 list \<Rightarrow> (u64 \<times> u64 \<times> u64) option" where
  "add_totals k c acc [] = Some acc"
| "add_totals k c (nodes, claimed, forgone) (i # is) =
     (case ch_distributors c (distributor_address k i) of
        None \<Rightarrow> None
      | Some distributor \<Rightarrow>
          Option.bind (checked_add nodes (md_num_nodes_claimed distributor)) (\<lambda>nodes'.
          Option.bind (checked_add claimed (md_total_amount_claimed distributor)) (\<lambda>claimed'.
          Option.bind (checked_add forgone (md_total_amount_forgone distributor)) (\<lambda>forgone'.
          add_totals k c (nodes', claimed', forgone') is))))"

definition get_total_claim :: "client \<Rightarrow> u64 \<Rightarrow> chain \<Rightarrow> (u64 \<times> u64 \<times> u64) option" where
  "get_total_claim k num_tree c = add_totals k c (0, 0, 0) (map word_of_nat [0..<Suc (unat num_tree)])"

text \<open>The filter both tools send: a byte 1 at this offset.\<close>

definition view_claim_status :: "u8 list \<Rightarrow> claim_status \<Rightarrow> bool" where
  "view_claim_status discriminator cs \<longleftrightarrow> account_data discriminator cs ! (8 + 32 + 8 + 8 + 8) = 1"

definition CLOSE_IX_PER_TRANSACTION :: nat where
  "CLOSE_IX_PER_TRANSACTION = 11"

fun run_transaction :: "env \<Rightarrow> ctx \<Rightarrow> instruction list \<Rightarrow> chain \<Rightarrow> program_error + chain" where
  "run_transaction env cx [] c = Inr c"
| "run_transaction env cx (i # is) c = and_then (exec env cx i c) (run_transaction env cx is)"

definition close_ix :: "client \<Rightarrow> pubkey \<times> claim_status \<Rightarrow> instruction" where
  "close_ix k value =
     CloseClaimStatus \<lparr>cc_claim_status = fst value, cc_claimant = cs_claimant (snd value), cc_admin = ki_payer k,
       cc_distributor = cs_distributor (snd value)\<rparr>"

fun close_loop :: "client \<Rightarrow> ctx \<Rightarrow> instruction list \<Rightarrow> (pubkey \<times> claim_status) list \<Rightarrow> chain \<Rightarrow> instruction list \<times> chain" where
  "close_loop k cx close_ixs [] c = (close_ixs, c)"
| "close_loop k cx close_ixs (value # rest) c =
     (let ixs = close_ixs @ [close_ix k value] in
      if CLOSE_IX_PER_TRANSACTION \<le> length ixs
      then (case run_transaction (ki_env k) (payer_ctx k cx) ixs c of
              Inr c' \<Rightarrow> close_loop k cx [] rest c'
            | Inl _ \<Rightarrow> close_loop k cx ixs rest c)
      else close_loop k cx ixs rest c)"

definition process_close_claim_status :: "client \<Rightarrow> ctx \<Rightarrow> (pubkey \<times> claim_status) list \<Rightarrow> chain \<Rightarrow> chain" where
  "process_close_claim_status k cx claim_status_accounts c =
     (let (close_ixs, c1) = close_loop k cx [] claim_status_accounts c in
      if close_ixs = [] then c1
      else case run_transaction (ki_env k) (payer_ctx k cx) close_ixs c1 of
        Inr c2 \<Rightarrow> c2
      | Inl _ \<Rightarrow> c1)"

section \<open>Tools that change a setting\<close>

text \<open>Attempts that do not all get lost from some point on.\<close>

definition fair :: "(nat \<Rightarrow> attempt) \<Rightarrow> bool" where
  "fair net \<longleftrightarrow> (\<forall>n. \<exists>m\<ge>n. \<not> tr_lost (net m))"

abbreviation distributor_of :: "client \<Rightarrow> airdrop_merkle_tree \<Rightarrow> pubkey" where
  "distributor_of k t \<equiv> distributor_address k (at_airdrop_version t)"

text \<open>What the loops need from the program: the instruction is accepted from the admin when \<open>fits\<close> holds, brings
  the setting about and nothing else, and is refused to anybody else.\<close>

locale setting_tool =
  fixes already :: "merkle_distributor \<Rightarrow> bool"
    and ix :: "client \<Rightarrow> pubkey \<Rightarrow> merkle_distributor \<Rightarrow> instruction"
    and upd :: "merkle_distributor \<Rightarrow> merkle_distributor"
    and fits :: "ledger \<Rightarrow> merkle_distributor \<Rightarrow> bool"
  assumes accepted: "ch_distributors c d = Some md \<Longrightarrow> \<not> already md \<Longrightarrow> md_admin md = ki_payer k \<Longrightarrow> fits (ch_ledger c) md \<Longrightarrow>
      exec (ki_env k) (payer_ctx k cx) (ix k d md) c = Inr (store_distributor c d (upd md))"
    and settles: "already (upd md)"
    and refused: "ch_distributors c d = Some md \<Longrightarrow> \<not> already md \<Longrightarrow> md_admin md \<noteq> ki_payer k \<Longrightarrow>
      \<exists>e. exec (ki_env k) (payer_ctx k cx) (ix k d md) c = Inl e"
begin

definition settled :: "merkle_distributor \<Rightarrow> merkle_distributor" where
  "settled md = (if already md then md else upd md)"

lemma already_settled: "already (settled md)"
  by (simp add: settled_def settles)

lemma retry_ends_from:
  assumes "ch_distributors c d = Some md" "\<not> already md" "md_admin md = ki_payer k" "fits (ch_ledger c) md" "\<not> tr_lost (net (n + j))"
  shows "\<exists>n'. retry k already (ix k d) d net n c = Some (finished (store_distributor c d (upd md)), n')"
  using assms(5)
proof (induction j arbitrary: n)
  case 0
  then show ?case using assms(1,2) accepted [OF assms(1-4)] by (subst retry.simps) simp
next
  case (Suc j)
  then show ?case using assms(1,2) accepted [OF assms(1-4)] Suc.IH [of "Suc n"] by (subst retry.simps) simp
qed

lemma retry_ends:
  assumes "fair net" "ch_distributors c d = Some md" "already md \<or> md_admin md = ki_payer k \<and> fits (ch_ledger c) md"
  shows "\<exists>c' n'. retry k already (ix k d) d net n c = Some (finished c', n') \<and> ch_ledger c' = ch_ledger c
    \<and> ch_distributors c' = (ch_distributors c)(d \<mapsto> settled md)"
proof (cases "already md")
  case True
  with assms(2) show ?thesis by (subst retry.simps) (auto simp: settled_def)
next
  case False
  from assms(1) obtain m where "n \<le> m" "\<not> tr_lost (net m)" unfolding fair_def by blast
  then have "\<not> tr_lost (net (n + (m - n)))" by simp
  moreover from assms(3) False have "md_admin md = ki_payer k" "fits (ch_ledger c) md" by auto
  ultimately have "\<exists>n'. retry k already (ix k d) d net n c = Some (finished (store_distributor c d (upd md)), n')"
    by (intro retry_ends_from [OF assms(2) False, where net = net and n = n and j = "m - n"])
  with False show ?thesis by (auto simp: settled_def store_distributor_def)
qed

lemma retry_refused:
  assumes "ch_distributors c d = Some md" "\<not> already md" "md_admin md \<noteq> ki_payer k"
  shows "retry k already (ix k d) d net n c = None"
proof -
  have "\<not> (K = k \<and> A = already \<and> I = ix k d \<and> D = d \<and> C = c)" if "retry K A I D net' m C = Some r" for K A I D net' m C r
  proof (rule retry.raw_induct [OF _ that, where P = "\<lambda>K A I D net' m C r. \<not> (K = k \<and> A = already \<and> I = ix k d \<and> D = d \<and> C = c)"])
    fix loop K A I D and net' :: "nat \<Rightarrow> attempt" and m C and r :: "outcome \<times> nat"
    assume IH: "\<And>K A I D (net' :: nat \<Rightarrow> attempt) m C r. loop K A I D net' m C = Some (r :: outcome \<times> nat) \<Longrightarrow>
        \<not> (K = k \<and> A = already \<and> I = ix k d \<and> D = d \<and> C = c)"
      and body: "(case ch_distributors C D of
        None \<Rightarrow> Some (panicked C, m)
      | Some distributor_state \<Rightarrow>
          if A distributor_state then Some (finished C, m)
          else if tr_lost (net' m) then loop K A I D net' (Suc m) C
          else case exec (ki_env K) (payer_ctx K (tr_ctx (net' m))) (I distributor_state) C of
                 Inl _ \<Rightarrow> loop K A I D net' (Suc m) C
               | Inr c' \<Rightarrow> Some (finished c', Suc m)) = Some r"
    obtain e where "exec (ki_env k) (payer_ctx k (tr_ctx (net' m))) (ix k d md) c = Inl e"
      using refused [OF assms] by blast
    moreover have "loop k already (ix k d) d net' (Suc m) c \<noteq> Some r"
      using IH [of k already "ix k d" d net' "Suc m" c r] by blast
    ultimately show "\<not> (K = k \<and> A = already \<and> I = ix k d \<and> D = d \<and> C = c)"
      using body assms(1,2) by (auto split: if_splits)
  qed
  then show ?thesis by (cases "retry k already (ix k d) d net n c") blast+
qed

lemma retry_files_end:
  assumes "fair net"
  shows "(\<And>f. f \<in> set fs \<Longrightarrow> \<exists>t md. tf_tree f = Some t \<and> ch_distributors c (distributor_of k t) = Some md
      \<and> (already md \<or> md_admin md = ki_payer k \<and> fits (ch_ledger c) md)) \<Longrightarrow>
    \<exists>c'. retry_files k already (ix k) net n fs c = Some (finished c')
      \<and> (\<forall>f t md. f \<in> set fs \<and> tf_tree f = Some t \<and> ch_distributors c (distributor_of k t) = Some md \<longrightarrow>
           ch_distributors c' (distributor_of k t) = Some (settled md))
      \<and> (\<forall>d md. ch_distributors c d = Some md \<and> already md \<longrightarrow> ch_distributors c' d = Some md)"
proof (induction fs arbitrary: n c)
  case (Cons f fs)
  obtain t md where t: "tf_tree f = Some t" "ch_distributors c (distributor_of k t) = Some md"
    "already md \<or> md_admin md = ki_payer k \<and> fits (ch_ledger c) md"
    using Cons.prems [of f] by auto
  obtain c1 n1 where c1: "retry k already (ix k (distributor_of k t)) (distributor_of k t) net n c = Some (finished c1, n1)"
    "ch_ledger c1 = ch_ledger c" "ch_distributors c1 = (ch_distributors c)(distributor_of k t \<mapsto> settled md)"
    using retry_ends [OF assms t(2,3)] by blast
  have "\<exists>t md. tf_tree g = Some t \<and> ch_distributors c1 (distributor_of k t) = Some md
      \<and> (already md \<or> md_admin md = ki_payer k \<and> fits (ch_ledger c1) md)" if "g \<in> set fs" for g
    using Cons.prems [of g] that c1(2,3) already_settled [of md] by auto
  then obtain c' where c': "retry_files k already (ix k) net n1 fs c1 = Some (finished c')"
    "\<forall>f t md. f \<in> set fs \<and> tf_tree f = Some t \<and> ch_distributors c1 (distributor_of k t) = Some md \<longrightarrow>
       ch_distributors c' (distributor_of k t) = Some (settled md)"
    "\<forall>d md. ch_distributors c1 d = Some md \<and> already md \<longrightarrow> ch_distributors c' d = Some md"
    using Cons.IH [of c1 n1] by blast
  have first: "ch_distributors c' (distributor_of k t) = Some (settled md)"
    using c'(3) c1(3) already_settled [of md] by simp
  have rest: "ch_distributors c' (distributor_of k u) = Some (settled x)"
    if "g \<in> set fs" "tf_tree g = Some u" "ch_distributors c (distributor_of k u) = Some x" for g u x
    using that c'(2) c1(3) first t(2) by (cases "distributor_of k u = distributor_of k t") auto
  have keeps: "ch_distributors c' d = Some x" if "ch_distributors c d = Some x" "already x" for d x
    using that c'(3) c1(3) t(2) first by (cases "d = distributor_of k t") (auto simp: settled_def)
  have "retry_files k already (ix k) net n (f # fs) c = Some (finished c')" using t(1) c1(1) c'(1) by simp
  then show ?case using first rest keeps t by auto
qed simp

end

text \<open>The three tools.\<close>

lemma payer_signs: "cx_signers (payer_ctx k cx) = [ki_payer k]"
  by (simp add: payer_ctx_def)

interpretation admin_tool: setting_tool "\<lambda>md. md_admin md = new_admin" "\<lambda>k. set_admin_ix k new_admin"
    "\<lambda>md. md\<lparr>md_admin := new_admin\<rparr>" "\<lambda>_ _. True" for new_admin
proof unfold_locales
  show "exec (ki_env k) (payer_ctx k cx) (set_admin_ix k new_admin d md) c = Inr (store_distributor c d (md\<lparr>md_admin := new_admin\<rparr>))"
    if "ch_distributors c d = Some md" "md_admin md \<noteq> new_admin" "md_admin md = ki_payer k" "True" for c d md k cx
    using that by (auto simp: set_admin_ix_def set_admin_def check_set_admin_def handle_set_admin_def load_distributor_def
        require_signer_def payer_signs)
  show "\<exists>e. exec (ki_env k) (payer_ctx k cx) (set_admin_ix k new_admin d md) c = Inl e"
    if "ch_distributors c d = Some md" "md_admin md \<noteq> new_admin" "md_admin md \<noteq> ki_payer k" for c d md k cx
    using that by (auto simp: set_admin_ix_def set_admin_def check_set_admin_def load_distributor_def
        require_signer_def payer_signs)
qed simp

interpretation receiver_tool: setting_tool "\<lambda>md. md_clawback_receiver md = receiver" "\<lambda>k. set_clawback_ix k receiver"
    "\<lambda>md. md\<lparr>md_clawback_receiver := receiver\<rparr>"
    "\<lambda>l md. \<exists>a. lg_accounts l receiver = Some a \<and> ta_mint a = md_mint md" for receiver
proof unfold_locales
  show "exec (ki_env k) (payer_ctx k cx) (set_clawback_ix k receiver d md) c
      = Inr (store_distributor c d (md\<lparr>md_clawback_receiver := receiver\<rparr>))"
    if "ch_distributors c d = Some md" "md_clawback_receiver md \<noteq> receiver" "md_admin md = ki_payer k"
      "\<exists>a. lg_accounts (ch_ledger c) receiver = Some a \<and> ta_mint a = md_mint md" for c d md k cx
    using that by (auto simp: set_clawback_ix_def set_clawback_receiver_def check_set_clawback_receiver_def
        handle_set_clawback_receiver_def load_distributor_def load_token_def require_signer_def payer_signs)
  show "\<exists>e. exec (ki_env k) (payer_ctx k cx) (set_clawback_ix k receiver d md) c = Inl e"
    if "ch_distributors c d = Some md" "md_clawback_receiver md \<noteq> receiver" "md_admin md \<noteq> ki_payer k" for c d md k cx
    using that by (cases "exec (ki_env k) (payer_ctx k cx) (set_clawback_ix k receiver d md) c")
      (auto simp: set_clawback_ix_def payer_signs elim!: set_clawback_receiverE)
qed simp

interpretation slot_tool: setting_tool "\<lambda>md. md_enable_slot md = slot" "\<lambda>k. set_slot_ix k slot"
    "\<lambda>md. md\<lparr>md_enable_slot := slot\<rparr>" "\<lambda>_ _. True" for slot
proof unfold_locales
  show "exec (ki_env k) (payer_ctx k cx) (set_slot_ix k slot d md) c = Inr (store_distributor c d (md\<lparr>md_enable_slot := slot\<rparr>))"
    if "ch_distributors c d = Some md" "md_enable_slot md \<noteq> slot" "md_admin md = ki_payer k" "True" for c d md k cx
    using that by (simp add: set_slot_ix_def set_enable_slot_def check_set_enable_slot_def handle_set_enable_slot_def
        load_distributor_def require_signer_def payer_signs)
  show "\<exists>e. exec (ki_env k) (payer_ctx k cx) (set_slot_ix k slot d md) c = Inl e"
    if "ch_distributors c d = Some md" "md_enable_slot md \<noteq> slot" "md_admin md \<noteq> ki_payer k" for c d md k cx
    using that by (simp add: set_slot_ix_def set_enable_slot_def check_set_enable_slot_def
        load_distributor_def require_signer_def payer_signs)
qed simp

lemma settled_updates:
  "admin_tool.settled a md = md\<lparr>md_admin := a\<rparr>" "slot_tool.settled slot md = md\<lparr>md_enable_slot := slot\<rparr>"
  "receiver_tool.settled r md = md\<lparr>md_clawback_receiver := r\<rparr>"
  by (auto simp: admin_tool.settled_def slot_tool.settled_def receiver_tool.settled_def)

text \<open>Whoever is not the admin of the first distributor and not the new admin never gets an answer.\<close>

lemma set_admin_never_ends:
  assumes "by_path files = f # fs" "tf_tree f = Some t" "ch_distributors c (distributor_of k t) = Some md"
    and "md_admin md \<noteq> ki_payer k" "md_admin md \<noteq> new_admin"
  shows "process_set_admin k new_admin net files c = None"
  using admin_tool.retry_refused [OF assms(3,5,4), of net 0] assms(1,2) by (simp add: process_set_admin_def)

section \<open>Closing claim records\<close>

text \<open>The program's handler panics, so the tool closes nothing; and the filter by which the records are chosen
  reads the lowest byte of the amount claimed, whatever the closable mark says.\<close>

lemma close_transaction_fails: "ixs \<noteq> [] \<Longrightarrow> set ixs \<subseteq> range (close_ix k) \<Longrightarrow> \<exists>e. run_transaction env cx ixs c = Inl e"
proof (cases ixs)
  case (Cons i ixs0)
  assume "set ixs \<subseteq> range (close_ix k)"
  with Cons obtain a where "i = CloseClaimStatus a" by (auto simp: close_ix_def)
  then obtain e where "exec env cx i c = Inl e" using close_claim_status_fails [of cx a c] by (cases "exec env cx i c") auto
  with Cons show ?thesis by simp
qed simp

lemma close_loop_idle:
  "set ixs \<subseteq> range (close_ix k) \<Longrightarrow> close_loop k cx ixs accounts c = (ixs @ map (close_ix k) accounts, c)"
proof (induction accounts arbitrary: ixs)
  case (Cons v accounts)
  let ?ixs = "ixs @ [close_ix k v]"
  have ixs: "set ?ixs \<subseteq> range (close_ix k)" using Cons.prems by auto
  obtain e where "run_transaction (ki_env k) (payer_ctx k cx) ?ixs c = Inl e"
    using close_transaction_fails [OF _ ixs] by blast
  then show ?case using Cons.IH [OF ixs] by (simp add: Let_def)
qed simp

lemma process_close_claim_status_idle: "process_close_claim_status k cx accounts c = c"
proof -
  have "\<exists>e. run_transaction (ki_env k) (payer_ctx k cx) (map (close_ix k) accounts) c = Inl e" if "accounts \<noteq> []"
    using that by (intro close_transaction_fails [of _ k]) auto
  then show ?thesis using close_loop_idle [of "[]" k cx accounts c]
    by (auto simp: process_close_claim_status_def)
qed

lemma filter_reads_amount_claimed:
  assumes "length discriminator = 8"
  shows "view_claim_status discriminator cs \<longleftrightarrow> unat (cs_unlocked_amount_claimed cs) mod 256 = 1"
proof -
  have "view_claim_status discriminator cs \<longleftrightarrow> le_bytes (cs_unlocked_amount_claimed cs) ! 0 = 1"
    using assms by (simp add: view_claim_status_def account_data_def nth_append)
  also have "\<dots> \<longleftrightarrow> (ucast (cs_unlocked_amount_claimed cs) :: u8) = 1"
    by (simp add: le_bytes_def)
  also have "\<dots> \<longleftrightarrow> unat (cs_unlocked_amount_claimed cs) mod 256 = 1"
    by (simp add: word_unat_eq_iff unsigned_ucast_eq take_bit_eq_mod)
  finally show ?thesis .
qed

section \<open>Slot arithmetic\<close>

lemma sum_slot_times_total:
  "\<forall>s \<in> set samples. ps_num_slots s \<noteq> 0 \<Longrightarrow> unat acc + 65535000 * length samples < 2 ^ 64 \<Longrightarrow>
   \<exists>t. sum_slot_times acc samples = Some t"
proof (induction samples arbitrary: acc)
  case (Cons s samples)
  have p: "unat (ucast (ps_sample_period_secs s) :: u64) \<le> 65535"
    using unat_bound [of "ps_sample_period_secs s"] by (simp add: unsigned_ucast_eq take_bit_nat_eq_self)
  obtain ms where ms: "checked_mul (ucast (ps_sample_period_secs s)) 1000 = Some (ms :: u64)" "unat ms \<le> 65535000"
    using p by (cases "checked_mul (ucast (ps_sample_period_secs s)) (1000 :: u64)")
      (auto simp: checked_mul_None checked_mul_Some)
  obtain q where q: "checked_div ms (ps_num_slots s) = Some q" "unat q \<le> unat ms"
    using Cons.prems(1) by (cases "checked_div ms (ps_num_slots s)") (auto simp: checked_div_None checked_div_Some unsigned_eq_0_iff)
  obtain t where t: "checked_add acc q = Some t" "unat t = unat acc + unat q"
    using Cons.prems(2) q(2) ms(2) by (cases "checked_add acc q") (auto simp: checked_add_None checked_add_Some)
  have "unat t + 65535000 * length samples < 2 ^ 64" using t(2) q(2) ms(2) Cons.prems(2) by simp
  then show ?case using Cons.IH [of t] Cons.prems(1) ms(1) q(1) t(1) by simp
qed simp

lemma sum_slot_times_zero: "\<exists>s \<in> set samples. ps_num_slots s = 0 \<Longrightarrow> sum_slot_times acc samples = None"
  by (induction samples arbitrary: acc) (fastforce simp: checked_div_def split: bind_splits)+

text \<open>Whatever the cluster reports, the average is between half and twice the default slot time.\<close>

lemma average_bounds: "get_average_slot_time answer = Some avg \<Longrightarrow> 200 \<le> unat avg \<and> unat avg \<le> 800"
  by (auto simp: get_average_slot_time_def DEFAULT_MS_PER_SLOT_def Let_def word_less_nat_alt bind_eq_Some_conv
      split: option.splits if_splits)

lemma average_total:
  assumes "\<forall>s \<in> set samples. ps_num_slots s \<noteq> 0" "length samples \<le> 720"
  shows "\<exists>avg. get_average_slot_time (Some samples) = Some avg"
proof -
  obtain t where "sum_slot_times 0 samples = Some t" using sum_slot_times_total [OF assms(1), of 0] assms(2) by auto
  then show ?thesis by (auto simp: get_average_slot_time_def Let_def checked_div_def)
qed

definition slot_ahead :: "nat \<Rightarrow> nat \<Rightarrow> nat" where
  "slot_ahead seconds avg = seconds * 1000 div avg"

lemma process_get_slot_Some:
  assumes "get_average_slot_time answer = Some avg" "0 \<le> ival now"
  shows "process_get_slot answer \<lparr>ck_slot = cur, ck_unix_timestamp = now\<rparr> t = Some slot \<longleftrightarrow>
    (if nat (ival now) < unat t
     then (unat t - nat (ival now)) * 1000 < 2 ^ 64 \<and> unat slot = unat cur + slot_ahead (unat t - nat (ival now)) (unat avg)
     else (nat (ival now) - unat t) * 1000 < 2 ^ 64 \<and> unat cur = unat slot + slot_ahead (nat (ival now) - unat t) (unat avg))"
proof -
  define now' :: u64 where "now' = word_of_int (ival now)"
  have now': "unat now' = nat (ival now)"
    using assms(2) ival_range [of now] by (simp add: now'_def unsigned_of_int take_bit_int_eq_self nat_less_iff)
  have nz: "unat avg \<noteq> 0" using average_bounds [OF assms(1)] by simp
  have scale: "(\<exists>ms. checked_mul (a - b) 1000 = Some ms \<and> (\<exists>q. checked_div ms avg = Some q \<and> P q))
      \<longleftrightarrow> (unat a - unat b) * 1000 < 2 ^ 64 \<and> (\<exists>q. unat q = slot_ahead (unat a - unat b) (unat avg) \<and> P q)"
    if "unat b \<le> unat a" for a b :: u64 and P
  proof -
    define d where "d = unat a - unat b"
    have d: "unat (a - b) = d" using that by (simp add: unat_sub word_le_nat_alt d_def)
    show ?thesis
    proof (cases "d * 1000 < 2 ^ 64")
      case True
      have "unat (word_of_nat (d * 1000) :: u64) = d * 1000" by (rule unat_u64_of_nat [OF True])
      moreover from this have "checked_mul (a - b) 1000 = Some (word_of_nat (d * 1000))" by (simp add: checked_mul_Some d)
      ultimately show ?thesis using True nz by (simp add: checked_div_Some slot_ahead_def d_def)
    next
      case False
      then have "checked_mul (a - b) 1000 = None" by (simp add: checked_mul_None d)
      with False show ?thesis by (simp add: d_def)
    qed
  qed
  have ex: "\<exists>y :: u64. unat y = x \<and> x = unat y" if "x \<le> unat z" for x and z :: u64
    using unat_u64_of_nat [of x] that unat_u64_bound [of z] by (intro exI [of _ "word_of_nat x"]) simp
  note unfold = process_get_slot_def Let_def bind_eq_Some_conv now'_def [symmetric] word_less_nat_alt checked_add_Some checked_sub_Some
  show ?thesis
  proof (cases "nat (ival now) < unat t")
    case True
    then show ?thesis using assms now' scale [of now' t] by (auto simp: unfold intro!: ex [of _ slot])
  next
    case False
    then show ?thesis using assms now' scale [of t now'] by (auto simp: unfold intro!: ex [of _ cur])
  qed
qed

section \<open>Properties\<close>


definition demo_net :: "nat \<Rightarrow> attempt" where
  "demo_net n = \<lparr>tr_ctx = demo_ctx (I64 60) (Pubkey 2), tr_lost = (n < 3)\<rparr>"


text \<open>C36: The slot for a time is exact. For at most 720 samples, none without slots, and a clock not before 1970, the average
  slot time is found and lies between 200 and 800 milliseconds, whatever the samples say, and the slot printed is
  the current one plus or minus the whole number of average slots in the time between; the tool panics exactly
  when that time in milliseconds or the slot does not fit 64 bits. A sample without slots makes it panic.\<close>

theorem slot_of_time_exact:
  assumes "length samples \<le> 720" "0 \<le> ival now"
  shows "((\<forall>s \<in> set samples. ps_num_slots s \<noteq> 0) \<longrightarrow>
     (\<exists>avg. get_average_slot_time (Some samples) = Some avg \<and> 200 \<le> unat avg \<and> unat avg \<le> 800 \<and>
        (\<forall>slot. process_get_slot (Some samples) \<lparr>ck_slot = cur, ck_unix_timestamp = now\<rparr> t = Some slot \<longleftrightarrow>
           (if nat (ival now) < unat t
            then (unat t - nat (ival now)) * 1000 < 2 ^ 64 \<and> unat slot = unat cur + slot_ahead (unat t - nat (ival now)) (unat avg)
            else (nat (ival now) - unat t) * 1000 < 2 ^ 64 \<and> unat cur = unat slot + slot_ahead (nat (ival now) - unat t) (unat avg)))))
    \<and> ((\<exists>s \<in> set samples. ps_num_slots s = 0) \<longrightarrow>
        process_get_slot (Some samples) \<lparr>ck_slot = cur, ck_unix_timestamp = now\<rparr> t = None)"
  (is "(_ \<longrightarrow> ?exact) \<and> (_ \<longrightarrow> ?panics)")
proof (intro conjI impI)
  assume "\<forall>s \<in> set samples. ps_num_slots s \<noteq> 0"
  then obtain avg where avg: "get_average_slot_time (Some samples) = Some avg" using average_total [OF _ assms(1)] by blast
  show ?exact
    by (rule exI [of _ avg]) (use avg average_bounds [OF avg] process_get_slot_Some [OF avg assms(2)] in blast)
next
  assume "\<exists>s \<in> set samples. ps_num_slots s = 0"
  moreover from this have "(word_of_nat (length samples) :: u64) \<noteq> 0"
    using assms(1) unat_u64_of_nat [of "length samples"] by (cases samples) (auto simp del: of_nat_Suc)
  ultimately show ?panics by (simp add: process_get_slot_def get_average_slot_time_def sum_slot_times_zero)
qed

theorem slot_of_time_exact_witness:
  "process_get_slot (Some [\<lparr>ps_num_slots = 150, ps_sample_period_secs = 60\<rparr>]) \<lparr>ck_slot = 5000, ck_unix_timestamp = I64 1000\<rparr> 1010
     = Some 5025"
proof -
  have "get_average_slot_time (Some [\<lparr>ps_num_slots = 150, ps_sample_period_secs = 60\<rparr>]) = Some 400"
    by (simp add: get_average_slot_time_def checked_mul_def checked_div_def checked_add_def DEFAULT_MS_PER_SLOT_def)
  then show ?thesis
    using slot_of_time_exact [of "[\<lparr>ps_num_slots = 150, ps_sample_period_secs = 60\<rparr>]" "I64 1000" 5000 1010]
    by (simp add: ival_def slot_ahead_def)
qed

end
