(* ===== verification/Cli_Lists.thy ===== *)
theory Cli_Lists
  imports Cli_Chain "HOL-Library.Product_Lexorder" "HOL-Library.AList" "HOL-Library.Multiset"
begin

text \<open>
  The tools that prepare lists and pay lists: \<^verbatim>\<open>process_filter_list.rs\<close>, \<^verbatim>\<open>process_filter_and_merge.rs\<close>,
  \<^verbatim>\<open>process_extend_list.rs\<close>, \<^verbatim>\<open>process_create_dummy_csv.rs\<close>, \<^verbatim>\<open>process_generate_kv_proof.rs\<close> and
  \<^verbatim>\<open>process_send.rs\<close>.

  A list tool maps the rows it reads to the rows it writes. Reading public keys, printing them and making
  up new ones (\<^verbatim>\<open>Pubkey::new_unique\<close>) are parameters. The tools of \<^verbatim>\<open>process_send.rs\<close> run against the chain;
  \<open>sends n\<close> is the signature the cluster returns for the \<open>n\<close>-th transaction, or \<open>None\<close> when it was not
  delivered. A Rust \<^verbatim>\<open>HashMap\<close> is a map, or an association list where its length matters.
\<close>

section \<open>Filtering lists\<close>

type_synonym paid_list = "(pubkey \<times> u64) list"

definition keyed :: "(string \<Rightarrow> pubkey option) \<Rightarrow> u64 \<Rightarrow> string list \<Rightarrow> paid_list" where
  "keyed parse amount addresses = List.map_filter (\<lambda>s. map_option (\<lambda>k. (k, amount)) (parse s)) addresses"

definition written_rows :: "(pubkey \<Rightarrow> string) \<Rightarrow> paid_list \<Rightarrow> string list list" where
  "written_rows show_key rows = [''pubkey'', ''amount''] # map (\<lambda>(k, amount). [show_key k, show_u64 amount]) rows"

definition filter_list :: "(string \<Rightarrow> pubkey option) \<Rightarrow> u64 \<Rightarrow> csv_entry list \<Rightarrow> paid_list" where
  "filter_list parse amount community_list = dedup_by_key (sort (keyed parse amount (map ce_pubkey community_list)))"

definition process_filter_list :: "(string \<Rightarrow> pubkey option) \<Rightarrow> (pubkey \<Rightarrow> string) \<Rightarrow> u64 \<Rightarrow> csv_entry list \<Rightarrow> string list list" where
  "process_filter_list parse show_key amount community_list = written_rows show_key (filter_list parse amount community_list)"

definition filter_and_merge ::
  "(string \<Rightarrow> pubkey option) \<Rightarrow> u64 \<Rightarrow> csv_entry list \<Rightarrow> string list \<Rightarrow> paid_list" where
  "filter_and_merge parse amount community_list new_records =
     (let test_list = get_pre_list;
          full_list = keyed parse 200 (map ce_pubkey community_list) @ keyed parse amount new_records @ keyed parse amount test_list
      in dedup_by_key (sort full_list))"

definition process_filter_and_merge ::
  "(string \<Rightarrow> pubkey option) \<Rightarrow> (pubkey \<Rightarrow> string) \<Rightarrow> u64 \<Rightarrow> csv_entry list \<Rightarrow> string list \<Rightarrow> string list list" where
  "process_filter_and_merge parse show_key amount community_list new_records =
     written_rows show_key (filter_and_merge parse amount community_list new_records)"

section \<open>Lists with made-up keys\<close>

text \<open>\<^verbatim>\<open>full_list.insert(num_node * i, ..)\<close>, which panics beyond the end.\<close>

fun insert_spread :: "nat \<Rightarrow> nat \<Rightarrow> 'a list \<Rightarrow> 'a list \<Rightarrow> 'a list option" where
  "insert_spread num_node i [] full_list = Some full_list"
| "insert_spread num_node i (address # rest) full_list =
     (if num_node * i \<le> length full_list
      then insert_spread num_node (Suc i) rest (take (num_node * i) full_list @ address # drop (num_node * i) full_list)
      else None)"

definition create_dummy_csv :: "(nat \<Rightarrow> pubkey) \<Rightarrow> (pubkey \<Rightarrow> string) \<Rightarrow> u64 \<Rightarrow> string list option" where
  "create_dummy_csv new_unique show_key num_records =
     (let pre_list = get_pre_list in
      Option.bind (checked_sub num_records (word_of_nat (length pre_list))) (\<lambda>count.
      Option.bind (checked_div num_records (word_of_nat (length pre_list))) (\<lambda>num_node.
      insert_spread (unat num_node) 0 pre_list (map (\<lambda>i. show_key (new_unique i)) [0..<unat count]))))"

definition process_create_dummy_csv ::
  "(nat \<Rightarrow> pubkey) \<Rightarrow> (pubkey \<Rightarrow> string) \<Rightarrow> u64 \<Rightarrow> u64 \<Rightarrow> string list list option" where
  "process_create_dummy_csv new_unique show_key num_records amount =
     map_option (\<lambda>addresses. [''pubkey'', ''amount''] # map (\<lambda>address. [address, show_u64 amount]) addresses)
       (create_dummy_csv new_unique show_key num_records)"

definition extend_list ::
  "(nat \<Rightarrow> pubkey) \<Rightarrow> (string \<Rightarrow> pubkey option) \<Rightarrow> u64 \<Rightarrow> u64 \<Rightarrow> csv_entry list \<Rightarrow> paid_list option" where
  "extend_list new_unique parse num_records amount community_list =
     (let pre_list = remdups_adj (sort (
            List.map_filter (\<lambda>node. map_option (\<lambda>k. (k, ce_amount node)) (parse (ce_pubkey node))) community_list
            @ keyed parse amount get_pre_list)) in
      Option.bind (checked_sub num_records (word_of_nat (length ([] :: paid_list)))) (\<lambda>count.
      Option.bind (checked_div num_records (word_of_nat (length pre_list))) (\<lambda>num_node.
      insert_spread (unat num_node) 0 pre_list (map (\<lambda>i. (new_unique i, amount)) [0..<unat count]))))"

definition process_extend_list ::
  "(nat \<Rightarrow> pubkey) \<Rightarrow> (string \<Rightarrow> pubkey option) \<Rightarrow> (pubkey \<Rightarrow> string) \<Rightarrow> u64 \<Rightarrow> u64 \<Rightarrow> csv_entry list \<Rightarrow> string list list option" where
  "process_extend_list new_unique parse show_key num_records amount community_list =
     map_option (written_rows show_key) (extend_list new_unique parse num_records amount community_list)"

section \<open>Proofs for the key-value store\<close>

record kv_proof =
  kv_merkle_tree :: string
  kv_amount :: u64
  kv_locked_amount :: "u64 option"
  kv_proof :: "bytes32 list"

type_synonym kv_file = "(string \<times> kv_proof) list"

text \<open>The files written so far and the map being filled; \<open>None\<close> once the tool has panicked.\<close>

fun kv_nodes :: "(pubkey \<Rightarrow> string) \<Rightarrow> u64 \<Rightarrow> pubkey \<Rightarrow> tree_node list \<Rightarrow> kv_file list \<times> kv_file \<Rightarrow> kv_file list \<times> kv_file option" where
  "kv_nodes show_key max_entries distributor [] (written, proofs) = (written, Some proofs)"
| "kv_nodes show_key max_entries distributor (node # nodes) (written, proofs) =
     (case tn_proof node of
        None \<Rightarrow> (written, None)
      | Some proof \<Rightarrow>
          let proofs' = AList.update (show_key (tn_claimant node))
                \<lparr>kv_merkle_tree = show_key distributor, kv_amount = tn_amount node, kv_locked_amount = tn_locked_amount node,
                 kv_proof = proof\<rparr> proofs in
          if unat max_entries \<le> length proofs'
          then kv_nodes show_key max_entries distributor nodes (written @ [proofs'], [])
          else kv_nodes show_key max_entries distributor nodes (written, proofs'))"

fun kv_files :: "client \<Rightarrow> (pubkey \<Rightarrow> string) \<Rightarrow> u64 \<Rightarrow> tree_file list \<Rightarrow> kv_file list \<times> kv_file \<Rightarrow> kv_file list \<times> kv_file option" where
  "kv_files k show_key max_entries [] (written, proofs) = (written, Some proofs)"
| "kv_files k show_key max_entries (f # fs) (written, proofs) =
     (case tf_tree f of
        None \<Rightarrow> (written, None)
      | Some merkle_tree \<Rightarrow>
          (case kv_nodes show_key max_entries (distributor_address k (at_airdrop_version merkle_tree))
                  (at_tree_nodes merkle_tree) (written, proofs) of
             (written', None) \<Rightarrow> (written', None)
           | (written', Some proofs') \<Rightarrow> kv_files k show_key max_entries fs (written', proofs')))"

definition process_generate_kv_proof :: "client \<Rightarrow> (pubkey \<Rightarrow> string) \<Rightarrow> u64 \<Rightarrow> tree_file list \<Rightarrow> kv_file list \<times> bool" where
  "process_generate_kv_proof k show_key max_entries_per_file files =
     (case kv_files k show_key max_entries_per_file (by_path files) ([], []) of
        (written, None) \<Rightarrow> (written, False)
      | (written, Some proofs) \<Rightarrow> (if proofs = [] then written else written @ [proofs], True))"

section \<open>Paying a list\<close>

type_synonym sent_map = "string \<Rightarrow> string option"

text \<open>The instructions for one wallet: the account is created when the lookup before the transaction found none.\<close>

fun pay_users :: "client \<Rightarrow> u64 \<Rightarrow> (pubkey \<times> bool) list \<Rightarrow> ledger \<Rightarrow> string + ledger" where
  "pay_users k amount [] l = Inr l"
| "pay_users k amount ((user, missing) # users) l =
     and_then (if missing then ki_create_ata k user (ki_mint k) l else Inr l) (\<lambda>l1.
     and_then (token_transfer (ki_env k) (ata k (ki_payer k)) (ata k user) (ki_payer k) amount l1) (\<lambda>l2.
     pay_users k amount users l2))"

definition send_for_batch_address ::
  "client \<Rightarrow> (string \<Rightarrow> pubkey option) \<Rightarrow> u64 \<Rightarrow> string list \<Rightarrow> chain \<Rightarrow> string + (chain \<times> string list)" where
  "send_for_batch_address k parse amount batch_address c =
     (let qualified_address = filter (\<lambda>address. parse address \<noteq> None) batch_address;
          users = List.map_filter parse batch_address in
      and_then (pay_users k amount (map (\<lambda>user. (user, account_at c (ata k user) = None)) users) (ch_ledger c)) (\<lambda>l.
      Inr (c\<lparr>ch_ledger := l\<rparr>, qualified_address)))"

fun wrap_batches :: "nat \<Rightarrow> sent_map \<Rightarrow> string list \<Rightarrow> string list \<Rightarrow> string list list" where
  "wrap_batches per_tx sent_addresses batch [] = (if batch \<noteq> [] then [batch] else [])"
| "wrap_batches per_tx sent_addresses batch (address # addresses) =
     (if sent_addresses address \<noteq> None then wrap_batches per_tx sent_addresses batch addresses
      else
        let batch' = batch @ [address] in
        if per_tx \<le> length batch' then batch' # wrap_batches per_tx sent_addresses [] addresses
        else wrap_batches per_tx sent_addresses batch' addresses)"

definition record_sent :: "string \<Rightarrow> string list \<Rightarrow> sent_map \<Rightarrow> sent_map" where
  "record_sent signature addresses sent = fold (\<lambda>address m. m(address \<mapsto> signature)) addresses sent"

text \<open>The map is written back to its file after every transaction that went out.\<close>

fun send_batches ::
  "client \<Rightarrow> (string \<Rightarrow> pubkey option) \<Rightarrow> (nat \<Rightarrow> string option) \<Rightarrow> nat \<Rightarrow> u64 \<Rightarrow> string list list \<Rightarrow> sent_map \<times> chain
   \<Rightarrow> sent_map \<times> chain" where
  "send_batches k parse sends n amount [] (sent, c) = (sent, c)"
| "send_batches k parse sends n amount (batch # batches) (sent, c) =
     (case (sends n, send_for_batch_address k parse amount batch c) of
        (Some signature, Inr (c', qualified_address)) \<Rightarrow>
          send_batches k parse sends (Suc n) amount batches (record_sent signature qualified_address sent, c')
      | _ \<Rightarrow> send_batches k parse sends (Suc n) amount batches (sent, c))"

definition process_mass_send ::
  "client \<Rightarrow> (string \<Rightarrow> pubkey option) \<Rightarrow> (nat \<Rightarrow> string option) \<Rightarrow> u64 \<Rightarrow> u64 \<Rightarrow> string list \<Rightarrow> sent_map \<times> chain \<Rightarrow> sent_map \<times> chain" where
  "process_mass_send k parse sends max_address_per_tx amount addresses s =
     send_batches k parse sends 0 amount (wrap_batches (unat max_address_per_tx) (fst s) [] addresses) s"

text \<open>Sending again. \<open>entries\<close> is the content of the file in the order the hash map gives it, \<open>order\<close> the order in which the
  map from signatures to wallets gives its groups. The cluster says of a signature that it is unknown, succeeded or
  failed, or gives no answer; one that is no signature makes the tool panic.\<close>

datatype signature_status = Malformed | NoAnswer | NotFound | Succeeded | Failed

fun group_signatures :: "(string \<times> string) list \<Rightarrow> (string \<times> string list) list \<Rightarrow> (string \<times> string list) list" where
  "group_signatures [] groups = groups"
| "group_signatures ((address, signature) # entries) groups =
     (case map_of groups signature of
        Some array_addr \<Rightarrow> group_signatures entries (AList.update signature (array_addr @ [address]) groups)
      | None \<Rightarrow> group_signatures entries (AList.update signature [address] groups))"

fun resend_groups ::
  "client \<Rightarrow> (string \<Rightarrow> pubkey option) \<Rightarrow> (nat \<Rightarrow> string option) \<Rightarrow> nat \<Rightarrow> u64 \<Rightarrow> nat \<Rightarrow> (string \<Rightarrow> signature_status)
   \<Rightarrow> (string \<times> string list) list \<Rightarrow> sent_map \<times> chain \<Rightarrow> (sent_map \<times> chain) \<times> bool" where
  "resend_groups k parse sends n amount per_tx status [] (sent, c) = ((sent, c), True)"
| "resend_groups k parse sends n amount per_tx status ((signature, addresses) # groups) (sent, c) =
     (case status signature of
        Malformed \<Rightarrow> ((sent, c), False)
      | st \<Rightarrow>
          if st = NotFound \<or> st = Failed
          then (case (sends n, send_for_batch_address k parse amount
                        (if per_tx < length addresses then take per_tx addresses else addresses) c) of
                  (Some signature', Inr (c', qualified_address)) \<Rightarrow>
                    resend_groups k parse sends (Suc n) amount per_tx status groups
                      (record_sent signature' qualified_address sent, c')
                | _ \<Rightarrow> resend_groups k parse sends (Suc n) amount per_tx status groups (sent, c))
          else resend_groups k parse sends n amount per_tx status groups (sent, c))"

definition process_resend ::
  "client \<Rightarrow> (string \<Rightarrow> pubkey option) \<Rightarrow> (nat \<Rightarrow> string option) \<Rightarrow> u64 \<Rightarrow> u64 \<Rightarrow> (string \<Rightarrow> signature_status)
   \<Rightarrow> ((string \<times> string list) list \<Rightarrow> (string \<times> string list) list) \<Rightarrow> (string \<times> string) list \<Rightarrow> chain
   \<Rightarrow> (sent_map \<times> chain) \<times> bool" where
  "process_resend k parse sends max_address_per_tx amount status order entries c =
     resend_groups k parse sends 0 amount (unat max_address_per_tx) status (order (group_signatures entries []))
       (map_of entries, c)"

section \<open>What the list tools write\<close>

lemma dedup_by_key_min: "sorted xs \<Longrightarrow> (k, a) \<in> set (dedup_by_key xs) \<Longrightarrow> (k, b) \<in> set xs \<Longrightarrow> a \<le> b"
  for xs :: "('k::linorder \<times> 'v::linorder) list"
proof (induction xs arbitrary: a b rule: dedup_by_key.induct)
  case (1 x y xs)
  show ?case
  proof (cases "fst y = fst x")
    case True
    have in_d: "(k, a) \<in> set (dedup_by_key (x # xs))" using 1(4) True by simp
    have srt: "sorted (x # xs)" "x \<le> y" using 1(3) by auto
    have "a \<le> snd x" if "fst x = k" using 1(1) [OF True srt(1) in_d, of "snd x"] that by auto
    moreover have "snd x \<le> snd y" using srt(2) True by (auto simp: less_eq_prod_def)
    ultimately show ?thesis using 1(5) 1(1) [OF True srt(1) in_d, of b] True by auto
  next
    case False
    then have lt: "fst x < fst y" using 1(3) by (auto simp: less_eq_prod_def)
    have srt: "sorted (y # xs)" using 1(3) by simp
    have above: "fst y \<le> fst z" if "z \<in> set (y # xs)" for z using srt that by (auto simp: less_eq_prod_def)
    have rest: "z \<in> set (y # xs)" if "z \<in> set (dedup_by_key (y # xs))" for z using dedup_by_key_subset that by blast
    from 1(4) False consider "(k, a) = x" | "(k, a) \<in> set (dedup_by_key (y # xs))" by auto
    then show ?thesis
    proof cases
      case 1
      have "x \<le> (k, b)" using \<open>sorted (x # y # xs)\<close> \<open>(k, b) \<in> set (x # y # xs)\<close> by auto
      then show ?thesis using 1 by (auto simp: less_eq_prod_def)
    next
      case 2
      then have "fst y \<le> k" using above rest by fastforce
      then have "(k, b) \<noteq> x" using lt by auto
      then show ?thesis using 1(2) [OF False srt 2] 1(5) by simp
    qed
  qed
qed auto

lemma dedup_by_key_strict: "sorted xs \<Longrightarrow> sorted_wrt (<) (map fst (dedup_by_key xs))"
  for xs :: "('k::linorder \<times> 'v::linorder) list"
proof (induction xs rule: dedup_by_key.induct)
  case (1 x y xs)
  show ?case
  proof (cases "fst y = fst x")
    case True
    then show ?thesis using 1(1) 1(3) by simp
  next
    case False
    have "fst x < fst z" if "z \<in> set (dedup_by_key (y # xs))" for z
    proof -
      have "z \<in> set (y # xs)" using dedup_by_key_subset that by blast
      then have "fst y \<le> fst z" using 1(3) by (auto simp: less_eq_prod_def)
      moreover have "fst x < fst y" using 1(3) False by (auto simp: less_eq_prod_def)
      ultimately show ?thesis by simp
    qed
    then show ?thesis using False 1(2) 1(3) by auto
  qed
qed simp_all

lemma dedup_by_key_exact:
  fixes xs :: "('k::linorder \<times> 'v::linorder) list"
  assumes "sorted xs"
  shows "(k, a) \<in> set (dedup_by_key xs) \<longleftrightarrow> (k, a) \<in> set xs \<and> (\<forall>b. (k, b) \<in> set xs \<longrightarrow> a \<le> b)"
proof
  assume "(k, a) \<in> set (dedup_by_key xs)"
  then show "(k, a) \<in> set xs \<and> (\<forall>b. (k, b) \<in> set xs \<longrightarrow> a \<le> b)"
    using dedup_by_key_subset dedup_by_key_min [OF assms] by blast
next
  assume a: "(k, a) \<in> set xs \<and> (\<forall>b. (k, b) \<in> set xs \<longrightarrow> a \<le> b)"
  then have "k \<in> fst ` set (dedup_by_key xs)" by (force simp: dedup_by_key_keys)
  then obtain a' where "(k, a') \<in> set (dedup_by_key xs)" by force
  then show "(k, a) \<in> set (dedup_by_key xs)"
    using a dedup_by_key_min [OF assms] dedup_by_key_subset by (metis order_antisym subsetD)
qed

definition listed :: "(string \<Rightarrow> pubkey option) \<Rightarrow> string list \<Rightarrow> pubkey \<Rightarrow> bool" where
  "listed parse addresses k \<longleftrightarrow> (\<exists>s \<in> set addresses. parse s = Some k)"

lemma keyed_listed: "(k, a) \<in> set (keyed parse amount addresses) \<longleftrightarrow> listed parse addresses k \<and> a = amount"
  by (force simp: keyed_def map_filter_def listed_def image_iff)

text \<open>Inserting at equal distances.\<close>

lemma insert_spread_total:
  "(\<And>j. j < length xs \<Longrightarrow> gap * (i + j) \<le> length full + j) \<Longrightarrow>
   \<exists>r. insert_spread gap i xs full = Some r \<and> mset r = mset xs + mset full"
proof (induction xs arbitrary: i full)
  case (Cons x xs)
  let ?full = "take (gap * i) full @ x # drop (gap * i) full"
  have "gap * i \<le> length full" using Cons.prems [of 0] by simp
  moreover have "gap * (Suc i + j) \<le> length ?full + j" if "j < length xs" for j
    using Cons.prems [of "Suc j"] that by simp
  ultimately obtain r where "insert_spread gap i (x # xs) full = Some r" "mset r = mset xs + mset ?full"
    using Cons.IH [of "Suc i" ?full] by auto
  moreover have "mset ?full = add_mset x (mset full)" using mset_append [of "take (gap * i) full" "drop (gap * i) full"] by simp
  ultimately show ?case by simp
qed simp

lemma dummy_csv_rows:
  assumes "length get_pre_list \<le> unat num_records"
  shows "\<exists>rows. create_dummy_csv new_unique show_key num_records = Some rows \<and> length rows = unat num_records
    \<and> set get_pre_list \<subseteq> set rows"
proof -
  let ?p = "length get_pre_list" and ?n = "unat num_records"
  have p: "?p = 13" by (simp add: get_pre_list_def)
  then have pw: "unat (word_of_nat ?p :: u64) = ?p" by simp
  obtain count where count: "checked_sub num_records (word_of_nat ?p) = Some count" "unat count = ?n - ?p"
    using assms pw by (cases "checked_sub num_records (word_of_nat ?p)") (auto simp: checked_sub_None checked_sub_Some)
  obtain gap where gap: "checked_div num_records (word_of_nat ?p) = Some gap" "unat gap = ?n div ?p"
    using p pw by (cases "checked_div num_records (word_of_nat ?p)") (auto simp: checked_div_None checked_div_Some)
  have fits: "?n div ?p * j \<le> ?n - ?p + j" if "j < ?p" for j
  proof -
    have "?n div ?p * (?p - j) \<ge> ?p - j" using assms p by (simp add: Suc_le_eq div_greater_zero_iff)
    moreover have "?n div ?p * j + ?n div ?p * (?p - j) \<le> ?n"
      using that by (simp flip: distrib_left)
    ultimately show ?thesis using that by linarith
  qed
  obtain r where "insert_spread (?n div ?p) 0 get_pre_list (map (\<lambda>i. show_key (new_unique i)) [0..<?n - ?p]) = Some r"
    "mset r = mset get_pre_list + mset (map (\<lambda>i. show_key (new_unique i)) [0..<?n - ?p])"
    using insert_spread_total [of get_pre_list "?n div ?p" 0 "map (\<lambda>i. show_key (new_unique i)) [0..<?n - ?p]"] fits by auto
  moreover from this(2) have "length r = ?n" "set get_pre_list \<subseteq> set r"
    using assms by (auto dest: arg_cong [where f = size] arg_cong [where f = set_mset])
  ultimately show ?thesis using count gap by (simp add: create_dummy_csv_def Let_def)
qed

text \<open>The files for the key-value store hold exactly the claimants of the trees, each with the amounts and the proof of one
  of the claimant's nodes and the distributor of that node's tree.\<close>

definition kv_of :: "(pubkey \<Rightarrow> string) \<Rightarrow> pubkey \<Rightarrow> tree_node \<Rightarrow> string \<times> kv_proof \<Rightarrow> bool" where
  "kv_of show_key d node e \<longleftrightarrow>
     fst e = show_key (tn_claimant node) \<and> kv_merkle_tree (snd e) = show_key d \<and> kv_amount (snd e) = tn_amount node
     \<and> kv_locked_amount (snd e) = tn_locked_amount node \<and> tn_proof node = Some (kv_proof (snd e))"

abbreviation kv_entries :: "kv_file list \<Rightarrow> kv_file \<Rightarrow> (string \<times> kv_proof) set" where
  "kv_entries written proofs \<equiv> set (concat written) \<union> set proofs"

lemma alist_update_entries:
  "fst ` set (AList.update x v al) = insert x (fst ` set al)" "set (AList.update x v al) \<subseteq> insert (x, v) (set al)"
  by (induction al) auto

lemma kv_nodes_entries:
  "kv_nodes show_key m d nodes (written, proofs) = (written', Some proofs') \<Longrightarrow>
   fst ` kv_entries written' proofs' = fst ` kv_entries written proofs \<union> (\<lambda>n. show_key (tn_claimant n)) ` set nodes
   \<and> (\<forall>e \<in> kv_entries written' proofs'. e \<in> kv_entries written proofs \<or> (\<exists>n \<in> set nodes. kv_of show_key d n e))"
proof (induction nodes arbitrary: written proofs)
  case (Cons n nodes)
  from Cons.prems obtain pf where p: "tn_proof n = Some pf" by (auto split: option.splits)
  define e where "e = \<lparr>kv_merkle_tree = show_key d, kv_amount = tn_amount n, kv_locked_amount = tn_locked_amount n, kv_proof = pf\<rparr>"
  define al where "al = AList.update (show_key (tn_claimant n)) e proofs"
  have e: "kv_of show_key d n (show_key (tn_claimant n), e)" by (simp add: kv_of_def e_def p)
  note al = alist_update_entries [of "show_key (tn_claimant n)" e proofs, folded al_def]
  obtain w p' where wp: "kv_nodes show_key m d nodes (w, p') = (written', Some proofs')" "kv_entries w p' = set (concat written) \<union> set al"
  proof (cases "unat m \<le> length al")
    case True
    with Cons.prems p show thesis
      by (intro that [of "written @ [al]" "[]"]) (simp_all add: Let_def e_def [symmetric] al_def [symmetric] Un_ac)
  next
    case False
    with Cons.prems p show thesis
      by (intro that [of written al]) (simp_all add: Let_def e_def [symmetric] al_def [symmetric])
  qed
  have keys: "fst ` kv_entries w p' = fst ` kv_entries written proofs \<union> {show_key (tn_claimant n)}"
    unfolding wp(2) using al(1) by (auto simp: image_Un)
  note IH = Cons.IH [OF wp(1)]
  have "x \<in> kv_entries written proofs \<or> kv_of show_key d n x" if "x \<in> kv_entries w p'" for x
    using that al(2) e unfolding wp(2) by auto
  moreover have "fst ` kv_entries written' proofs'
      = fst ` kv_entries written proofs \<union> (\<lambda>n. show_key (tn_claimant n)) ` set (n # nodes)"
    using IH unfolding keys by auto
  ultimately show ?case using IH by (metis list.set_intros(1,2))
qed simp

lemma kv_files_entries:
  "kv_files k show_key m fs (written, proofs) = (written', Some proofs') \<Longrightarrow>
   fst ` kv_entries written' proofs' = fst ` kv_entries written proofs
     \<union> {show_key (tn_claimant n) |f t n. f \<in> set fs \<and> tf_tree f = Some t \<and> n \<in> set (at_tree_nodes t)}
   \<and> (\<forall>e \<in> kv_entries written' proofs'. e \<in> kv_entries written proofs
     \<or> (\<exists>f t n. f \<in> set fs \<and> tf_tree f = Some t \<and> n \<in> set (at_tree_nodes t)
          \<and> kv_of show_key (distributor_address k (at_airdrop_version t)) n e))"
proof (induction fs arbitrary: written proofs)
  case (Cons f fs)
  from Cons.prems obtain t where t: "tf_tree f = Some t" by (auto split: option.splits)
  from Cons.prems t obtain w p where wp: "kv_nodes show_key m (distributor_address k (at_airdrop_version t)) (at_tree_nodes t)
      (written, proofs) = (w, Some p)" "kv_files k show_key m fs (w, p) = (written', Some proofs')"
    by (auto split: prod.splits option.splits)
  note one = kv_nodes_entries [OF wp(1)] and IH = Cons.IH [OF wp(2)]
  have "fst ` kv_entries written' proofs' = fst ` kv_entries written proofs
     \<union> {show_key (tn_claimant n) |g t n. g \<in> set (f # fs) \<and> tf_tree g = Some t \<and> n \<in> set (at_tree_nodes t)}"
    using IH [THEN conjunct1] one [THEN conjunct1] t by auto
  moreover have "e \<in> kv_entries written proofs \<or> (\<exists>g t n. g \<in> set (f # fs) \<and> tf_tree g = Some t \<and> n \<in> set (at_tree_nodes t)
          \<and> kv_of show_key (distributor_address k (at_airdrop_version t)) n e)" if "e \<in> kv_entries written' proofs'" for e
    using IH [THEN conjunct2] one [THEN conjunct2] t that by (meson list.set_intros)
  ultimately show ?case by blast
qed simp

lemma kv_proofs_complete:
  assumes "process_generate_kv_proof k show_key m files = (written, True)"
  shows "fst ` set (concat written)
      = {show_key (tn_claimant n) |f t n. f \<in> set files \<and> tf_tree f = Some t \<and> n \<in> set (at_tree_nodes t)}"
    and "e \<in> set (concat written) \<Longrightarrow> \<exists>f t n. f \<in> set files \<and> tf_tree f = Some t \<and> n \<in> set (at_tree_nodes t)
      \<and> kv_of show_key (distributor_address k (at_airdrop_version t)) n e"
proof -
  obtain w p where wp: "kv_files k show_key m (by_path files) ([], []) = (w, Some p)" "written = (if p = [] then w else w @ [p])"
    using assms by (auto simp: process_generate_kv_proof_def split: prod.splits option.splits)
  then have eq: "set (concat written) = kv_entries w p" by auto
  have files: "set (by_path files) = set files" by (simp add: by_path_def)
  note all = kv_files_entries [OF wp(1)]
  show "fst ` set (concat written)
      = {show_key (tn_claimant n) |f t n. f \<in> set files \<and> tf_tree f = Some t \<and> n \<in> set (at_tree_nodes t)}"
    using all [THEN conjunct1] unfolding eq files by simp
  show "\<exists>f t n. f \<in> set files \<and> tf_tree f = Some t \<and> n \<in> set (at_tree_nodes t)
      \<and> kv_of show_key (distributor_address k (at_airdrop_version t)) n e" if "e \<in> set (concat written)"
    using all [THEN conjunct2, rule_format, of e] that unfolding eq files by simp
qed

section \<open>What paying a list does\<close>

text \<open>The associated token program makes a new, empty account.\<close>

definition makes_empty :: "client \<Rightarrow> bool" where
  "makes_empty k \<longleftrightarrow>
     (\<forall>user l l'. ki_create_ata k user (ki_mint k) l = Inr l' \<longrightarrow>
        (\<exists>a. lg_accounts l (ata k user) = None \<and> ta_amount a = 0 \<and> l' = l\<lparr>lg_accounts := (lg_accounts l)(ata k user \<mapsto> a)\<rparr>))"

lemma created_balance:
  assumes "makes_empty k" "ki_create_ata k user (ki_mint k) l = Inr l'"
  shows "balance l' x = balance l x"
proof -
  obtain a where "lg_accounts l (ata k user) = None" "ta_amount a = 0" "l' = l\<lparr>lg_accounts := (lg_accounts l)(ata k user \<mapsto> a)\<rparr>"
    using assms unfolding makes_empty_def by blast
  then show ?thesis by (simp add: balance_def)
qed

lemma pay_users_balance:
  assumes "transfer_effect (ki_env k)" "makes_empty k" "x \<noteq> ata k (ki_payer k)"
  shows "pay_users k amount users l = Inr l' \<Longrightarrow>
    balance l' x = balance l x + unat amount * count_list (map (\<lambda>u. ata k (fst u)) users) x"
proof (induction users arbitrary: l)
  case (Cons u users)
  obtain user missing where u: "u = (user, missing)" by (cases u)
  from Cons.prems obtain l1 l2 where l: "(if missing then ki_create_ata k user (ki_mint k) l else Inr l) = Inr l1"
    "token_transfer (ki_env k) (ata k (ki_payer k)) (ata k user) (ki_payer k) amount l1 = Inr l2"
    "pay_users k amount users l2 = Inr l'"
    by (auto simp: u and_then_Inr)
  have "balance l1 x = balance l x" using l(1) created_balance [OF assms(2)] by (auto split: if_splits)
  moreover have "balance l2 x = balance l1 x + (if x = ata k user then unat amount else 0)"
    using transfer_balance(1) [OF assms(1) l(2), of x] assms(3) by (auto split: if_splits)
  ultimately show ?case using Cons.IH [OF l(3)] by (simp add: u)
qed simp

lemma count_list_once:
  "distinct xs \<Longrightarrow> inj_on f (insert a (set xs)) \<Longrightarrow> count_list (map f xs) (f a) = (if a \<in> set xs then 1 else 0)"
  by (induction xs) (auto simp: inj_on_def)

lemma record_sent_eq: "record_sent signature addresses sent a = (if a \<in> set addresses then Some signature else sent a)"
  unfolding record_sent_def by (induction addresses arbitrary: sent) auto

definition account_of :: "client \<Rightarrow> (string \<Rightarrow> pubkey option) \<Rightarrow> string \<Rightarrow> pubkey" where
  "account_of k parse address = ata k (the (parse address))"

lemma send_batch_balance:
  assumes "transfer_effect (ki_env k)" "makes_empty k" "x \<noteq> ata k (ki_payer k)"
    and "send_for_batch_address k parse amount batch c = Inr (c', qualified)"
  shows "balance (ch_ledger c') x = balance (ch_ledger c) x + unat amount * count_list (map (account_of k parse) qualified) x"
    and "qualified = filter (\<lambda>a. parse a \<noteq> None) batch"
proof -
  let ?users = "map (\<lambda>user. (user, account_at c (ata k user) = None)) (List.map_filter parse batch)"
  from assms(4) obtain l where l: "pay_users k amount ?users (ch_ledger c) = Inr l" "c' = c\<lparr>ch_ledger := l\<rparr>"
    "qualified = filter (\<lambda>a. parse a \<noteq> None) batch"
    by (auto simp: send_for_batch_address_def Let_def and_then_Inr)
  have "map (\<lambda>u. ata k (fst u)) ?users = map (account_of k parse) qualified"
    by (simp add: l(3) map_filter_def account_of_def)
  then show "balance (ch_ledger c') x = balance (ch_ledger c) x + unat amount * count_list (map (account_of k parse) qualified) x"
    using pay_users_balance [OF assms(1-3) l(1)] l(2) by simp
  show "qualified = filter (\<lambda>a. parse a \<noteq> None) batch" by (rule l(3))
qed

text \<open>The wallets of the transactions that went out are exactly those paid and recorded.\<close>

definition went_out :: "client \<Rightarrow> (string \<Rightarrow> pubkey option) \<Rightarrow> u64 \<Rightarrow> string list \<Rightarrow> sent_map \<times> chain \<Rightarrow> sent_map \<times> chain \<Rightarrow> bool" where
  "went_out k parse amount paid s s' \<longleftrightarrow>
     (\<forall>x. x \<noteq> ata k (ki_payer k) \<longrightarrow>
        balance (ch_ledger (snd s')) x = balance (ch_ledger (snd s)) x + unat amount * count_list (map (account_of k parse) paid) x)
     \<and> (\<forall>a. if a \<in> set paid then fst s' a \<noteq> None else fst s' a = fst s a)
     \<and> (\<forall>a \<in> set paid. parse a \<noteq> None)"

lemma went_out_balance:
  "went_out k parse amount paid (sent, c) (sent', c') \<Longrightarrow> x \<noteq> ata k (ki_payer k) \<Longrightarrow>
   balance (ch_ledger c') x = balance (ch_ledger c) x + unat amount * count_list (map (account_of k parse) paid) x"
  unfolding went_out_def snd_conv by blast

lemma went_out_append:
  "went_out k parse amount p s s1 \<Longrightarrow> went_out k parse amount q s1 s2 \<Longrightarrow> went_out k parse amount (p @ q) s s2"
  unfolding went_out_def by (intro conjI allI ballI) (simp add: algebra_simps, metis Un_iff set_append, auto)

lemma send_batches_effect:
  assumes "transfer_effect (ki_env k)" "makes_empty k"
  shows "\<exists>paid. went_out k parse amount paid s (send_batches k parse sends n amount batches s)
    \<and> set paid \<subseteq> set (concat batches) \<and> (distinct (concat batches) \<longrightarrow> distinct paid)"
proof (induction batches arbitrary: n s)
  case Nil
  then show ?case by (cases s) (auto simp: went_out_def intro: exI [of _ "[]"])
next
  case (Cons batch batches)
  obtain sent c where s: "s = (sent, c)" by (cases s)
  show ?case
  proof (cases "\<exists>sig c' q. sends n = Some sig \<and> send_for_batch_address k parse amount batch c = Inr (c', q)")
    case True
    then obtain sig c' q where q: "sends n = Some sig" "send_for_batch_address k parse amount batch c = Inr (c', q)" by blast
    have qf: "q = filter (\<lambda>a. parse a \<noteq> None) batch"
      using q(2) by (auto simp: send_for_batch_address_def Let_def and_then_Inr)
    have "went_out k parse amount q s (record_sent sig q sent, c')"
      using send_batch_balance(1) [OF assms _ q(2)] by (auto simp: went_out_def s record_sent_eq qf)
    moreover obtain paid where paid: "went_out k parse amount paid (record_sent sig q sent, c')
        (send_batches k parse sends (Suc n) amount batches (record_sent sig q sent, c'))"
      "set paid \<subseteq> set (concat batches)" "distinct (concat batches) \<longrightarrow> distinct paid"
      using Cons.IH by blast
    ultimately have "went_out k parse amount (q @ paid) s (send_batches k parse sends n amount (batch # batches) s)"
      using went_out_append q by (simp add: s)
    moreover have "set (q @ paid) \<subseteq> set (concat (batch # batches))" using paid(2) by (auto simp: qf)
    moreover have "distinct (concat (batch # batches)) \<longrightarrow> distinct (q @ paid)" using paid(2,3) by (auto simp: qf)
    ultimately show ?thesis by blast
  next
    case False
    then have "send_batches k parse sends n amount (batch # batches) s = send_batches k parse sends (Suc n) amount batches s"
      by (auto simp: s split: option.splits sum.splits)
    then show ?thesis using Cons.IH [of s "Suc n"] by auto
  qed
qed

lemma concat_wrap_batches: "concat (wrap_batches per_tx sent batch addresses) = batch @ filter (\<lambda>a. sent a = None) addresses"
  by (induction per_tx sent batch addresses rule: wrap_batches.induct) (auto simp: Let_def)

section \<open>Properties\<close>

text \<open>The merged list has one row per address, by ascending key: every address of the community list, the additional
  list or the test list that is a public key, with 200 if it is only in the community list, with the given amount
  if it is only in the others, and with the smaller of the two if it is in both.\<close>

lemma merged_list_rows:
  "sorted_wrt (<) (map fst (filter_and_merge parse amount community_list new_records))
   \<and> (\<forall>k a. (k, a) \<in> set (filter_and_merge parse amount community_list new_records) \<longleftrightarrow>
        (let old = listed parse (map ce_pubkey community_list) k; new = listed parse (new_records @ get_pre_list) k in
         (old \<or> new) \<and> a = (if old \<and> new then min 200 amount else if old then 200 else amount)))"
proof -
  let ?full = "keyed parse 200 (map ce_pubkey community_list) @ keyed parse amount new_records @ keyed parse amount get_pre_list"
  have full: "(k, a) \<in> set (sort ?full) \<longleftrightarrow> listed parse (map ce_pubkey community_list) k \<and> a = 200
      \<or> listed parse (new_records @ get_pre_list) k \<and> a = amount" for k a
    by (auto simp: keyed_listed) (auto simp: listed_def)
  have eq: "filter_and_merge parse amount community_list new_records = dedup_by_key (sort ?full)"
    by (simp add: filter_and_merge_def Let_def)
  have rows: "(k, a) \<in> set (dedup_by_key (sort ?full)) \<longleftrightarrow>
      (listed parse (map ce_pubkey community_list) k \<and> a = 200 \<or> listed parse (new_records @ get_pre_list) k \<and> a = amount)
      \<and> (listed parse (map ce_pubkey community_list) k \<longrightarrow> a \<le> 200) \<and> (listed parse (new_records @ get_pre_list) k \<longrightarrow> a \<le> amount)" for k a
    using dedup_by_key_exact [of "sort ?full" k a] unfolding full by auto
  show ?thesis
    unfolding eq rows Let_def using dedup_by_key_strict [of "sort ?full"] by (auto simp: min_def)
qed


definition demo_wallets :: "string \<Rightarrow> pubkey option" where
  "demo_wallets s = (if s = ''a'' then Some (Pubkey 50) else None)"

definition demo_sender :: client where
  "demo_sender =
     \<lparr>ki_env = demo_env\<lparr>associated_token_address := (\<lambda>owner mint. if owner = Pubkey 50 then Pubkey 51 else Pubkey 70)\<rparr>,
      ki_payer = Pubkey 71, ki_mint = Pubkey 5, ki_create_ata = (\<lambda>_ _ _. Inl ''exists'')\<rparr>"


end
