(* ===== verification/Api_Cache.thy ===== *)
theory Api_Cache
  imports Demo Ordered_Map "HOL-Library.Sublist" "HOL-Library.Multiset"
begin

text \<open>
  \<^verbatim>\<open>api/src/cache.rs\<close>: what the server remembers of the chain. Claim records arrive in two ways, over a
  subscription with the slot they were seen at and from a poll of all records every thirty seconds with slot
  0, and one task applies them in the order of a channel. Distributors are polled whole.

  The cluster's answers, the decoding of accounts and the printing of keys are parameters. Updates are applied
  one after the other; the order in which they arrive is the order of the list. The tasks are functions
  of the sequence of answers they get, so that ending, giving up and panicking are results.
\<close>

section \<open>The cache\<close>

record data_and_slot =
  ds_data :: claim_status
  ds_slot :: u64

record single_distributor =
  sd_distributor_pubkey :: string
  sd_airdrop_version :: u64
  sd_max_num_nodes :: u64
  sd_max_total_claim :: u64

record cache =
  ac_claim_status_cache :: "string \<Rightarrow> data_and_slot option"
  ac_distributor_cache :: "string \<Rightarrow> merkle_distributor option"
  ac_program_id :: pubkey
  ac_subscribed :: bool
  ac_distributors :: "single_distributor list"
  ac_unvested_users :: "(string \<Rightarrow> u128 option) option"
  ac_default_start_ts :: i64
  ac_default_end_ts :: i64
  ac_default_mint :: string

definition cache_new ::
  "pubkey \<Rightarrow> single_distributor list \<Rightarrow> (string \<Rightarrow> u128 option) option \<Rightarrow> i64 \<Rightarrow> i64 \<Rightarrow> string \<Rightarrow> cache" where
  "cache_new program distributors unvested_users default_start_ts default_end_ts default_mint =
     \<lparr>ac_claim_status_cache = (\<lambda>_. None), ac_distributor_cache = (\<lambda>_. None), ac_program_id = program,
      ac_subscribed = False, ac_distributors = distributors, ac_unvested_users = unvested_users,
      ac_default_start_ts = default_start_ts, ac_default_end_ts = default_end_ts, ac_default_mint = default_mint\<rparr>"

definition cached_claim_status :: "cache \<Rightarrow> string \<Rightarrow> data_and_slot option" where
  "cached_claim_status cache claimant = ac_claim_status_cache cache claimant"

definition cached_distributor :: "cache \<Rightarrow> string \<Rightarrow> merkle_distributor option" where
  "cached_distributor cache pubkey = ac_distributor_cache cache pubkey"

text \<open>\<open>order\<close> lists the keys of the hash map in the order in which it gives them.\<close>

definition get_all_distributors :: "cache \<Rightarrow> string list \<Rightarrow> (string \<times> merkle_distributor) list" where
  "get_all_distributors cache order =
     List.map_filter (\<lambda>k. map_option (\<lambda>d. (k, d)) (ac_distributor_cache cache k)) order"

definition get_unvested_amount :: "cache \<Rightarrow> string \<Rightarrow> u128" where
  "get_unvested_amount cache user_pubkey =
     (case ac_unvested_users cache of
        None \<Rightarrow> 0
      | Some m \<Rightarrow> (case m user_pubkey of Some amount \<Rightarrow> amount | None \<Rightarrow> 0))"

text \<open>\<open>None\<close> is the panic on a key that does not parse.\<close>

definition get_distributor_keys :: "(string \<Rightarrow> pubkey option) \<Rightarrow> cache \<Rightarrow> pubkey list option" where
  "get_distributor_keys parse cache = those (map (\<lambda>d. parse (sd_distributor_pubkey d)) (ac_distributors cache))"

section \<open>Applying updates\<close>

text \<open>What becomes of the entry of a claimant.\<close>

definition update_entry :: "data_and_slot option \<Rightarrow> data_and_slot \<Rightarrow> data_and_slot" where
  "update_entry entry data =
     (case entry of
        None \<Rightarrow> data
      | Some e \<Rightarrow>
          if ds_data e = ds_data data then e
          else if ds_slot e \<le> ds_slot data \<or> (ds_slot data = 0 \<and> ds_data e \<noteq> ds_data data) then data
          else e)"

definition apply_update :: "(pubkey \<Rightarrow> string) \<Rightarrow> data_and_slot \<Rightarrow> cache \<Rightarrow> cache" where
  "apply_update show_key data cache =
     (let claimant = show_key (cs_claimant (ds_data data)) in
      cache\<lparr>ac_claim_status_cache := (ac_claim_status_cache cache)
        (claimant \<mapsto> update_entry (ac_claim_status_cache cache claimant) data)\<rparr>)"

definition start_cache_updater :: "(pubkey \<Rightarrow> string) \<Rightarrow> data_and_slot list \<Rightarrow> cache \<Rightarrow> cache" where
  "start_cache_updater show_key updates cache = fold (apply_update show_key) updates cache"

section \<open>Where updates come from\<close>

text \<open>The filter of a distributor's records: the discriminator at 0, the distributor at 73.\<close>

definition gpa_filter :: "u8 list \<Rightarrow> pubkey \<Rightarrow> u8 list \<Rightarrow> bool" where
  "gpa_filter discriminator distributor data \<longleftrightarrow>
     take (length discriminator) data = discriminator \<and> take 32 (drop 73 data) = to_bytes distributor"

text \<open>One poll and subscription is started per distributor; \<open>None\<close> is the panic on a key that does not parse.\<close>

definition subscribe :: "(string \<Rightarrow> pubkey option) \<Rightarrow> u8 list \<Rightarrow> cache \<Rightarrow> (u8 list \<Rightarrow> bool) list option" where
  "subscribe parse discriminator cache = map_option (map (gpa_filter discriminator)) (get_distributor_keys parse cache)"

text \<open>One poll: the accounts the cluster answers with, \<open>None\<close> for an error. Every account is decoded and sent by a task of
  its own, with slot 0; a task whose account does not decode panics alone.\<close>

definition poll_updates :: "(u8 list \<Rightarrow> claim_status option) \<Rightarrow> (pubkey \<times> u8 list) list option \<Rightarrow> data_and_slot list" where
  "poll_updates try_deserialize answer =
     (case answer of
        None \<Rightarrow> []
      | Some accounts \<Rightarrow>
          List.map_filter (\<lambda>(_, data). map_option (\<lambda>cs. \<lparr>ds_data = cs, ds_slot = 0\<rparr>) (try_deserialize data)) accounts)"

text \<open>The subscription. A connection that cannot be opened is a panic of the task; on one that is opened the request is
  refused, or delivers its messages and ends. A message holds a slot and the data, \<open>None\<close> where it is not base 64.\<close>

datatype subscription = NoConnection | Refused | Streamed "(u64 \<times> u8 list option) list"

datatype ws_end = Running | GaveUp | TaskPanicked

definition max_reconnection_attempts :: nat where
  "max_reconnection_attempts = 20"

definition stream_updates :: "(u8 list \<Rightarrow> claim_status option) \<Rightarrow> (u64 \<times> u8 list option) list \<Rightarrow> data_and_slot list" where
  "stream_updates try_deserialize messages =
     List.map_filter (\<lambda>(slot, data). map_option (\<lambda>cs. \<lparr>ds_data = cs, ds_slot = slot\<rparr>) (Option.bind data try_deserialize)) messages"

text \<open>The updates sent, the delays slept in seconds, and how it stands after the given connections.\<close>

fun subscription_loop ::
  "(u8 list \<Rightarrow> claim_status option) \<Rightarrow> nat \<Rightarrow> subscription list \<Rightarrow> data_and_slot list \<times> nat list \<times> ws_end" where
  "subscription_loop try_deserialize attempt [] = ([], [], Running)"
| "subscription_loop try_deserialize attempt (connection # rest) =
     (case connection of
        NoConnection \<Rightarrow> ([], [], TaskPanicked)
      | Refused \<Rightarrow>
          if max_reconnection_attempts \<le> attempt + 1 then ([], [], GaveUp)
          else
            let (updates, delays, st) = subscription_loop try_deserialize (attempt + 1 + 1) rest in
            (updates, 5 * 2 ^ (attempt + 1) # delays, st)
      | Streamed messages \<Rightarrow>
          let (updates, delays, st) = subscription_loop try_deserialize (0 + 1) rest in
          (stream_updates try_deserialize messages @ updates, 5 * 2 ^ 0 # delays, st))"

section \<open>Polling the distributors\<close>

text \<open>An answer has an account per key, or is an error with its debug text. The result of a poll is the cache, which the
  task shares with the server, and whether the task goes on; it ends where it panics.\<close>

datatype gma_answer = Accounts "u8 list option list" | GmaError string

definition MAX_RETRIES :: nat where
  "MAX_RETRIES = 3"

definition worth_retrying :: "string \<Rightarrow> bool" where
  "worth_retrying error_string \<longleftrightarrow>
     sublist ''IncompleteMessage'' error_string \<or> sublist ''timeout'' error_string \<or> sublist ''connection'' error_string"

fun store_accounts ::
  "(u8 list \<Rightarrow> merkle_distributor option) \<Rightarrow> single_distributor list \<Rightarrow> u8 list option list \<Rightarrow> cache \<Rightarrow> cache \<times> bool" where
  "store_accounts try_deserialize distributors [] cache = (cache, True)"
| "store_accounts try_deserialize [] (account # accounts) cache = (cache, False)"
| "store_accounts try_deserialize (distributor # distributors) (account # accounts) cache =
     (case account of
        None \<Rightarrow> store_accounts try_deserialize distributors accounts cache
      | Some data \<Rightarrow>
          (case try_deserialize data of
             None \<Rightarrow> (cache, False)
           | Some distributor_data \<Rightarrow>
               store_accounts try_deserialize distributors accounts
                 (cache\<lparr>ac_distributor_cache :=
                    (ac_distributor_cache cache)(sd_distributor_pubkey distributor \<mapsto> distributor_data)\<rparr>)))"

text \<open>\<open>answers n keys\<close> is the answer to the \<open>n\<close>-th request for these keys.\<close>

function hydrate_loop ::
  "(u8 list \<Rightarrow> merkle_distributor option) \<Rightarrow> (nat \<Rightarrow> gma_answer) \<Rightarrow> nat \<Rightarrow> cache \<Rightarrow> cache \<times> bool" where
  "hydrate_loop try_deserialize answers retry_count cache =
     (case answers retry_count of
        Accounts accounts \<Rightarrow> store_accounts try_deserialize (ac_distributors cache) accounts cache
      | GmaError error_string \<Rightarrow>
          if MAX_RETRIES \<le> retry_count + 1 then (cache, True)
          else if worth_retrying error_string then hydrate_loop try_deserialize answers (retry_count + 1) cache
          else (cache, True))"
  by auto
termination
  by (relation "measure (\<lambda>(_, _, n, _). MAX_RETRIES - n)") auto

declare hydrate_loop.simps [simp del]

definition hydrate_distributors_cache ::
  "(string \<Rightarrow> pubkey option) \<Rightarrow> (u8 list \<Rightarrow> merkle_distributor option) \<Rightarrow> (pubkey list \<Rightarrow> nat \<Rightarrow> gma_answer) \<Rightarrow> cache \<Rightarrow> cache \<times> bool" where
  "hydrate_distributors_cache parse try_deserialize answers cache =
     (case get_distributor_keys parse cache of
        None \<Rightarrow> (cache, False)
      | Some distributor_keys \<Rightarrow> hydrate_loop try_deserialize (answers distributor_keys) 0 cache)"

section \<open>What updates do\<close>

lemma update_entry_poll: "ds_slot data = 0 \<Longrightarrow> ds_data (update_entry entry data) = ds_data data"
  by (simp add: update_entry_def split: option.splits)

text \<open>An update concerns the entry of its claimant only.\<close>

lemma apply_update_other:
  "show_key (cs_claimant (ds_data data)) \<noteq> x \<Longrightarrow>
   ac_claim_status_cache (apply_update show_key data cache) x = ac_claim_status_cache cache x"
  by (simp add: apply_update_def Let_def)

lemma updates_elsewhere:
  "x \<notin> (\<lambda>u. show_key (cs_claimant (ds_data u))) ` set updates \<Longrightarrow>
   ac_claim_status_cache (start_cache_updater show_key updates cache) x = ac_claim_status_cache cache x"
  unfolding start_cache_updater_def
  by (induction updates arbitrary: cache) (auto simp: apply_update_other)

lemma updates_append:
  "start_cache_updater show_key (us @ vs) cache = start_cache_updater show_key vs (start_cache_updater show_key us cache)"
  by (simp add: start_cache_updater_def)

lemma apply_update_rest:
  "ac_distributor_cache (apply_update show_key data cache) = ac_distributor_cache cache"
  by (simp add: apply_update_def Let_def)

lemma last_update_wins:
  assumes "ds_slot u = 0"
    and "show_key (cs_claimant (ds_data u)) \<notin> (\<lambda>v. show_key (cs_claimant (ds_data v))) ` set later"
  shows "map_option ds_data (ac_claim_status_cache (start_cache_updater show_key (earlier @ u # later) cache)
      (show_key (cs_claimant (ds_data u)))) = Some (ds_data u)"
proof -
  let ?c = "start_cache_updater show_key earlier cache"
  have "start_cache_updater show_key (earlier @ u # later) cache
      = start_cache_updater show_key later (apply_update show_key u ?c)"
    by (simp add: start_cache_updater_def)
  moreover have "map_option ds_data (ac_claim_status_cache (apply_update show_key u ?c) (show_key (cs_claimant (ds_data u))))
      = Some (ds_data u)"
    using update_entry_poll [OF assms(1)] by (simp add: apply_update_def Let_def)
  ultimately show ?thesis using updates_elsewhere [OF assms(2)] by simp
qed

text \<open>An entry already in the cache loses to another record of the same claimant, whichever comes last: claimants of two
  distributors share one entry.\<close>

lemma two_trees_one_entry:
  assumes "cs_claimant a = cs_claimant b"
  shows "map_option ds_data (ac_claim_status_cache (start_cache_updater show_key
      [\<lparr>ds_data = a, ds_slot = 0\<rparr>, \<lparr>ds_data = b, ds_slot = 0\<rparr>] cache) (show_key (cs_claimant a))) = Some b"
  using assms last_update_wins [of "\<lparr>ds_data = b, ds_slot = 0\<rparr>" show_key "[]" "[\<lparr>ds_data = a, ds_slot = 0\<rparr>]" cache]
  by simp

text \<open>An update with the same data and a newer slot is dropped with its slot, so that older data can still replace it.\<close>

lemma older_data_can_win:
  assumes "a \<noteq> b" "cs_claimant a = cs_claimant b" "s1 \<le> s2" "s2 \<le> s3"
  shows "map_option ds_data (ac_claim_status_cache (start_cache_updater show_key
      [\<lparr>ds_data = a, ds_slot = s3\<rparr>, \<lparr>ds_data = b, ds_slot = s2\<rparr>] (cache\<lparr>ac_claim_status_cache := (\<lambda>_. None)(show_key (cs_claimant a) \<mapsto> \<lparr>ds_data = a, ds_slot = s1\<rparr>)\<rparr>))
      (show_key (cs_claimant a))) = Some b"
  using assms by (simp add: start_cache_updater_def apply_update_def update_entry_def Let_def)

section \<open>The filter\<close>

lemma gpa_filter_exact:
  assumes "length discriminator = 8"
  shows "gpa_filter discriminator d (account_data discriminator cs) \<longleftrightarrow> cs_distributor cs = d"
  using assms by (auto simp: gpa_filter_def account_data_def)

section \<open>Giving up\<close>

text \<open>A refused subscription counts twice, so the task gives up at the eleventh refusal in a row.\<close>

lemma refusals_give_up:
  "snd (snd (subscription_loop try_deserialize (2 * n) (replicate m Refused))) = (if 0 < m \<and> 10 \<le> n + m - 1 then GaveUp else Running)"
proof (induction m arbitrary: n)
  case (Suc m)
  have "subscription_loop try_deserialize (2 * n + 1 + 1) (replicate m Refused)
      = subscription_loop try_deserialize (2 * Suc n) (replicate m Refused)" by simp
  then show ?case using Suc.IH [of "Suc n"]
    by (auto simp: max_reconnection_attempts_def Let_def split: prod.splits)
qed simp

section \<open>The distributor cache\<close>

text \<open>What an account says of the distributor, where there is one.\<close>

definition read_account :: "(u8 list \<Rightarrow> merkle_distributor option) \<Rightarrow> u8 list option \<Rightarrow> merkle_distributor option \<Rightarrow> merkle_distributor option" where
  "read_account try_deserialize account before =
     (case account of None \<Rightarrow> before | Some data \<Rightarrow> try_deserialize data)"

text \<open>A full answer brings every distributor that has an account up to date and leaves the others as they are.\<close>

lemma store_accounts_stored:
  assumes "distinct (map sd_distributor_pubkey distributors)" "length accounts = length distributors"
    and "\<forall>data. Some data \<in> set accounts \<longrightarrow> try_deserialize data \<noteq> None"
  shows "\<exists>cache'. store_accounts try_deserialize distributors accounts cache = (cache', True)
    \<and> (\<forall>i < length accounts. ac_distributor_cache cache' (sd_distributor_pubkey (distributors ! i))
         = read_account try_deserialize (accounts ! i) (ac_distributor_cache cache (sd_distributor_pubkey (distributors ! i))))
    \<and> (\<forall>x. x \<notin> sd_distributor_pubkey ` set distributors \<longrightarrow> ac_distributor_cache cache' x = ac_distributor_cache cache x)"
  using assms
proof (induction distributors arbitrary: accounts cache)
  case (Cons distributor distributors)
  obtain account rest where accounts: "accounts = account # rest" using Cons.prems(2) by (cases accounts) auto
  define c1 where "c1 = cache\<lparr>ac_distributor_cache := (ac_distributor_cache cache)
    (sd_distributor_pubkey distributor := read_account try_deserialize account (ac_distributor_cache cache (sd_distributor_pubkey distributor)))\<rparr>"
  have go: "store_accounts try_deserialize (distributor # distributors) accounts cache = store_accounts try_deserialize distributors rest c1"
    using Cons.prems(3) by (auto simp: accounts c1_def read_account_def split: option.splits)
  obtain c' where c': "store_accounts try_deserialize distributors rest c1 = (c', True)"
    "\<forall>i < length rest. ac_distributor_cache c' (sd_distributor_pubkey (distributors ! i))
       = read_account try_deserialize (rest ! i) (ac_distributor_cache c1 (sd_distributor_pubkey (distributors ! i)))"
    "\<forall>x. x \<notin> sd_distributor_pubkey ` set distributors \<longrightarrow> ac_distributor_cache c' x = ac_distributor_cache c1 x"
    using Cons.IH [of rest c1] Cons.prems by (auto simp: accounts)
  have new: "sd_distributor_pubkey distributor \<notin> sd_distributor_pubkey ` set distributors" using Cons.prems(1) by simp
  have "sd_distributor_pubkey (distributors ! i) \<noteq> sd_distributor_pubkey distributor" if "i < length rest" for i
    using new Cons.prems(2) that nth_mem [of i distributors] by (metis Suc_inject accounts imageI length_Cons)
  then show ?case
    using c' new go Cons.prems(2) by (auto simp: accounts c1_def less_Suc_eq_0_disj)
qed simp

section \<open>Polls and the cache\<close>

lemma poll_updates_records:
  assumes "\<forall>(p, cs) \<in> set records. try_deserialize (account_data discriminator cs) = Some cs"
  shows "poll_updates try_deserialize (Some (map (\<lambda>(p, cs). (p, account_data discriminator cs)) records))
    = map (\<lambda>(p, cs). \<lparr>ds_data = cs, ds_slot = 0\<rparr>) records"
  using assms by (induction records) (auto simp: poll_updates_def List.map_filter_simps)

text \<open>C40: Whatever the cache held and in whatever order the tasks of a poll of a distributor's claim records deliver, the
  cache afterwards holds for every claimant of the distributor the record the chain has, and for everybody else what it
  held before. The cluster answers with the records the server's filter selects among all of the program's, and no two
  records of the distributor are of one claimant.\<close>

theorem poll_refreshes_cache:
  assumes "inj show_key" "length discriminator = 8"
    and "\<forall>(p, cs) \<in> set records. try_deserialize (account_data discriminator cs) = Some cs"
    and "distinct (map (cs_claimant \<circ> snd) (filter (\<lambda>(p, cs). cs_distributor cs = d) records))"
    and "mset updates = mset (poll_updates try_deserialize
           (Some (filter (gpa_filter discriminator d \<circ> snd) (map (\<lambda>(p, cs). (p, account_data discriminator cs)) records))))"
  shows "(\<forall>(p, cs) \<in> set records. cs_distributor cs = d \<longrightarrow>
            map_option ds_data (cached_claim_status (start_cache_updater show_key updates cache) (show_key (cs_claimant cs))) = Some cs)
       \<and> (\<forall>x. (\<forall>(p, cs) \<in> set records. cs_distributor cs = d \<longrightarrow> show_key (cs_claimant cs) \<noteq> x) \<longrightarrow>
            cached_claim_status (start_cache_updater show_key updates cache) x = cached_claim_status cache x)"
proof -
  let ?mine = "filter (\<lambda>(p, cs). cs_distributor cs = d) records"
  let ?key = "\<lambda>u. show_key (cs_claimant (ds_data u))"
  have "filter (gpa_filter discriminator d \<circ> snd) (map (\<lambda>(p, cs). (p, account_data discriminator cs)) records)
      = map (\<lambda>(p, cs). (p, account_data discriminator cs)) ?mine"
    by (simp add: filter_map o_def case_prod_unfold gpa_filter_exact [OF assms(2)])
  then have updates: "mset updates = mset (map (\<lambda>(p, cs). \<lparr>ds_data = cs, ds_slot = 0\<rparr>) ?mine)"
    using assms(3,5) poll_updates_records [of ?mine try_deserialize discriminator] by (auto simp: case_prod_unfold)
  have members: "set updates = (\<lambda>(p, cs). \<lparr>ds_data = cs, ds_slot = 0\<rparr>) ` set ?mine"
    using mset_eq_setD [OF updates] by simp
  have "mset (map ?key updates) = mset (map ?key (map (\<lambda>(p, cs). \<lparr>ds_data = cs, ds_slot = 0\<rparr>) ?mine))"
    using updates by (metis mset_map)
  also have "map ?key (map (\<lambda>(p, cs). \<lparr>ds_data = cs, ds_slot = 0\<rparr>) ?mine) = map show_key (map (cs_claimant \<circ> snd) ?mine)"
    by (auto simp: case_prod_unfold)
  finally have keys: "distinct (map ?key updates)"
    using assms(1,4) by (metis distinct_map inj_on_subset mset_eq_imp_distinct_iff subset_UNIV)
  have stored: "map_option ds_data (cached_claim_status (start_cache_updater show_key updates cache) (show_key (cs_claimant cs))) = Some cs"
    if "(p, cs) \<in> set records" "cs_distributor cs = d" for p cs
  proof -
    have "\<lparr>ds_data = cs, ds_slot = 0\<rparr> \<in> set updates" using that members by force
    then obtain us vs where "updates = us @ \<lparr>ds_data = cs, ds_slot = 0\<rparr> # vs" by (meson split_list)
    then show ?thesis using keys last_update_wins [of "\<lparr>ds_data = cs, ds_slot = 0\<rparr>" show_key vs us cache]
      by (auto simp: cached_claim_status_def)
  qed
  have "cached_claim_status (start_cache_updater show_key updates cache) x = cached_claim_status cache x"
    if "\<forall>(p, cs) \<in> set records. cs_distributor cs = d \<longrightarrow> show_key (cs_claimant cs) \<noteq> x" for x
    using that members updates_elsewhere [of x show_key updates cache] by (fastforce simp: cached_claim_status_def)
  then show ?thesis using stored by auto
qed

text \<open>For the witnesses: keys printed as decimal numbers.\<close>

definition demo_show_key :: "pubkey \<Rightarrow> string" where
  "demo_show_key k = show_nat (unat (key_word k))"

lemma inj_demo_show_key: "inj demo_show_key"
proof (rule injI)
  fix j k assume "demo_show_key j = demo_show_key k"
  then have "unat (key_word j) = unat (key_word k)" using inj_show_nat by (simp add: demo_show_key_def inj_eq)
  then show "j = k" by (cases j; cases k) (simp add: word_unat_eq_iff)
qed

definition demo_decode :: "u8 list \<Rightarrow> claim_status option" where
  "demo_decode data = (if data = account_data (replicate 8 7) (demo_status 0) then Some (demo_status 0) else None)"

theorem poll_refreshes_cache_witness:
  "map_option ds_data (cached_claim_status
     (start_cache_updater demo_show_key [\<lparr>ds_data = demo_status 0, ds_slot = 0\<rparr>] (cache_new (Pubkey 1) [] None (I64 0) (I64 0) []))
     (demo_show_key (Pubkey 50))) = Some (demo_status 0)"
proof -
  have "cs_distributor (demo_status 0) = Pubkey 10" "cs_claimant (demo_status 0) = Pubkey 50" by (simp_all add: demo_status_def)
  then show ?thesis
    using poll_refreshes_cache [OF inj_demo_show_key, of "replicate 8 7" "[(Pubkey 60, demo_status 0)]" demo_decode "Pubkey 10"
      "[\<lparr>ds_data = demo_status 0, ds_slot = 0\<rparr>]" "cache_new (Pubkey 1) [] None (I64 0) (I64 0) []"]
    by (simp add: demo_decode_def poll_updates_def List.map_filter_simps gpa_filter_exact)
qed

end
