(* ===== verification/Api_Router.thy ===== *)
theory Api_Router
  imports Api_Cache End_To_End
begin

text \<open>
  The server of proofs: \<^verbatim>\<open>api/src/error.rs\<close>, the handlers of \<^verbatim>\<open>api/src/router.rs\<close>, and what
  \<^verbatim>\<open>api/src/main.rs\<close> sets up before it serves.

  A handler returns an error of the server, a panic (overflow checks are on in the release profile) or its
  answer. The clock, the base 58 notation of keys, the check of a basic authentication header and the
  decoding of files are parameters. The tasks that load trees hold the lock of the distributor list while they write, so
  that they take effect one file after the other, in the order of the list of files; the order the tasks get the
  lock in is not the code's, and the properties hold for every list. Paths are given as their segments, none of them empty, and requests are
  the \<^verbatim>\<open>GET\<close> requests that pass the layers for load and time.
\<close>

section \<open>Errors\<close>

datatype api_error = MerkleTreeError merkle_tree_error | UserNotFound string | RpcError string | ProofNotFound string
  | ParsePubkeyError | VestingError string | MerkleDistributorError string | InternalError program_error
  | MaxReconnectionAttemptsReached | MerkleDistributorNotFound string | MathError | Unauthorized

type_synonym 'a served = "api_error failure + 'a"

definition into_response :: "api_error \<Rightarrow> nat \<times> string" where
  "into_response e =
     (case e of
        MerkleTreeError _ \<Rightarrow> (500, ''Internal Server Error'')
      | UserNotFound _ \<Rightarrow> (404, ''User not found'')
      | ProofNotFound _ \<Rightarrow> (500, ''Proof not found'')
      | ParsePubkeyError \<Rightarrow> (500, ''Pubkey parse error'')
      | RpcError _ \<Rightarrow> (500, ''Rpc error'')
      | VestingError _ \<Rightarrow> (500, ''Vesting error'')
      | MerkleDistributorError _ \<Rightarrow> (500, ''Internal Server Error'')
      | InternalError _ \<Rightarrow> (500, ''Internal Server Error'')
      | MaxReconnectionAttemptsReached \<Rightarrow> (500, ''Max connection attempts reached'')
      | MerkleDistributorNotFound _ \<Rightarrow> (500, ''Merkle Distributor not found'')
      | MathError \<Rightarrow> (500, ''Math Error'')
      | Unauthorized \<Rightarrow> (401, ''Unauthorized''))"

text \<open>What the layers report, and the status, code and text it is turned into.\<close>

datatype box_error = Elapsed | Overloaded | OtherError

definition handle_error :: "box_error \<Rightarrow> nat \<times> nat \<times> string" where
  "handle_error e =
     (case e of
        Elapsed \<Rightarrow> (408, 408, ''Request Timeout'')
      | Overloaded \<Rightarrow> (503, 503, ''Service Unavailable'')
      | OtherError \<Rightarrow> (500, 500, ''Internal Server Error''))"

section \<open>What can be claimed\<close>

definition START_AMOUNT_PCT_PRECISION :: u128 where "START_AMOUNT_PCT_PRECISION = 1000"
definition START_AMOUNT_PCT_DENOM :: u128 where "START_AMOUNT_PCT_DENOM = 100 * START_AMOUNT_PCT_PRECISION"

text \<open>\<open>None\<close> is a panic.\<close>

definition calculate_claimable_amount_for_new_user :: "u64 \<Rightarrow> i64 \<Rightarrow> i64 \<Rightarrow> i64 \<Rightarrow> u128 \<Rightarrow> u64 option" where
  "calculate_claimable_amount_for_new_user unlocked curr_ts start_ts end_ts start_amount_pct =
     (if curr_ts < start_ts then Some 0
      else if end_ts \<le> curr_ts then Some unlocked
      else
        Option.bind (checked_sub_i64 curr_ts start_ts) (\<lambda>elapsed. let time_into_unlock = i64_as_u128 elapsed in
        Option.bind (checked_sub_i64 end_ts start_ts) (\<lambda>window. let total_unlock_time = i64_as_u128 window in
        if total_unlock_time = 0 then Some unlocked
        else
          Option.bind (checked_mul start_amount_pct START_AMOUNT_PCT_PRECISION) (\<lambda>start_amount_pct_num.
          Option.bind (checked_mul (u64_as_u128 unlocked) start_amount_pct_num) (\<lambda>scaled.
          Option.bind (checked_div scaled START_AMOUNT_PCT_DENOM) (\<lambda>quotient. let start_amount = u128_as_u64 quotient in
          Option.bind (checked_sub unlocked start_amount) (\<lambda>remaining.
          Option.bind (checked_mul time_into_unlock (u64_as_u128 remaining)) (\<lambda>product.
          Option.bind (checked_div product total_unlock_time) (\<lambda>share. let bonus_amount = u128_as_u64 share in
          checked_add start_amount bonus_amount))))))))) "

definition calculate_locked_amount_claimable :: "u64 \<Rightarrow> i64 \<Rightarrow> i64 \<Rightarrow> i64 \<Rightarrow> u64 option" where
  "calculate_locked_amount_claimable locked curr_ts start_ts end_ts =
     (if curr_ts < start_ts then Some 0
      else if end_ts \<le> curr_ts then Some locked
      else
        Option.bind (checked_sub_i64 curr_ts start_ts) (\<lambda>elapsed. let time_into_unlock = i64_as_u128 elapsed in
        Option.bind (checked_sub_i64 end_ts start_ts) (\<lambda>window. let total_unlock_time = i64_as_u128 window in
        if total_unlock_time = 0 then Some locked
        else
          Option.bind (checked_mul time_into_unlock (u64_as_u128 locked)) (\<lambda>product.
          map_option u128_as_u64 (checked_div product total_unlock_time)))))"

section \<open>The handlers\<close>

record router_state =
  rs_basic_auth_user :: "string option"
  rs_basic_auth_password :: "string option"
  rs_program_id :: pubkey
  rs_tree :: "pubkey \<Rightarrow> (pubkey \<times> tree_node) option"
  rs_cache :: cache
  rs_start_amount_pct :: u128

definition needs_auth :: "router_state \<Rightarrow> bool" where
  "needs_auth state \<longleftrightarrow> rs_basic_auth_user state \<noteq> None \<and> rs_basic_auth_password state \<noteq> None"

definition get_user_proof ::
  "(string \<Rightarrow> pubkey option) \<Rightarrow> (pubkey \<Rightarrow> string) \<Rightarrow> (pubkey \<Rightarrow> (pubkey \<times> tree_node) option) \<Rightarrow> string \<Rightarrow> user_proof served" where
  "get_user_proof parse show_key merkle_tree key =
     and_then (ok_or (parse key) (Err ParsePubkeyError)) (\<lambda>user_pubkey.
     and_then (ok_or (merkle_tree user_pubkey) (Err (UserNotFound (show_key user_pubkey)))) (\<lambda>node.
     and_then (ok_or (tn_proof (snd node)) (Err (ProofNotFound (show_key user_pubkey)))) (\<lambda>proof.
     Inr \<lparr>up_merkle_tree = show_key (fst node), up_amount = node_unlocked_amount (snd node),
          up_locked_amount = node_locked_amount (snd node), up_proof = proof\<rparr>)))"

definition get_user_info :: "(string \<Rightarrow> pubkey option) \<Rightarrow> (pubkey \<Rightarrow> string) \<Rightarrow> router_state \<Rightarrow> string \<Rightarrow> user_proof served" where
  "get_user_info parse show_key state user_pubkey = get_user_proof parse show_key (rs_tree state) user_pubkey"

record claim_status_resp =
  cr_claimant :: pubkey
  cr_locked_amount :: u64
  cr_locked_amount_withdrawn :: u64
  cr_unlocked_amount :: u64
  cr_unlocked_amount_claimed :: u64
  cr_closable :: bool
  cr_distributor :: pubkey

definition get_claim_status :: "router_state \<Rightarrow> string \<Rightarrow> claim_status_resp served" where
  "get_claim_status state user_pubkey =
     (case cached_claim_status (rs_cache state) user_pubkey of
        Some data \<Rightarrow>
          Inr \<lparr>cr_claimant = cs_claimant (ds_data data), cr_locked_amount = cs_locked_amount (ds_data data),
               cr_locked_amount_withdrawn = cs_locked_amount_withdrawn (ds_data data),
               cr_unlocked_amount = cs_unlocked_amount (ds_data data),
               cr_unlocked_amount_claimed = cs_unlocked_amount_claimed (ds_data data),
               cr_closable = cs_closable (ds_data data), cr_distributor = cs_distributor (ds_data data)\<rparr>
      | None \<Rightarrow> Inl (Err (UserNotFound user_pubkey)))"

record eligibility_resp =
  er_claimant :: string
  er_merkle_tree :: string
  er_mint :: string
  er_start_ts :: i64
  er_end_ts :: i64
  er_proof :: "bytes32 list"
  er_start_amount :: string
  er_end_amount :: string
  er_unvested_amount :: string
  er_claimed_amount :: string
  er_unlocked_amount_claimed :: string
  er_locked_amount_withdrawn :: string
  er_locked_amount :: string
  er_claimable_amount :: string

text \<open>The amounts taken and still to take: from the claim record, or for a claimant without one.\<close>

definition claim_amounts ::
  "router_state \<Rightarrow> i64 \<Rightarrow> i64 \<Rightarrow> i64 \<Rightarrow> string \<Rightarrow> user_proof \<Rightarrow> (u64 \<times> u64 \<times> u64) served" where
  "claim_amounts state curr_ts start_ts end_ts user_pubkey proof =
     (case cached_claim_status (rs_cache state) user_pubkey of
        Some r \<Rightarrow>
          Inr (cs_unlocked_amount_claimed (ds_data r), cs_locked_amount_withdrawn (ds_data r),
               case amount_withdrawable (ds_data r) curr_ts start_ts end_ts of Inr due \<Rightarrow> due | Inl _ \<Rightarrow> 0)
      | None \<Rightarrow>
          and_then (or_panic (calculate_claimable_amount_for_new_user (up_amount proof) curr_ts start_ts end_ts
             (rs_start_amount_pct state))) (\<lambda>unlocked_claimable.
          and_then (or_panic (calculate_locked_amount_claimable (up_locked_amount proof) curr_ts start_ts end_ts))
            (\<lambda>locked_claimable.
          and_then (or_panic (checked_add unlocked_claimable locked_claimable)) (\<lambda>claimable_amount.
          Inr (0, 0, claimable_amount)))))"

definition get_eligibility ::
  "(string \<Rightarrow> pubkey option) \<Rightarrow> (pubkey \<Rightarrow> string) \<Rightarrow> router_state \<Rightarrow> i64 \<Rightarrow> string \<Rightarrow> eligibility_resp list served" where
  "get_eligibility parse show_key state curr_ts user_pubkey =
     and_then (get_user_proof parse show_key (rs_tree state) user_pubkey) (\<lambda>proof.
     let (start_ts, end_ts, mint) =
       (case cached_distributor (rs_cache state) (up_merkle_tree proof) of
          Some distributor \<Rightarrow> (md_start_ts distributor, md_end_ts distributor, show_key (md_mint distributor))
        | None \<Rightarrow> (ac_default_start_ts (rs_cache state), ac_default_end_ts (rs_cache state), ac_default_mint (rs_cache state))) in
     and_then (claim_amounts state curr_ts start_ts end_ts user_pubkey proof)
       (\<lambda>(unlocked_amount_claimed, locked_amount_withdrawn, claimable_amount).
     and_then (or_panic (checked_mul (rs_start_amount_pct state) START_AMOUNT_PCT_PRECISION)) (\<lambda>start_amount_pct_num.
     and_then (ok_or (checked_mul (u64_as_u128 (up_amount proof)) start_amount_pct_num) (Err MathError)) (\<lambda>scaled.
     and_then (ok_or (checked_div scaled START_AMOUNT_PCT_DENOM) (Err MathError)) (\<lambda>start_amount.
     and_then (or_panic (checked_add unlocked_amount_claimed locked_amount_withdrawn)) (\<lambda>claimed_amount.
     Inr [\<lparr>er_claimant = user_pubkey, er_merkle_tree = up_merkle_tree proof, er_mint = mint, er_start_ts = start_ts,
           er_end_ts = end_ts, er_proof = up_proof proof, er_start_amount = show_u128 start_amount,
           er_end_amount = show_u128 (u64_as_u128 (up_amount proof)),
           er_unvested_amount = show_u128 (get_unvested_amount (rs_cache state) user_pubkey),
           er_claimed_amount = show_u128 (u64_as_u128 claimed_amount),
           er_unlocked_amount_claimed = show_u128 (u64_as_u128 unlocked_amount_claimed),
           er_locked_amount_withdrawn = show_u128 (u64_as_u128 locked_amount_withdrawn),
           er_locked_amount = show_u128 (u64_as_u128 (up_locked_amount proof)),
           er_claimable_amount = show_u128 (u64_as_u128 claimable_amount)\<rparr>]))))))"

record merkle_distributor_resp =
  mr_pubkey :: string
  mr_version :: u64
  mr_mint :: string
  mr_token_vault :: string
  mr_max_total_claim :: u64
  mr_max_num_nodes :: u64
  mr_total_amount_claimed :: u64
  mr_total_amount_forgone :: u64
  mr_num_nodes_claimed :: u64
  mr_start_ts :: i64
  mr_end_ts :: i64
  mr_clawback_start_ts :: i64
  mr_clawback_receiver :: string
  mr_admin :: string
  mr_clawed_back :: bool
  mr_enable_slot :: u64
  mr_closable :: bool

definition merkle_distributor_resp_from :: "(pubkey \<Rightarrow> string) \<Rightarrow> string \<Rightarrow> merkle_distributor \<Rightarrow> merkle_distributor_resp" where
  "merkle_distributor_resp_from show_key key distributor =
     \<lparr>mr_pubkey = key, mr_version = md_version distributor, mr_mint = show_key (md_mint distributor),
      mr_token_vault = show_key (md_token_vault distributor), mr_max_total_claim = md_max_total_claim distributor,
      mr_max_num_nodes = md_max_num_nodes distributor, mr_total_amount_claimed = md_total_amount_claimed distributor,
      mr_total_amount_forgone = md_total_amount_forgone distributor,
      mr_num_nodes_claimed = md_num_nodes_claimed distributor, mr_start_ts = md_start_ts distributor,
      mr_end_ts = md_end_ts distributor, mr_clawback_start_ts = md_clawback_start_ts distributor,
      mr_clawback_receiver = show_key (md_clawback_receiver distributor), mr_admin = show_key (md_admin distributor),
      mr_clawed_back = md_clawed_back distributor, mr_enable_slot = md_enable_slot distributor,
      mr_closable = md_closable distributor\<rparr>"

definition get_distributors :: "(pubkey \<Rightarrow> string) \<Rightarrow> string list \<Rightarrow> router_state \<Rightarrow> merkle_distributor_resp list served" where
  "get_distributors show_key order state =
     Inr (map (\<lambda>(k, v). merkle_distributor_resp_from show_key k v) (get_all_distributors (rs_cache state) order))"

section \<open>Routes\<close>

datatype body = RootText string | ProofBody user_proof | ClaimBody claim_status_resp | EligibilityBody "eligibility_resp list"
  | DistributorsBody "merkle_distributor_resp list" | ErrorBody string | NoBody

text \<open>A panic in a handler ends the connection without a response: \<open>None\<close>.\<close>

definition respond :: "('a \<Rightarrow> body) \<Rightarrow> 'a served \<Rightarrow> (nat \<times> body) option" where
  "respond f r =
     (case r of
        Inr x \<Rightarrow> Some (200, f x)
      | Inl (Err e) \<Rightarrow> Some (map_prod id ErrorBody (into_response e))
      | Inl Panicked \<Rightarrow> None)"

text \<open>The handler of the routes that credentials can guard.\<close>

definition data_route ::
  "(string \<Rightarrow> pubkey option) \<Rightarrow> (pubkey \<Rightarrow> string) \<Rightarrow> string list \<Rightarrow> i64 \<Rightarrow> router_state \<Rightarrow> string list \<Rightarrow> (nat \<times> body) option option" where
  "data_route parse show_key order curr_ts state path =
     (if path = [''distributors''] then Some (respond DistributorsBody (get_distributors show_key order state))
      else if length path = 2 \<and> hd path = ''user'' then Some (respond ProofBody (get_user_info parse show_key state (path ! 1)))
      else if length path = 2 \<and> hd path = ''claim'' then Some (respond ClaimBody (get_claim_status state (path ! 1)))
      else if length path = 2 \<and> hd path = ''eligibility''
      then Some (respond EligibilityBody (get_eligibility parse show_key state curr_ts (path ! 1)))
      else None)"

definition get_routes ::
  "(string \<Rightarrow> string \<Rightarrow> string option \<Rightarrow> bool) \<Rightarrow> (string \<Rightarrow> pubkey option) \<Rightarrow> (pubkey \<Rightarrow> string) \<Rightarrow> string list \<Rightarrow> i64 \<Rightarrow>
   router_state \<Rightarrow> string option \<Rightarrow> string list \<Rightarrow> (nat \<times> body) option" where
  "get_routes basic parse show_key order curr_ts state authorization path =
     (if path = [] then Some (200, RootText ''hey what u doing here'')
      else case data_route parse show_key order curr_ts state path of
        None \<Rightarrow> Some (404, NoBody)
      | Some response \<Rightarrow>
          if needs_auth state
             \<and> \<not> basic (the (rs_basic_auth_user state)) (the (rs_basic_auth_password state)) authorization
          then Some (401, NoBody)
          else response)"

section \<open>Starting up\<close>

text \<open>A file of the tree directory, with what reading it gives.\<close>

record dir_entry =
  de_is_dir :: bool
  de_extension :: "string option"
  de_tree :: "airdrop_merkle_tree option"

type_synonym loaded = "single_distributor list \<times> (pubkey \<Rightarrow> (pubkey \<times> tree_node) option)"

definition tree_address :: "env \<Rightarrow> pubkey \<Rightarrow> pubkey \<Rightarrow> airdrop_merkle_tree \<Rightarrow> pubkey" where
  "tree_address env program mint single_tree =
     fst (find_program_address env (distributor_seeds mint (at_airdrop_version single_tree)) program)"

definition load_tree :: "env \<Rightarrow> (pubkey \<Rightarrow> string) \<Rightarrow> pubkey \<Rightarrow> pubkey \<Rightarrow> dir_entry \<Rightarrow> loaded \<Rightarrow> loaded" where
  "load_tree env show_key program mint entry acc =
     (if de_is_dir entry then acc
      else if de_extension entry \<noteq> Some ''json'' then acc
      else case de_tree entry of
        None \<Rightarrow> acc
      | Some single_tree \<Rightarrow>
          let distributor_pubkey = tree_address env program mint single_tree in
          (fst acc @ [\<lparr>sd_distributor_pubkey = show_key distributor_pubkey, sd_airdrop_version = at_airdrop_version single_tree,
                       sd_max_num_nodes = at_max_num_nodes single_tree, sd_max_total_claim = at_max_total_claim single_tree\<rparr>],
           fold (\<lambda>node tree. tree(tn_claimant node \<mapsto> (distributor_pubkey, node))) (at_tree_nodes single_tree) (snd acc)))"

definition load_trees :: "env \<Rightarrow> (pubkey \<Rightarrow> string) \<Rightarrow> pubkey \<Rightarrow> pubkey \<Rightarrow> dir_entry list option \<Rightarrow> loaded" where
  "load_trees env show_key program mint entries =
     fold (load_tree env show_key program mint) (case entries of None \<Rightarrow> [] | Some files \<Rightarrow> files) ([], \<lambda>_. None)"

definition ui_amount_to_token_amount :: "u128 \<Rightarrow> u32 \<Rightarrow> u128 option" where
  "ui_amount_to_token_amount amount decimals = Option.bind (checked_pow 10 (unat decimals)) (checked_mul amount)"

text \<open>The rows of the file of unvested amounts; a row that cannot be read is \<open>None\<close> and skipped. A row without two fields,
  with an amount that is no number or with one too large is a panic.\<close>

fun read_vested :: "u32 \<Rightarrow> string list option list \<Rightarrow> (string \<Rightarrow> u128 option) \<Rightarrow> (string \<Rightarrow> u128 option) option" where
  "read_vested decimals [] users = Some users"
| "read_vested decimals (None # records) users = read_vested decimals records users"
| "read_vested decimals (Some (user # amount # others) # records) users =
     Option.bind (parse_u128 amount) (\<lambda>ui_amount.
     Option.bind (ui_amount_to_token_amount ui_amount decimals) (\<lambda>vested_amount.
     case users user of
       None \<Rightarrow> read_vested decimals records (users(user \<mapsto> vested_amount))
     | Some e \<Rightarrow> Option.bind (checked_add e vested_amount) (\<lambda>e'. read_vested decimals records (users(user \<mapsto> e')))))"
| "read_vested decimals (Some record # records) users = None"

record api_args =
  ag_bind_addr :: string
  ag_merkle_tree_path :: string
  ag_rpc_url :: string
  ag_ws_url :: string
  ag_mint :: pubkey
  ag_program_id :: pubkey
  ag_unvested_accounts_path :: "string option"
  ag_unvested_accounts_decimals :: "u32 option"
  ag_basic_auth_user :: "string option"
  ag_basic_auth_password :: "string option"
  ag_default_start_ts :: "i64 option"
  ag_default_end_ts :: "i64 option"
  ag_default_mint :: "string option"
  ag_start_amount_pct :: string

text \<open>\<open>None\<close> is a panic. A file that cannot be opened leaves the server without unvested amounts.\<close>

definition vested_users ::
  "api_args \<Rightarrow> (string \<Rightarrow> string list option list option) \<Rightarrow> (string \<Rightarrow> u128 option) option option" where
  "vested_users args open_csv =
     (case ag_unvested_accounts_path args of
        None \<Rightarrow> Some None
      | Some path \<Rightarrow>
          (case open_csv path of
             None \<Rightarrow> Some None
           | Some records \<Rightarrow>
               map_option Some (read_vested (case ag_unvested_accounts_decimals args of Some d \<Rightarrow> d | None \<Rightarrow> 6) records (\<lambda>_. None))))"

definition start_server ::
  "env \<Rightarrow> (string \<Rightarrow> pubkey option) \<Rightarrow> (pubkey \<Rightarrow> string) \<Rightarrow> u8 list \<Rightarrow> api_args \<Rightarrow> dir_entry list option \<Rightarrow>
   (string \<Rightarrow> string list option list option) \<Rightarrow> router_state option" where
  "start_server env parse show_key discriminator args entries open_csv =
     (let (distributors, tree) = load_trees env show_key (ag_program_id args) (ag_mint args) entries in
      Option.bind (vested_users args open_csv) (\<lambda>users.
      let cache = cache_new (ag_program_id args) distributors users
            (case ag_default_start_ts args of Some ts \<Rightarrow> ts | None \<Rightarrow> I64 0)
            (case ag_default_end_ts args of Some ts \<Rightarrow> ts | None \<Rightarrow> I64 3133657200)
            (case ag_default_mint args of Some mint \<Rightarrow> mint | None \<Rightarrow> ''11111111111111111111111111111111'') in
      Option.bind (subscribe parse discriminator cache) (\<lambda>tasks.
      Option.bind (parse_u128 (ag_start_amount_pct args)) (\<lambda>start_amount_pct.
      Some \<lparr>rs_basic_auth_user = ag_basic_auth_user args, rs_basic_auth_password = ag_basic_auth_password args,
            rs_program_id = ag_program_id args, rs_tree = tree, rs_cache = cache,
            rs_start_amount_pct = start_amount_pct\<rparr>))))"

text \<open>\<^verbatim>\<open>main\<close>: the directory is read, the state built and the socket bound; an address that cannot be bound is a panic. The
  address and the state of a server that runs.\<close>

definition api_main ::
  "env \<Rightarrow> (string \<Rightarrow> pubkey option) \<Rightarrow> (pubkey \<Rightarrow> string) \<Rightarrow> u8 list \<Rightarrow> (string \<Rightarrow> dir_entry list option) \<Rightarrow>
   (string \<Rightarrow> string list option list option) \<Rightarrow> (string \<Rightarrow> bool) \<Rightarrow> api_args \<Rightarrow> (string \<times> router_state) option" where
  "api_main env parse show_key discriminator read_dir open_csv binds args =
     Option.bind (start_server env parse show_key discriminator args (read_dir (ag_merkle_tree_path args)) open_csv) (\<lambda>state.
     if binds (ag_bind_addr args) then Some (ag_bind_addr args, state) else None)"

section \<open>The server's amounts are the chain's\<close>

lemma half_u128:
  obtains p q where "checked_mul (u64_as_u128 amount) 50000 = Some p" "checked_div p START_AMOUNT_PCT_DENOM = Some q"
    "unat (u128_as_u64 q) = unat amount div 2" "unat q = unat amount div 2"
proof -
  have am: "unat amount < 2 ^ 64" using unat_bound [of amount] by simp
  have "checked_mul (u64_as_u128 amount) 50000 \<noteq> None" using am by (simp add: checked_mul_None unat_u64_as_u128)
  then obtain p where p: "checked_mul (u64_as_u128 amount) 50000 = Some p" by blast
  then have up: "unat p = unat amount * 50000" by (simp add: checked_mul_Some unat_u64_as_u128)
  have denom: "unat START_AMOUNT_PCT_DENOM = 2 * 50000"
    by (simp add: START_AMOUNT_PCT_DENOM_def START_AMOUNT_PCT_PRECISION_def)
  then have "checked_div p START_AMOUNT_PCT_DENOM \<noteq> None" by (simp add: checked_div_None)
  then obtain q where q: "checked_div p START_AMOUNT_PCT_DENOM = Some q" by blast
  then have "unat q = unat amount * 50000 div (2 * 50000)" using up denom by (simp add: checked_div_Some)
  also have "\<dots> = unat amount div 2" by (rule div_mult_mult2) simp
  finally have uq: "unat q = unat amount div 2" .
  then show thesis using am by (intro that [OF p q]) (simp_all add: unat_u128_as_u64)
qed

text \<open>Inside the window both computations divide by its length, which is not zero.\<close>

lemma inside_window:
  assumes "window_fits s e" "\<not> t < s" "\<not> e \<le> t"
  obtains el to where "checked_sub_i64 t s = Some el" "checked_sub_i64 e s = Some to"
    "ival el = ival t - ival s" "ival to = ival e - ival s" "0 \<le> ival el" "ival el \<le> ival to" "0 < ival to" "i64_as_u128 to \<noteq> 0"
proof -
  have ord: "ival s \<le> ival t" "ival t < ival e" using assms(2,3) by (simp_all add: word_nat)
  then have "checked_sub_i64 t s \<noteq> None" "checked_sub_i64 e s \<noteq> None"
    using assms(1) ival_range [of s] ival_range [of e] ival_range [of t] by (auto simp: window_fits_def checked_sub_i64_def)
  then obtain el to where sub: "checked_sub_i64 t s = Some el" "checked_sub_i64 e s = Some to" by blast
  then have v: "ival el = ival t - ival s" "ival to = ival e - ival s" by (auto simp: checked_sub_i64_Some)
  then have pos: "0 < ival to" using ord by simp
  then have "unat (i64_as_u128 to) \<noteq> 0" by (simp add: unat_i64_as_u128)
  then have "i64_as_u128 to \<noteq> 0" by auto
  with sub v pos ord show thesis by (intro that [of el to]) auto
qed

lemma calculate_locked_exact:
  assumes "window_fits s e"
  obtains r where "calculate_locked_amount_claimable locked t s e = Some r"
    "unat r = linear_vested (unat locked) (ival t) (ival s) (ival e)"
proof (cases "t < s \<or> e \<le> t")
  case True
  then show thesis
    by (intro that [of "if t < s then 0 else locked"])
      (auto simp: calculate_locked_amount_claimable_def linear_vested_def word_nat)
next
  case False
  then obtain el to where w: "checked_sub_i64 t s = Some el" "checked_sub_i64 e s = Some to"
    "ival el = ival t - ival s" "ival to = ival e - ival s" "0 \<le> ival el" "ival el \<le> ival to" "0 < ival to" "i64_as_u128 to \<noteq> 0"
    using inside_window [OF assms] by blast
  obtain p q where pq: "checked_mul (i64_as_u128 el) (u64_as_u128 locked) = Some p" "checked_div p (i64_as_u128 to) = Some q"
    "unat (u128_as_u64 q) = nat (ival el) * unat locked div nat (ival to)"
    using share_u128 [OF w(5-7)] .
  have "calculate_locked_amount_claimable locked t s e = Some (u128_as_u64 q)"
    using False w(1,2,8) pq(1,2) by (auto simp: calculate_locked_amount_claimable_def Let_def)
  moreover have "unat (u128_as_u64 q) = linear_vested (unat locked) (ival t) (ival s) (ival e)"
    using False w(3,4) pq(3) by (auto simp: linear_vested_def i64_order)
  ultimately show thesis by (rule that)
qed

lemma calculate_new_user_exact:
  assumes "window_fits s e"
  obtains r where "calculate_claimable_amount_for_new_user unlocked t s e 50 = Some r"
    "unat r = bonus_vested (unat unlocked) (ival t) (ival s) (ival e)"
proof (cases "t < s \<or> e \<le> t")
  case True
  then show thesis
    by (intro that [of "if t < s then 0 else unlocked"])
      (auto simp: calculate_claimable_amount_for_new_user_def linear_vested_def bonus_vested_def word_nat)
next
  case False
  then obtain el to where w: "checked_sub_i64 t s = Some el" "checked_sub_i64 e s = Some to"
    "ival el = ival t - ival s" "ival to = ival e - ival s" "0 \<le> ival el" "ival el \<le> ival to" "0 < ival to" "i64_as_u128 to \<noteq> 0"
    using inside_window [OF assms] by blast
  have pct: "checked_mul 50 START_AMOUNT_PCT_PRECISION = Some 50000"
    by (simp add: checked_mul_def START_AMOUNT_PCT_PRECISION_def)
  obtain p q where half: "checked_mul (u64_as_u128 unlocked) 50000 = Some p" "checked_div p START_AMOUNT_PCT_DENOM = Some q"
    "unat (u128_as_u64 q) = unat unlocked div 2"
    using half_u128 .
  obtain rest where rest: "checked_sub unlocked (u128_as_u64 q) = Some rest" "unat rest = unat unlocked - unat unlocked div 2"
    using half(3) by (cases "checked_sub unlocked (u128_as_u64 q)") (auto simp: checked_sub_None checked_sub_Some)
  obtain p' q' where bonus: "checked_mul (i64_as_u128 el) (u64_as_u128 rest) = Some p'" "checked_div p' (i64_as_u128 to) = Some q'"
    "unat (u128_as_u64 q') = nat (ival el) * unat rest div nat (ival to)"
    using share_u128 [OF w(5-7)] .
  have lin: "unat (u128_as_u64 q') = linear_vested (unat rest) (ival t) (ival s) (ival e)"
    using False bonus(3) w(3,4) by (auto simp: linear_vested_def i64_order)
  then have "unat (u128_as_u64 q') \<le> unat rest" using linear.at_most_all by simp
  then have "checked_add (u128_as_u64 q) (u128_as_u64 q') \<noteq> None"
    using half(3) rest(2) unat_bound [of unlocked] by (simp add: checked_add_None)
  then obtain r where r: "checked_add (u128_as_u64 q) (u128_as_u64 q') = Some r" by blast
  then have "unat r = bonus_vested (unat unlocked) (ival t) (ival s) (ival e)"
    using half(3) lin rest(2) False by (auto simp: checked_add_Some bonus_vested_def i64_order)
  with False w pct half rest bonus r show thesis
    by (intro that [of r]) (auto simp: calculate_claimable_amount_for_new_user_def Let_def)
qed

text \<open>For a claimant without record: what the server computes, and that the program pays it.\<close>

lemma new_user_amounts:
  assumes "window_fits (md_start_ts md) (md_end_ts md)" "unat u + unat l < 2 ^ 64"
  obtains paid due sum where
    "calculate_claimable_amount_for_new_user u t (md_start_ts md) (md_end_ts md) 50 = Some paid"
    "calculate_locked_amount_claimable l t (md_start_ts md) (md_end_ts md) = Some due"
    "checked_add paid due = Some sum" "unat sum = unat paid + unat due"
    "if t < md_start_ts md then paid = 0
     else update_unlocked_amount_claimed (fresh_claim md a u l 0) t (md_start_ts md) (md_end_ts md) = Inr (fresh_claim md a u l paid)"
    "amount_withdrawable (fresh_claim md a u l paid) t (md_start_ts md) (md_end_ts md) = Inr due"
proof -
  let ?s = "md_start_ts md" and ?e = "md_end_ts md"
  obtain paid where paid: "calculate_claimable_amount_for_new_user u t ?s ?e 50 = Some paid"
    "unat paid = bonus_vested (unat u) (ival t) (ival ?s) (ival ?e)"
    using calculate_new_user_exact [OF assms(1)] .
  obtain due where due: "calculate_locked_amount_claimable l t ?s ?e = Some due"
    "unat due = linear_vested (unat l) (ival t) (ival ?s) (ival ?e)"
    using calculate_locked_exact [OF assms(1)] .
  have "unat paid + unat due < 2 ^ 64"
    using assms(2) paid(2) due(2) linear.at_most_all [of "unat l"] bonus.at_most_all [of "unat u"]
    by (metis add_mono le_less_trans)
  then obtain sum where sum: "checked_add paid due = Some sum" "unat sum = unat paid + unat due"
    by (cases "checked_add paid due") (auto simp: checked_add_None checked_add_Some)
  have chain_paid: "if t < ?s then paid = 0
      else update_unlocked_amount_claimed (fresh_claim md a u l 0) t ?s ?e = Inr (fresh_claim md a u l paid)"
  proof (cases "t < ?s")
    case True
    then have "unat paid = 0" by (simp add: paid(2) bonus_vested_def i64_order)
    then show ?thesis using True by (simp add: word_unat_eq_iff)
  next
    case False
    then show ?thesis using assms(1) by (simp add: update_unlocked_exact fresh_claim_def flip: paid(2))
  qed
  have "amount_withdrawable (fresh_claim md a u l paid) t ?s ?e = Inr due"
    using assms(1) by (simp add: amount_withdrawable_def unlocked_amount_exact fresh_claim_def checked_sub_def flip: due(2))
  with paid(1) due(1) sum chain_paid show thesis by (rule that)
qed

text \<open>The answer for a claimant of a loaded tree whose distributor is cached, with the default share.\<close>

lemma eligibility_answer:
  assumes "parse user = Some k" "rs_tree st k = Some (d, n)" "tn_proof n = Some proof"
    and "cached_distributor (rs_cache st) (show_key d) = Some md" "rs_start_amount_pct st = 50"
    and "claim_amounts st t (md_start_ts md) (md_end_ts md) user \<lparr>up_merkle_tree = show_key d, up_amount = tn_amount n,
      up_locked_amount = node_locked_amount n, up_proof = proof\<rparr> = Inr (claimed, withdrawn, claimable)"
    and "unat claimed + unat withdrawn < 2 ^ 64"
  obtains r where "get_eligibility parse show_key st t user = Inr [r]" "er_merkle_tree r = show_key d" "er_proof r = proof"
    "map_option unat (parse_u128 (er_claimable_amount r)) = Some (unat claimable)"
    "map_option unat (parse_u128 (er_claimed_amount r)) = Some (unat claimed + unat withdrawn)"
    "map_option unat (parse_u128 (er_start_amount r)) = Some (unat (tn_amount n) div 2)"
proof -
  have pct: "checked_mul 50 START_AMOUNT_PCT_PRECISION = Some 50000"
    by (simp add: checked_mul_def START_AMOUNT_PCT_PRECISION_def)
  obtain p q where half: "checked_mul (u64_as_u128 (tn_amount n)) 50000 = Some p" "checked_div p START_AMOUNT_PCT_DENOM = Some q"
    "unat q = unat (tn_amount n) div 2"
    using half_u128 by metis
  obtain sum where "checked_add claimed withdrawn = Some sum" "unat sum = unat claimed + unat withdrawn"
    using assms(7) by (cases "checked_add claimed withdrawn") (auto simp: checked_add_None checked_add_Some)
  with assms(1-6) pct half show thesis
    by (intro that) (auto simp: get_eligibility_def get_user_proof_def node_unlocked_amount_def unat_u64_as_u128)
qed

text \<open>A share above 100 percent panics inside the window.\<close>

lemma share_above_100_panics: "calculate_claimable_amount_for_new_user 1000000 (I64 55) (I64 10) (I64 100) 101 = None"
  by (simp add: calculate_claimable_amount_for_new_user_def less_i64_def less_eq_i64_def
      ival_def checked_sub_i64_def i64_of_def i64_as_u128_def u64_as_u128_def u128_as_u64_def checked_mul_def checked_div_def
      checked_sub_def START_AMOUNT_PCT_PRECISION_def START_AMOUNT_PCT_DENOM_def Let_def)

section \<open>What loading leaves\<close>

definition loaded_tree :: "dir_entry \<Rightarrow> airdrop_merkle_tree option" where
  "loaded_tree entry = (if de_is_dir entry \<or> de_extension entry \<noteq> Some ''json'' then None else de_tree entry)"

lemma load_tree_loaded:
  "load_tree env show_key program mint entry acc =
     (case loaded_tree entry of
        None \<Rightarrow> acc
      | Some tree \<Rightarrow>
          (fst acc @ [\<lparr>sd_distributor_pubkey = show_key (tree_address env program mint tree),
              sd_airdrop_version = at_airdrop_version tree, sd_max_num_nodes = at_max_num_nodes tree,
              sd_max_total_claim = at_max_total_claim tree\<rparr>],
           fold (\<lambda>node t. t(tn_claimant node \<mapsto> (tree_address env program mint tree, node))) (at_tree_nodes tree) (snd acc)))"
  by (auto simp: load_tree_def loaded_tree_def Let_def split: option.splits)

lemma fold_nodes_Some:
  "fold (\<lambda>node t. t(tn_claimant node \<mapsto> (d, node))) nodes t0 k = Some x \<Longrightarrow>
   t0 k = Some x \<or> (\<exists>n \<in> set nodes. tn_claimant n = k \<and> x = (d, n))"
  by (induction nodes arbitrary: t0) (fastforce split: if_splits)+

lemma fold_nodes_None:
  "fold (\<lambda>node t. t(tn_claimant node \<mapsto> (d, node))) nodes t0 k = None \<longleftrightarrow> t0 k = None \<and> k \<notin> tn_claimant ` set nodes"
  by (induction nodes arbitrary: t0) auto

text \<open>The map holds nodes of loaded trees under their tree's address, and every claimant of one.\<close>

lemma load_fold:
  assumes "t = snd (fold (load_tree env show_key program mint) files ([], \<lambda>_. None))"
  shows "(\<forall>d n. t k = Some (d, n) \<longrightarrow>
       (\<exists>f \<in> set files. \<exists>tree. loaded_tree f = Some tree \<and> n \<in> set (at_tree_nodes tree) \<and> tn_claimant n = k
          \<and> d = tree_address env program mint tree))
     \<and> (t k = None \<longleftrightarrow> (\<forall>f \<in> set files. \<forall>tree. loaded_tree f = Some tree \<longrightarrow> k \<notin> tn_claimant ` set (at_tree_nodes tree)))"
  using assms
proof (induction files arbitrary: t rule: rev_induct)
  case (snoc f files)
  then show ?case
    by (cases "loaded_tree f") (auto simp: load_tree_loaded fold_nodes_None dest!: fold_nodes_Some)
qed simp

lemma start_server_tree:
  "start_server env parse show_key disc args (Some files) open_csv = Some st \<Longrightarrow>
   rs_tree st = snd (fold (load_tree env show_key (ag_program_id args) (ag_mint args)) files ([], \<lambda>_. None))"
  by (auto simp: start_server_def load_trees_def Let_def bind_eq_Some_conv split: prod.splits)

section \<open>Unvested amounts\<close>

fun row_amount :: "string \<Rightarrow> string list option \<Rightarrow> nat" where
  "row_amount user (Some (u # a # others)) = (if u = user then unat (the (parse_u128 a)) else 0)"
| "row_amount user record = 0"

definition amount_or_0 :: "u128 option \<Rightarrow> nat" where
  "amount_or_0 a = (case a of None \<Rightarrow> 0 | Some x \<Rightarrow> unat x)"

lemma ui_amount_exact:
  assumes "ui_amount_to_token_amount amount decimals = Some r"
  shows "unat r = unat amount * 10 ^ unat decimals"
  using assms
  by (auto simp: ui_amount_to_token_amount_def bind_eq_Some_conv checked_mul_Some checked_pow_Some)

text \<open>A user's unvested amount is the sum of the user's rows, in base units.\<close>

lemma read_vested_sums:
  "read_vested decimals records users = Some users' \<Longrightarrow>
   amount_or_0 (users' user) = amount_or_0 (users user) + (\<Sum>r \<leftarrow> records. row_amount user r) * 10 ^ unat decimals"
proof (induction decimals records users rule: read_vested.induct)
  case (3 decimals u a others records users)
  from 3(3) obtain ui v where v: "parse_u128 a = Some ui" "ui_amount_to_token_amount ui decimals = Some v"
    by (auto simp: bind_eq_Some_conv)
  note exact = ui_amount_exact [OF v(2)]
  show ?case
  proof (cases "users u")
    case None
    then have "read_vested decimals records (users(u \<mapsto> v)) = Some users'" using 3(3) v by simp
    from 3(1) [OF v None this] None v exact show ?thesis
      by (auto simp: amount_or_0_def algebra_simps)
  next
    case (Some e)
    then obtain e' where e': "checked_add e v = Some e'" "read_vested decimals records (users(u \<mapsto> e')) = Some users'"
      using 3(3) v by (auto simp: bind_eq_Some_conv)
    from 3(2) [OF v Some e'] Some v exact e'(1) show ?thesis
      by (auto simp: amount_or_0_def checked_add_Some algebra_simps)
  qed
qed auto

section \<open>Guarded routes\<close>

text \<open>With both credentials set, a request without them gets data from no route.\<close>

lemma guarded_routes:
  assumes "needs_auth state" "\<not> basic (the (rs_basic_auth_user state)) (the (rs_basic_auth_password state)) authorization" "path \<noteq> []"
  shows "get_routes basic parse show_key order curr_ts state authorization path \<in> {Some (401, NoBody), Some (404, NoBody)}"
  using assms by (auto simp: get_routes_def split: option.splits)

section \<open>Properties\<close>

text \<open>C38: What the server says a claimant can claim is what the program pays. With the default share of 50 percent and a
  cached distributor, the answer is one entry with the proof, in which the amount to claim reads, for a claimant
  without claim record, as the unlocked amount the program pays on a new claim at that time (0 before the start, when it
  refuses) plus what it then lets withdraw of the locked amount; and for one with a record, as what the program lets
  withdraw. The amount claimed is the sum of both parts of the record.\<close>

theorem eligibility_matches_chain:
  assumes "parse user = Some k" "rs_tree st k = Some (d, n)" "tn_proof n = Some proof"
    and "cached_distributor (rs_cache st) (show_key d) = Some md" "window_fits (md_start_ts md) (md_end_ts md)"
    and "rs_start_amount_pct st = 50" "unat (tn_amount n) + unat (node_locked_amount n) < 2 ^ 64"
    and "\<forall>e. cached_claim_status (rs_cache st) user = Some e \<longrightarrow>
           unat (cs_unlocked_amount_claimed (ds_data e)) + unat (cs_locked_amount_withdrawn (ds_data e)) < 2 ^ 64"
  shows "\<exists>r. get_eligibility parse show_key st t user = Inr [r] \<and> er_merkle_tree r = show_key d \<and> er_proof r = proof
    \<and> (case cached_claim_status (rs_cache st) user of
         None \<Rightarrow>
           \<exists>paid due. map_option unat (parse_u128 (er_claimable_amount r)) = Some (unat paid + unat due)
             \<and> (if t < md_start_ts md then paid = 0
                else update_unlocked_amount_claimed (fresh_claim md a (tn_amount n) (node_locked_amount n) 0) t (md_start_ts md) (md_end_ts md)
                     = Inr (fresh_claim md a (tn_amount n) (node_locked_amount n) paid))
             \<and> amount_withdrawable (fresh_claim md a (tn_amount n) (node_locked_amount n) paid) t (md_start_ts md) (md_end_ts md) = Inr due
             \<and> parse_u128 (er_claimed_amount r) = Some 0
       | Some e \<Rightarrow>
           map_option unat (parse_u128 (er_claimed_amount r))
             = Some (unat (cs_unlocked_amount_claimed (ds_data e)) + unat (cs_locked_amount_withdrawn (ds_data e)))
           \<and> (\<forall>due. amount_withdrawable (ds_data e) t (md_start_ts md) (md_end_ts md) = Inr due \<longrightarrow>
                 map_option unat (parse_u128 (er_claimable_amount r)) = Some (unat due)))"
proof -
  let ?s = "md_start_ts md" and ?e = "md_end_ts md"
  let ?fresh = "fresh_claim md a (tn_amount n) (node_locked_amount n)"
  note answer = eligibility_answer [where parse = parse and show_key = show_key, OF assms(1-4,6)]
  show ?thesis
  proof (cases "cached_claim_status (rs_cache st) user")
    case None
    obtain paid due sum where new: "calculate_claimable_amount_for_new_user (tn_amount n) t ?s ?e 50 = Some paid"
      "calculate_locked_amount_claimable (node_locked_amount n) t ?s ?e = Some due"
      "checked_add paid due = Some sum" "unat sum = unat paid + unat due"
      "if t < ?s then paid = 0 else update_unlocked_amount_claimed (?fresh 0) t ?s ?e = Inr (?fresh paid)"
      "amount_withdrawable (?fresh paid) t ?s ?e = Inr due"
      using new_user_amounts [OF assms(5,7)] by blast
    then have "claim_amounts st t ?s ?e user \<lparr>up_merkle_tree = show_key d, up_amount = tn_amount n,
        up_locked_amount = node_locked_amount n, up_proof = proof\<rparr> = Inr (0, 0, sum)"
      using None assms(6) by (simp add: claim_amounts_def)
    then obtain r where r: "get_eligibility parse show_key st t user = Inr [r]" "er_merkle_tree r = show_key d" "er_proof r = proof"
      "map_option unat (parse_u128 (er_claimable_amount r)) = Some (unat sum)"
      "map_option unat (parse_u128 (er_claimed_amount r)) = Some (unat (0 :: u64) + unat (0 :: u64))"
      by (rule answer) simp_all
    then have "parse_u128 (er_claimed_amount r) = Some 0" by (auto simp: word_unat_eq_iff)
    with r(1-4) new(4-6) show ?thesis unfolding None option.case by metis
  next
    case (Some e)
    define due where "due = (case amount_withdrawable (ds_data e) t ?s ?e of Inr x \<Rightarrow> x | Inl _ \<Rightarrow> 0)"
    have "claim_amounts st t ?s ?e user \<lparr>up_merkle_tree = show_key d, up_amount = tn_amount n,
        up_locked_amount = node_locked_amount n, up_proof = proof\<rparr>
      = Inr (cs_unlocked_amount_claimed (ds_data e), cs_locked_amount_withdrawn (ds_data e), due)"
      using Some by (simp add: claim_amounts_def due_def)
    then obtain r where r: "get_eligibility parse show_key st t user = Inr [r]" "er_merkle_tree r = show_key d" "er_proof r = proof"
      "map_option unat (parse_u128 (er_claimable_amount r)) = Some (unat due)"
      "map_option unat (parse_u128 (er_claimed_amount r))
        = Some (unat (cs_unlocked_amount_claimed (ds_data e)) + unat (cs_locked_amount_withdrawn (ds_data e)))"
      by (rule answer) (use assms(8) Some in simp_all)
    have "amount_withdrawable (ds_data e) t ?s ?e = Inr x \<longrightarrow> due = x" for x by (simp add: due_def)
    with r show ?thesis unfolding Some option.case by metis
  qed
qed

definition demo_router :: router_state where
  "demo_router =
     \<lparr>rs_basic_auth_user = None, rs_basic_auth_password = None, rs_program_id = Pubkey 1,
      rs_tree = (\<lambda>_. None)(Pubkey 50 \<mapsto> (Pubkey 10, demo_tree_row\<lparr>tn_proof := Some []\<rparr>)),
      rs_cache = (cache_new (Pubkey 1) [] None (I64 0) (I64 0) [])
        \<lparr>ac_distributor_cache := (\<lambda>_. None)(demo_show_key (Pubkey 10) \<mapsto> demo_distributor 0 0 0 False)\<rparr>,
      rs_start_amount_pct = 50\<rparr>"

text \<open>Halfway through the window, of 400 unlocked and 600 locked tokens.\<close>

theorem eligibility_matches_chain_witness:
  "\<exists>r paid due. get_eligibility (\<lambda>_. Some (Pubkey 50)) demo_show_key demo_router (I64 150) ''me'' = Inr [r]
     \<and> map_option unat (parse_u128 (er_claimable_amount r)) = Some (unat paid + unat due)
     \<and> update_unlocked_amount_claimed (fresh_claim (demo_distributor 0 0 0 False) demo_claim_accounts 400 600 0) (I64 150) (I64 100) (I64 200)
       = Inr (fresh_claim (demo_distributor 0 0 0 False) demo_claim_accounts 400 600 paid)
     \<and> amount_withdrawable (fresh_claim (demo_distributor 0 0 0 False) demo_claim_accounts 400 600 paid) (I64 150) (I64 100) (I64 200) = Inr due"
proof -
  let ?n = "demo_tree_row\<lparr>tn_proof := Some []\<rparr>" and ?md = "demo_distributor 0 0 0 False"
  have hyps: "rs_tree demo_router (Pubkey 50) = Some (Pubkey 10, ?n)" "tn_proof ?n = Some []"
    "cached_distributor (rs_cache demo_router) (demo_show_key (Pubkey 10)) = Some ?md"
    "window_fits (md_start_ts ?md) (md_end_ts ?md)" "rs_start_amount_pct demo_router = 50"
    "unat (tn_amount ?n) + unat (node_locked_amount ?n) < 2 ^ 64"
    and none: "cached_claim_status (rs_cache demo_router) ''me'' = None"
    by (simp_all add: demo_router_def cached_distributor_def cached_claim_status_def cache_new_def window_fits_def ival_def
        demo_distributor_def demo_tree_row_def node_locked_amount_def)
  have amounts: "tn_amount ?n = 400" "node_locked_amount ?n = 600" "md_start_ts ?md = I64 100" "md_end_ts ?md = I64 200"
    "(I64 150 < I64 100) = False"
    by (simp_all add: demo_tree_row_def node_locked_amount_def demo_distributor_def less_i64_def ival_def)
  have "\<forall>e. cached_claim_status (rs_cache demo_router) ''me'' = Some e \<longrightarrow>
      unat (cs_unlocked_amount_claimed (ds_data e)) + unat (cs_locked_amount_withdrawn (ds_data e)) < 2 ^ 64"
    using none by simp
  then show ?thesis
    using eligibility_matches_chain [where parse = "\<lambda>_. Some (Pubkey 50)" and show_key = demo_show_key and user = "''me''"
        and t = "I64 150" and a = demo_claim_accounts, OF refl hyps]
    unfolding amounts none option.case if_False by blast
qed

text \<open>C39: The server answers a request for a proof from the trees it loaded, whatever the order it loaded them in. For every
  key it either says that the user is unknown, and then no loaded tree has the claimant, or serves amounts and a proof
  that the program accepts against the root of a loaded tree, under the address of that tree's distributor, the amounts
  being the sums of the claimant's rows.\<close>

theorem served_proof_is_accepted:
  assumes "start_server env parse show_key disc args (Some files) open_csv = Some st"
    and "\<forall>f \<in> set files. \<forall>tree. loaded_tree f = Some tree \<longrightarrow> (\<exists>rows version. airdrop_new (hashv env) rows version = Inr tree)"
    and "parse user = Some k"
  shows "case get_user_info parse show_key st user of
      Inl e \<Rightarrow> e = Err (UserNotFound (show_key k))
        \<and> (\<forall>f \<in> set files. \<forall>tree. loaded_tree f = Some tree \<longrightarrow> k \<notin> tn_claimant ` set (at_tree_nodes tree))
    | Inr p \<Rightarrow> \<exists>f \<in> set files. \<exists>tree rows version. loaded_tree f = Some tree \<and> airdrop_new (hashv env) rows version = Inr tree
        \<and> up_merkle_tree p = show_key (tree_address env (ag_program_id args) (ag_mint args) tree)
        \<and> unat (up_amount p) = amount_of k rows \<and> unat (up_locked_amount p) = locked_of k rows
        \<and> verify (hashv env) (up_proof p) (at_merkle_root tree) (claim_leaf env k (up_amount p) (up_locked_amount p))"
proof (cases "rs_tree st k")
  case None
  then show ?thesis
    using load_fold [OF start_server_tree [OF assms(1)], of k] assms(3)
    by (simp add: get_user_info_def get_user_proof_def)
next
  case (Some dn)
  obtain d n where dn: "dn = (d, n)" by (cases dn)
  obtain f tree where f: "f \<in> set files" "loaded_tree f = Some tree" "n \<in> set (at_tree_nodes tree)" "tn_claimant n = k"
    "d = tree_address env (ag_program_id args) (ag_mint args) tree"
    using load_fold [OF start_server_tree [OF assms(1)], of k] Some dn by auto
  obtain rows version where rows: "airdrop_new (hashv env) rows version = Inr tree" using assms(2) f(1,2) by blast
  from airdrop_new_built(1) [OF rows] f(3) obtain pf where
    n: "tn_proof n = Some pf" "unat (tn_amount n) = amount_of k rows" "unat (node_locked_amount n) = locked_of k rows"
      "verify (hashv env) pf (at_merkle_root tree) (hashv env [LEAF_PREFIX, be_bytes (node_hash (hashv env) n)])"
    using f(4) by (auto simp: built_from_def)
  have "get_user_info parse show_key st user = Inr \<lparr>up_merkle_tree = show_key d, up_amount = tn_amount n,
      up_locked_amount = node_locked_amount n, up_proof = pf\<rparr>"
    using assms(3) Some dn n(1) by (simp add: get_user_info_def get_user_proof_def node_unlocked_amount_def)
  with f rows n show ?thesis by (auto simp: claim_leaf_slices node_hash_slices)
qed

theorem served_proof_is_accepted_witness:
  "\<exists>tree st. start_server demo_env (\<lambda>_. Some (Pubkey 50)) demo_show_key (replicate 8 7)
       \<lparr>ag_bind_addr = [], ag_merkle_tree_path = [], ag_rpc_url = [], ag_ws_url = [], ag_mint = Pubkey 5, ag_program_id = Pubkey 1, ag_unvested_accounts_path = None, ag_unvested_accounts_decimals = None,
        ag_basic_auth_user = None, ag_basic_auth_password = None, ag_default_start_ts = None, ag_default_end_ts = None,
        ag_default_mint = None, ag_start_amount_pct = ''50''\<rparr>
       (Some [\<lparr>de_is_dir = False, de_extension = Some ''json'', de_tree = Some tree\<rparr>]) (\<lambda>_. None) = Some st
     \<and> (case get_user_info (\<lambda>_. Some (Pubkey 50)) demo_show_key st ''me'' of
          Inl e \<Rightarrow> False
        | Inr p \<Rightarrow> verify (hashv demo_env) (up_proof p) (at_merkle_root tree)
            (claim_leaf demo_env (Pubkey 50) (up_amount p) (up_locked_amount p)))"
proof -
  obtain tree n where tree: "airdrop_new (hashv demo_env) [demo_tree_row] 0 = Inr tree" "at_tree_nodes tree = [n]" "tn_claimant n = Pubkey 50"
    using demo_tree by metis
  let ?parse = "\<lambda>_. Some (Pubkey 50)"
  let ?f = "\<lparr>de_is_dir = False, de_extension = Some ''json'', de_tree = Some tree\<rparr>"
  let ?args = "\<lparr>ag_bind_addr = [], ag_merkle_tree_path = [], ag_rpc_url = [], ag_ws_url = [], ag_mint = Pubkey 5, ag_program_id = Pubkey 1, ag_unvested_accounts_path = None, ag_unvested_accounts_decimals = None,
        ag_basic_auth_user = None, ag_basic_auth_password = None, ag_default_start_ts = None, ag_default_end_ts = None,
        ag_default_mint = None, ag_start_amount_pct = ''50''\<rparr>"
  have loaded: "loaded_tree ?f = Some tree" by (simp add: loaded_tree_def)
  have pct: "parse_u128 ''50'' = Some 50" by (simp add: parse_u128_def)
  obtain st where st: "start_server demo_env ?parse demo_show_key (replicate 8 7) ?args (Some [?f]) (\<lambda>_. None) = Some st"
    using loaded pct
    by (simp add: start_server_def load_trees_def load_tree_loaded vested_users_def subscribe_def get_distributor_keys_def cache_new_def)
  have "\<exists>rows version. airdrop_new (hashv demo_env) rows version = Inr tree" using tree(1) by blast
  then have "\<forall>f \<in> set [?f]. \<forall>t. loaded_tree f = Some t \<longrightarrow> (\<exists>rows version. airdrop_new (hashv demo_env) rows version = Inr t)"
    using loaded by simp
  from served_proof_is_accepted [where user = "''me''" and k = "Pubkey 50", OF st this] loaded tree st show ?thesis
    by (intro exI [of _ tree] exI [of _ st]) (auto split: sum.splits)
qed

end
