(* ===== verification/Kv_Check.thy ===== *)
theory Kv_Check
  imports Cli_Lists Api_Router
begin

text \<open>
  \<^verbatim>\<open>cli/src/bin/instructions/verify_kv_proof.rs\<close>: the comparison of two sources of proofs, the files of
  \<^verbatim>\<open>process_generate_kv_proof\<close> behind a key-value store and the server of \<open>Api_Router\<close>, on randomly drawn addresses of a CSV.

  A source answers with a proof or with something that is none, on which the tool panics; the numbers drawn are a
  parameter.
\<close>

text \<open>An entry of a file, read as the \<^verbatim>\<open>UserProof\<close> the tool expects: its locked amount cannot be missing there.\<close>

definition kv_user_proof :: "kv_proof \<Rightarrow> user_proof option" where
  "kv_user_proof e =
     map_option (\<lambda>locked. \<lparr>up_merkle_tree = kv_merkle_tree e, up_amount = kv_amount e, up_locked_amount = locked, up_proof = kv_proof e\<rparr>)
       (kv_locked_amount e)"

definition same_proof :: "user_proof \<Rightarrow> user_proof \<Rightarrow> bool" where
  "same_proof kv local_proof \<longleftrightarrow>
     up_amount kv = up_amount local_proof \<and> up_merkle_tree kv = up_merkle_tree local_proof
     \<and> up_proof kv = up_proof local_proof"

text \<open>\<open>False\<close> is a panic. Drawing from an empty list is one.\<close>

definition verify_kv_proof ::
  "(string \<Rightarrow> user_proof option) \<Rightarrow> (string \<Rightarrow> user_proof option) \<Rightarrow> csv_entry list \<Rightarrow> nat list \<Rightarrow> bool" where
  "verify_kv_proof kv_api local_api csv_entries draws \<longleftrightarrow>
     list_all (\<lambda>index. index < length csv_entries \<and>
       (case (kv_api (ce_pubkey (csv_entries ! index)), local_api (ce_pubkey (csv_entries ! index))) of
          (Some kv, Some local_proof) \<Rightarrow> same_proof kv local_proof
        | _ \<Rightarrow> False)) draws"

text \<open>For one node the file and the server say the same, and the check passes exactly when the node has a locked amount.\<close>

lemma kv_check_node:
  assumes "kv_of show_key d n (key, e)" "parse key = Some k" "tree k = Some (d, n)" "csv_entries ! i = entry" "i < length csv_entries"
    and "ce_pubkey entry = key" "kv_api key = kv_user_proof e"
    and "local_api key = (case get_user_proof parse show_key tree key of Inr p \<Rightarrow> Some p | Inl _ \<Rightarrow> None)"
  shows "verify_kv_proof kv_api local_api csv_entries [i] \<longleftrightarrow> tn_locked_amount n \<noteq> None"
  using assms
  by (auto simp: verify_kv_proof_def kv_of_def kv_user_proof_def get_user_proof_def same_proof_def node_unlocked_amount_def
      split: option.splits)

end
