(* ===== verification/Cli_Files.thy ===== *)
theory Cli_Files
  imports Cli_Admin Cli_Lists Kv_Check
begin

text \<open>
  The files the tools of \<^verbatim>\<open>cli\<close> read and write: \<^verbatim>\<open>CsvEntry::new_from_file\<close>, \<^verbatim>\<open>AirdropMerkleTree::new_from_file\<close>,
  \<^verbatim>\<open>write_to_file\<close>, the lists of \<^verbatim>\<open>process_filter_and_merge.rs\<close> and \<^verbatim>\<open>process_send.rs\<close>, and the directory
  listings every tool over trees starts with.

  A disk maps paths to contents. A content is what the file holds once it is read as the format it was written in: the
  text of a CSV is its records, the text of a JSON file the value. Reading a file as another format fails. Paths are
  given without a trailing slash; the empty path is the working directory.
\<close>

section \<open>Paths\<close>

abbreviation slash :: char where "slash \<equiv> CHR ''/''"

abbreviation dot :: char where "dot \<equiv> CHR ''.''"

definition parent_of :: "string \<Rightarrow> string" where
  "parent_of p = (if slash \<in> set p then rev (tl (dropWhile (\<lambda>x. x \<noteq> slash) (rev p))) else [])"

definition file_name :: "string \<Rightarrow> string" where
  "file_name p = rev (takeWhile (\<lambda>x. x \<noteq> slash) (rev p))"

text \<open>\<^verbatim>\<open>Path::extension\<close>: what follows the last dot of the name, unless that dot is its first character.\<close>

definition extension_of :: "string \<Rightarrow> string option" where
  "extension_of p =
     (let name = file_name p; ext = rev (takeWhile (\<lambda>x. x \<noteq> dot) (rev name)) in
      if dot \<in> set name \<and> length ext + 1 < length name then Some ext else None)"

lemma parent_of_join [simp]: "slash \<notin> set name \<Longrightarrow> parent_of (join_path dir name) = dir"
proof -
  assume "slash \<notin> set name"
  then have "dropWhile (\<lambda>x. x \<noteq> slash) (rev name) = []" by (auto simp: dropWhile_eq_Nil_conv)
  then show ?thesis by (simp add: parent_of_def join_path_def dropWhile_append)
qed

lemma file_name_join [simp]: "slash \<notin> set name \<Longrightarrow> file_name (join_path dir name) = name"
  by (simp add: file_name_def join_path_def takeWhile_append takeWhile_eq_all_conv)

lemma parent_of_shorter: "p \<noteq> [] \<Longrightarrow> length (parent_of p) < length p"
proof -
  assume "p \<noteq> []"
  then have pos: "0 < length p" by simp
  have "length (dropWhile (\<lambda>x. x \<noteq> slash) (rev p)) \<le> length (rev p)" by (rule length_dropWhile_le)
  then have "length (tl (dropWhile (\<lambda>x. x \<noteq> slash) (rev p))) < length p"
    using pos unfolding length_tl length_rev by linarith
  with pos show ?thesis by (simp add: parent_of_def)
qed

section \<open>Contents\<close>

text \<open>The configuration of the deployment scripts: the two keys of \<open>if_config\<close> and the ones the scripts read. Numbers are
  JSON numbers; a missing key is \<open>None\<close>, and so is \<^verbatim>\<open>null\<close>.\<close>

record deploy_config = if_config +
  dc_rpc_url :: "string option"
  dc_program_id :: "string option"
  dc_keypair_path :: "string option"
  dc_priority :: "int option"
  dc_start_vesting_ts :: "int option"
  dc_clawback_start_ts :: "int option"
  dc_enable_slot :: "int option"
  dc_max_nodes_per_tree :: "int option"
  dc_closable :: bool
  dc_start_airdrop_version :: "int option"
  dc_trees_dir :: "string option"
  dc_mint :: "string option"
  dc_symbol :: "string option"
  dc_csv_path :: "string option"

datatype content =
    Directory
  | Csv_file "string list list"
  | Tree_file airdrop_merkle_tree
  | Kv_file kv_file
  | Sent_file sent_map
  | Config_file deploy_config

type_synonym disk = "(string \<times> content) list"

fun is_directory :: "content \<Rightarrow> bool" where
  "is_directory Directory = True"
| "is_directory _ = False"

fun as_tree :: "content \<Rightarrow> airdrop_merkle_tree option" where
  "as_tree (Tree_file t) = Some t"
| "as_tree _ = None"

fun as_records :: "content \<Rightarrow> string list list option" where
  "as_records (Csv_file rows) = Some rows"
| "as_records _ = None"

fun as_sent :: "content \<Rightarrow> sent_map option" where
  "as_sent (Sent_file m) = Some m"
| "as_sent _ = None"

fun as_config :: "content \<Rightarrow> deploy_config option" where
  "as_config (Config_file cfg) = Some cfg"
| "as_config _ = None"

section \<open>Reading and writing\<close>

definition is_dir :: "disk \<Rightarrow> string \<Rightarrow> bool" where
  "is_dir d p \<longleftrightarrow> p = [] \<or> (case map_of d p of Some x \<Rightarrow> is_directory x | None \<Rightarrow> False)"

definition write_path :: "string \<Rightarrow> content \<Rightarrow> disk \<Rightarrow> disk option" where
  "write_path p x d = (if is_dir d (parent_of p) \<and> \<not> is_dir d p then Some (AList.update p x d) else None)"

text \<open>The files in the order given, up to the first that cannot be written.\<close>

fun write_files :: "(string \<times> content) list \<Rightarrow> disk \<Rightarrow> disk \<times> bool" where
  "write_files [] d = (d, True)"
| "write_files ((p, x) # files) d =
     (case write_path p x d of None \<Rightarrow> (d, False) | Some d' \<Rightarrow> write_files files d')"

definition tree_file_of :: "string \<times> content \<Rightarrow> tree_file" where
  "tree_file_of f =
     \<lparr>tf_path = fst f, tf_is_dir = is_directory (snd f), tf_extension = extension_of (fst f), tf_tree = as_tree (snd f)\<rparr>"

text \<open>\<^verbatim>\<open>fs::read_dir\<close>; the order is of no account, as every tool sorts the paths.\<close>

definition read_dir :: "string \<Rightarrow> disk \<Rightarrow> tree_file list option" where
  "read_dir p d = (if is_dir d p then Some (map tree_file_of (filter (\<lambda>(q, x). q \<noteq> [] \<and> parent_of q = p) d)) else None)"

function create_dir_all :: "string \<Rightarrow> disk \<Rightarrow> disk option" where
  "create_dir_all p d =
     (if p = [] then Some d
      else case map_of d p of
        Some x \<Rightarrow> if is_directory x then Some d else None
      | None \<Rightarrow> map_option (AList.update p Directory) (create_dir_all (parent_of p) d))"
  by pat_completeness auto
termination by (relation "measure (\<lambda>(p, d). length p)") (auto intro: parent_of_shorter)

declare create_dir_all.simps [simp del]

definition new_from_file :: "string \<Rightarrow> disk \<Rightarrow> airdrop_merkle_tree tree_result" where
  "new_from_file p d =
     (case map_of d p of
        None \<Rightarrow> Inl (Err IoError)
      | Some x \<Rightarrow> ok_or (as_tree x) (Err SerdeError))"

definition write_to_file :: "airdrop_merkle_tree \<Rightarrow> string \<Rightarrow> disk \<Rightarrow> disk option" where
  "write_to_file t p d = write_path p (Tree_file t) d"

text \<open>The records of a CSV, turned into entries by the deserializer, which is a parameter; a record it refuses is a panic.\<close>

definition csv_new_from_file ::
  "(string list list \<Rightarrow> csv_entry list option) \<Rightarrow> string \<Rightarrow> disk \<Rightarrow> csv_entry list tree_result" where
  "csv_new_from_file read_csv p d =
     (case map_of d p of
        None \<Rightarrow> Inl (Err IoError)
      | Some x \<Rightarrow> or_panic (Option.bind (as_records x) read_csv))"

definition new_from_csv ::
  "hash_fn \<Rightarrow> (string \<Rightarrow> pubkey option) \<Rightarrow> (string list list \<Rightarrow> csv_entry list option) \<Rightarrow> string \<Rightarrow> u64 \<Rightarrow> u32 \<Rightarrow> csv_amount_unit \<Rightarrow> disk
   \<Rightarrow> airdrop_merkle_tree tree_result" where
  "new_from_csv h parse read_csv path version mint_decimals unit d =
     and_then (csv_new_from_file read_csv path d) (\<lambda>csv_entries.
     new_from_entries h parse csv_entries version mint_decimals unit)"

text \<open>A record read as one string is one with a single field; the first record is the header.\<close>

definition parse_new_record :: "string \<Rightarrow> disk \<Rightarrow> string list option" where
  "parse_new_record p d =
     Option.bind (Option.bind (map_of d p) as_records) (\<lambda>rows.
     if list_all (\<lambda>row. length row = 1) (tl rows) then Some (map hd (tl rows)) else None)"

definition parse_send_addresse :: "string \<Rightarrow> disk \<Rightarrow> sent_map option" where
  "parse_send_addresse p d = Option.bind (map_of d p) as_sent"

section \<open>What was written is read\<close>

lemma map_of_write: "write_path p x d = Some d' \<Longrightarrow> map_of d' = (map_of d)(p \<mapsto> x)"
  by (auto simp: write_path_def update_conv' split: if_splits)

lemma write_path_distinct: "write_path p x d = Some d' \<Longrightarrow> distinct (map fst d) \<Longrightarrow> distinct (map fst d')"
  by (auto simp: write_path_def distinct_update split: if_splits)

lemma new_from_written_file: "write_to_file t p d = Some d' \<Longrightarrow> new_from_file p d' = Inr t"
  by (simp add: write_to_file_def new_from_file_def map_of_write)

lemma write_files_ok:
  "write_files files d = (d', True) \<Longrightarrow> distinct (map fst files) \<Longrightarrow> map_of d' = map_of d ++ map_of files"
proof (induction files d rule: write_files.induct)
  case (2 p x files d)
  then obtain d1 where d1: "write_path p x d = Some d1" "write_files files d1 = (d', True)" by (auto split: option.splits)
  have "map_of files p = None" using 2(3) by (simp add: map_of_eq_None_iff)
  then have "(map_of d)(p \<mapsto> x) ++ map_of files = map_of d ++ (map_of files)(p \<mapsto> x)"
    by (auto simp: map_add_def fun_eq_iff split: option.splits)
  moreover have "map_of d' = map_of d1 ++ map_of files" using 2(1) [OF d1] 2(3) by simp
  ultimately show ?case by (simp only: map_of_write [OF d1(1)] map_of.simps fst_conv snd_conv)
qed simp

lemma write_files_distinct: "write_files files d = (d', ok) \<Longrightarrow> distinct (map fst d) \<Longrightarrow> distinct (map fst d')"
  by (induction files d rule: write_files.induct) (auto dest: write_path_distinct split: option.splits)

lemma read_dir_iff:
  assumes "read_dir p d = Some files" "distinct (map fst d)"
  shows "f \<in> set files \<longleftrightarrow> (\<exists>q x. map_of d q = Some x \<and> q \<noteq> [] \<and> parent_of q = p \<and> f = tree_file_of (q, x))"
  using assms by (fastforce simp: read_dir_def split: if_splits)

end
