(* ===== verification/Cli_Main.thy ===== *)
theory Cli_Main
  imports Cli_Files
begin

text \<open>
  The command line of \<^verbatim>\<open>cli/src/bin/cli.rs\<close>: the arguments, the commands and the dispatch of \<^verbatim>\<open>main\<close> to the tools, each
  with the files it reads and writes.

  A command runs in a world of a chain, a disk and the reports printed so far; it leaves a world behind and says whether it came to its end or
  panicked. \<open>None\<close> is a command that never ends. What the process finds around it that is neither (key files, the answers
  of the cluster and of the two proof services, random draws, the notation of keys and the reading of CSV records) is the
  record \<open>services\<close>. The arguments are those after parsing. The options \<^verbatim>\<open>--rpc-url\<close>, \<^verbatim>\<open>--priority\<close> and
  \<^verbatim>\<open>--program-id\<close> are left out: the cluster is the one of the world, fees have no effect on it, and the program is the
  one deployed there.
\<close>

section \<open>Arguments and commands\<close>

record args =
  ar_mint :: pubkey
  ar_keypair_path :: "string option"

record extend_list_args =
  el_csv_path :: string
  el_num_records :: u64
  el_amount :: u64
  el_destination_path :: string

record create_dummy_csv_args =
  dm_csv_path :: string
  dm_num_records :: u64
  dm_amount :: u64

record filter_list_args =
  fl_csv_path :: string
  fl_amount :: u64
  fl_destination_path :: string

record filter_and_merge_list_args =
  fm_csv_path :: string
  fm_sub_path :: string
  fm_amount :: u64
  fm_destination_path :: string

record generate_kv_proof_args =
  gk_merkle_tree_path :: string
  gk_kv_path :: string
  gk_max_entries_per_file :: u64

record mass_send_args =
  ms_csv_path :: string
  ms_des_path :: string
  ms_max_address_per_tx :: u64
  ms_amount :: u64

record resend_send_args =
  rs_des_path :: string
  rs_max_address_per_tx :: u64
  rs_amount :: u64

record verify_kv_proof_args =
  vk_csv_path :: string
  vk_kv_api :: string
  vk_local_api :: string
  vk_num_verify :: u64

record set_admin_args =
  sad_new_admin :: pubkey
  sad_merkle_tree_path :: string

record set_enable_slot_args =
  ss_merkle_tree_path :: string
  ss_airdrop_version :: "u64 option"
  ss_slot :: u64

record set_enable_slot_by_time_args =
  st_merkle_tree_path :: string
  st_timestamp :: u64
  st_airdrop_version :: "u64 option"

record close_distributor_args =
  xd_merkle_tree_path :: string
  xd_airdrop_version :: "u64 option"

record clawback_receiver_args =
  cr_merkle_tree_path :: string
  cr_receiver :: pubkey

text \<open>Commands with a single argument have it in place of a record.\<close>

datatype commands =
    ClaimCmd string
  | NewDistributorCmd new_distributor_cmd
  | CloseDistributorCmd close_distributor_args
  | CloseClaimStatusCmd
  | ClawbackCmd string
  | CreateMerkleTree create_args
  | SetAdminCmd set_admin_args
  | SetEnableSlotCmd set_enable_slot_args
  | SetEnableSlotByTime set_enable_slot_by_time_args
  | CreateTestList create_test_list_args
  | CreateDummyCsv create_dummy_csv_args
  | ExtendList extend_list_args
  | FundAll string
  | Verify verify_args
  | FilterList filter_list_args
  | FilterAndMergeList filter_and_merge_list_args
  | SlotByTime u64
  | GenerateKvProof generate_kv_proof_args
  | MassSend mass_send_args
  | Resend resend_send_args
  | ViewClaimStatus
  | VerifyKvProof verify_kv_proof_args
  | TotalClaim u64
  | SetClawbackReceiverCmd clawback_receiver_args
  | FindAirdropVersion "u64 option"
  | AggregateIfCsvs aggregate_args

section \<open>The world of a command\<close>

datatype report = Slot u64 | Totals "u64 \<times> u64 \<times> u64" | NumAccounts nat | NextVersion u64

record world =
  wd_chain :: chain
  wd_disk :: disk
  wd_reports :: "report list"

type_synonym result = "world \<times> bool"

record services =
  sv_env :: env
  sv_keypair :: "string \<Rightarrow> pubkey option"
  sv_create_ata :: "pubkey \<Rightarrow> pubkey \<Rightarrow> ledger \<Rightarrow> string + ledger"
  sv_parse :: "string \<Rightarrow> pubkey option"
  sv_show_key :: "pubkey \<Rightarrow> string"
  sv_read_csv :: "string list list \<Rightarrow> csv_entry list option"
  sv_new_unique :: "nat \<Rightarrow> pubkey"
  sv_rpc_fails :: "pubkey \<Rightarrow> bool"
  sv_ctx :: ctx
  sv_net :: "nat \<Rightarrow> attempt"
  sv_samples :: "perf_sample list option"
  sv_clock :: "clock option"
  sv_closable_records :: "chain \<Rightarrow> (pubkey \<times> claim_status) list option"
  sv_sends :: "nat \<Rightarrow> string option"
  sv_status :: "string \<Rightarrow> signature_status"
  sv_entries :: "sent_map \<Rightarrow> (string \<times> string) list"
  sv_order :: "(string \<times> string list) list \<Rightarrow> (string \<times> string list) list"
  sv_http :: "string \<Rightarrow> user_proof option"
  sv_draw :: "nat \<Rightarrow> nat \<Rightarrow> nat"

definition on_chain :: "world \<Rightarrow> outcome \<Rightarrow> result" where
  "on_chain w r = (w\<lparr>wd_chain := fst r\<rparr>, snd r)"

definition on_disk :: "world \<Rightarrow> disk \<times> bool \<Rightarrow> result" where
  "on_disk w r = (w\<lparr>wd_disk := fst r\<rparr>, snd r)"

text \<open>\<^verbatim>\<open>.unwrap()\<close> and \<^verbatim>\<open>.expect(..)\<close> on something the command needs before it changed anything.\<close>

definition unwrap :: "world \<Rightarrow> 'a option \<Rightarrow> ('a \<Rightarrow> result) \<Rightarrow> result" where
  "unwrap w r f = (case r of None \<Rightarrow> (w, False) | Some x \<Rightarrow> f x)"

definition unwrap_opt :: "world \<Rightarrow> 'a option \<Rightarrow> ('a \<Rightarrow> result option) \<Rightarrow> result option" where
  "unwrap_opt w r f = (case r of None \<Rightarrow> Some (w, False) | Some x \<Rightarrow> f x)"

definition ok_value :: "'e + 'a \<Rightarrow> 'a option" where
  "ok_value r = (case r of Inl _ \<Rightarrow> None | Inr x \<Rightarrow> Some x)"

definition say :: "world \<Rightarrow> report \<Rightarrow> world" where
  "say w r = w\<lparr>wd_reports := wd_reports w @ [r]\<rparr>"

definition write_out :: "world \<Rightarrow> string \<Rightarrow> content \<Rightarrow> result" where
  "write_out w p x = on_disk w (write_files [(p, x)] (wd_disk w))"

text \<open>The client for a payer; the tools that only derive addresses make no use of the payer.\<close>

definition client_of :: "services \<Rightarrow> args \<Rightarrow> pubkey \<Rightarrow> client" where
  "client_of s a payer = \<lparr>ki_env = sv_env s, ki_payer = payer, ki_mint = ar_mint a, ki_create_ata = sv_create_ata s\<rparr>"

text \<open>The public key of \<^verbatim>\<open>read_keypair_file(args.keypair_path.unwrap())\<close>.\<close>

definition payer_key :: "services \<Rightarrow> args \<Rightarrow> pubkey option" where
  "payer_key s a = Option.bind (ar_keypair_path a) (sv_keypair s)"

definition get_program_client :: "services \<Rightarrow> args \<Rightarrow> client option" where
  "get_program_client s a = map_option (client_of s a) (payer_key s a)"

definition rpc_account :: "services \<Rightarrow> args \<Rightarrow> chain \<Rightarrow> u64 \<Rightarrow> rpc_answer" where
  "rpc_account s a c version =
     (let d = distributor_address (client_of s a (Pubkey 0)) version in
      if sv_rpc_fails s d then RpcFailure else if account_at c d = None then AccountNotFound else Found)"

section \<open>The commands on files\<close>

definition tree_path :: "string \<Rightarrow> u64 \<Rightarrow> string" where
  "tree_path base_path version = join_path base_path (''tree_'' @ show_u64 version @ ''.json'')"

definition write_trees :: "world \<Rightarrow> string \<Rightarrow> written \<Rightarrow> result" where
  "write_trees w base_path r =
     (case write_files (map (\<lambda>(v, t). (tree_path base_path v, Tree_file t)) (fst r)) (wd_disk w) of
        (d, all_written) \<Rightarrow> (w\<lparr>wd_disk := d\<rparr>, all_written \<and> snd r \<noteq> None))"

definition run_create_merkle_tree :: "services \<Rightarrow> args \<Rightarrow> create_args \<Rightarrow> world \<Rightarrow> result" where
  "run_create_merkle_tree s a cargs w =
     (if ar_mint a \<noteq> Pubkey 0 \<and> ca_start_airdrop_version cargs = None \<and> get_program_client s a = None then (w, False)
      else
        unwrap w (ok_value (csv_new_from_file (sv_read_csv s) (ca_csv_path cargs) (wd_disk w))) (\<lambda>csv_entries.
        write_trees w (ca_merkle_tree_path cargs)
          (process_create_merkle_tree (hashv (sv_env s)) (sv_parse s) (rpc_account s a (wd_chain w)) (ar_mint a) cargs csv_entries)))"

definition run_create_test_list :: "services \<Rightarrow> args \<Rightarrow> create_test_list_args \<Rightarrow> world \<Rightarrow> result" where
  "run_create_test_list s a targs w =
     (case write_out w (tl_csv_path targs) (Csv_file (test_list_rows targs)) of
        (w', written_ok) \<Rightarrow>
          if \<not> written_ok \<or> (ar_mint a \<noteq> Pubkey 0 \<and> get_program_client s a = None) then (w', False)
          else
            write_trees w' (tl_merkle_tree_path targs)
              (process_create_test_list (hashv (sv_env s)) (sv_parse s) (rpc_account s a (wd_chain w)) (sv_read_csv s) (ar_mint a) targs))"

definition run_filter_list :: "services \<Rightarrow> filter_list_args \<Rightarrow> world \<Rightarrow> result" where
  "run_filter_list s fargs w =
     unwrap w (ok_value (csv_new_from_file (sv_read_csv s) (fl_csv_path fargs) (wd_disk w))) (\<lambda>community_list.
     write_out w (fl_destination_path fargs)
       (Csv_file (process_filter_list (sv_parse s) (sv_show_key s) (fl_amount fargs) community_list)))"

definition run_filter_and_merge :: "services \<Rightarrow> filter_and_merge_list_args \<Rightarrow> world \<Rightarrow> result" where
  "run_filter_and_merge s fargs w =
     unwrap w (ok_value (csv_new_from_file (sv_read_csv s) (fm_csv_path fargs) (wd_disk w))) (\<lambda>community_list.
     unwrap w (parse_new_record (fm_sub_path fargs) (wd_disk w)) (\<lambda>new_records.
     write_out w (fm_destination_path fargs)
       (Csv_file (process_filter_and_merge (sv_parse s) (sv_show_key s) (fm_amount fargs) community_list new_records))))"

definition run_extend_list :: "services \<Rightarrow> extend_list_args \<Rightarrow> world \<Rightarrow> result" where
  "run_extend_list s eargs w =
     unwrap w (ok_value (csv_new_from_file (sv_read_csv s) (el_csv_path eargs) (wd_disk w))) (\<lambda>community_list.
     unwrap w (process_extend_list (sv_new_unique s) (sv_parse s) (sv_show_key s) (el_num_records eargs) (el_amount eargs) community_list)
       (\<lambda>rows. write_out w (el_destination_path eargs) (Csv_file rows)))"

text \<open>The file is created and its header written before the list is computed: a panic leaves the header behind.\<close>

definition run_create_dummy_csv :: "services \<Rightarrow> create_dummy_csv_args \<Rightarrow> world \<Rightarrow> result" where
  "run_create_dummy_csv s dargs w =
     (case process_create_dummy_csv (sv_new_unique s) (sv_show_key s) (dm_num_records dargs) (dm_amount dargs) of
        Some rows \<Rightarrow> write_out w (dm_csv_path dargs) (Csv_file rows)
      | None \<Rightarrow> (fst (write_out w (dm_csv_path dargs) (Csv_file [[''pubkey'', ''amount'']])), False))"

definition run_generate_kv_proof :: "services \<Rightarrow> args \<Rightarrow> generate_kv_proof_args \<Rightarrow> world \<Rightarrow> result" where
  "run_generate_kv_proof s a gargs w =
     unwrap w (read_dir (gk_merkle_tree_path gargs) (wd_disk w)) (\<lambda>files.
     case process_generate_kv_proof (client_of s a (Pubkey 0)) (sv_show_key s) (gk_max_entries_per_file gargs) files of
       (kv_written, ended) \<Rightarrow>
         (case write_files (map (\<lambda>(i, f). (join_path (gk_kv_path gargs) (show_nat i @ ''.json''), Kv_file f))
                 (List.enumerate 0 kv_written)) (wd_disk w) of
            (d, all_written) \<Rightarrow> (w\<lparr>wd_disk := d\<rparr>, all_written \<and> ended)))"

text \<open>The configuration written keeps every other key.\<close>

definition merged_config :: "deploy_config \<Rightarrow> aggregate_output \<Rightarrow> deploy_config" where
  "merged_config cfg out =
     cfg\<lparr>ic_markets := map (\<lambda>m. \<lparr>im_index = mm_index m, im_symbol = mm_symbol m, im_mint = mm_mint m\<rparr>) (ao_markets out),
         ic_csv_dir := Some (ao_csv_dir out)\<rparr>"

definition run_aggregate_if_csvs :: "services \<Rightarrow> aggregate_args \<Rightarrow> world \<Rightarrow> result" where
  "run_aggregate_if_csvs s gargs w =
     unwrap w (Option.bind (map_of (wd_disk w) (ag_config gargs)) as_config) (\<lambda>cfg.
     unwrap w (ok_value (process_aggregate_if_csvs (sv_parse s) (\<lambda>p. ok_value (csv_new_from_file (sv_read_csv s) p (wd_disk w)))
         (if_config.truncate cfg) gargs)) (\<lambda>out.
     unwrap w (create_dir_all (ag_out_csv_dir gargs) (wd_disk w)) (\<lambda>d.
     on_disk w (write_files
       (map (\<lambda>(p, rows). (p, Csv_file rows)) (ao_files out) @ [(ag_out_config gargs, Config_file (merged_config cfg out))]) d))))"

section \<open>The commands on the chain\<close>

definition run_new_distributor :: "services \<Rightarrow> args \<Rightarrow> new_distributor_cmd \<Rightarrow> world \<Rightarrow> result" where
  "run_new_distributor s a nargs w =
     unwrap w (get_program_client s a) (\<lambda>k.
     unwrap w (read_dir (nx_merkle_tree_path nargs) (wd_disk w)) (\<lambda>files.
     on_chain w (process_new_distributor k (sv_ctx s) nargs files (wd_chain w))))"

definition run_fund_all :: "services \<Rightarrow> args \<Rightarrow> string \<Rightarrow> world \<Rightarrow> result" where
  "run_fund_all s a merkle_tree_path w =
     unwrap w (get_program_client s a) (\<lambda>k.
     unwrap w (read_dir merkle_tree_path (wd_disk w)) (\<lambda>files. on_chain w (process_fund_all k files (wd_chain w))))"

definition run_verify :: "services \<Rightarrow> args \<Rightarrow> verify_args \<Rightarrow> world \<Rightarrow> result" where
  "run_verify s a vargs w =
     unwrap w (read_dir (va_merkle_tree_path vargs) (wd_disk w)) (\<lambda>files.
     unwrap w (get_program_client s a) (\<lambda>k. (w, process_verify k vargs files (wd_chain w))))"

definition run_claim :: "services \<Rightarrow> args \<Rightarrow> string \<Rightarrow> world \<Rightarrow> result" where
  "run_claim s a merkle_tree_path w =
     unwrap w (get_program_client s a) (\<lambda>k.
     unwrap w (ok_value (new_from_file merkle_tree_path (wd_disk w))) (\<lambda>merkle_tree.
     on_chain w (process_claim k (sv_ctx s) merkle_tree (wd_chain w))))"

text \<open>The key is read when the first tree of the version asked for is found.\<close>

definition run_close_distributor :: "services \<Rightarrow> args \<Rightarrow> close_distributor_args \<Rightarrow> world \<Rightarrow> result" where
  "run_close_distributor s a xargs w =
     unwrap w (read_dir (xd_merkle_tree_path xargs) (wd_disk w)) (\<lambda>files.
     case get_program_client s a of
       Some k \<Rightarrow> on_chain w (process_close_distributor k (sv_ctx s) (xd_airdrop_version xargs) files (wd_chain w))
     | None \<Rightarrow> (w, list_all (\<lambda>f. case tf_tree f of None \<Rightarrow> False
         | Some t \<Rightarrow> xd_airdrop_version xargs \<noteq> None \<and> xd_airdrop_version xargs \<noteq> Some (at_airdrop_version t)) files))"

definition run_close_claim_status :: "services \<Rightarrow> args \<Rightarrow> world \<Rightarrow> result" where
  "run_close_claim_status s a w =
     unwrap w (get_program_client s a) (\<lambda>k.
     unwrap w (sv_closable_records s (wd_chain w)) (\<lambda>accounts.
     on_chain w (finished (process_close_claim_status k (sv_ctx s) accounts (wd_chain w)))))"

definition run_set_enable_slot_by_time :: "services \<Rightarrow> args \<Rightarrow> set_enable_slot_by_time_args \<Rightarrow> world \<Rightarrow> result" where
  "run_set_enable_slot_by_time s a targs w =
     unwrap w (get_program_client s a) (\<lambda>k.
     unwrap w (read_dir (st_merkle_tree_path targs) (wd_disk w)) (\<lambda>files.
     unwrap w (sv_clock s) (\<lambda>clock.
     on_chain w (process_set_enable_slot_by_time k (sv_ctx s) (sv_samples s) clock (st_airdrop_version targs) (st_timestamp targs)
       files (wd_chain w)))))"

text \<open>The ones that try again until they succeed.\<close>

definition run_with_files :: "services \<Rightarrow> args \<Rightarrow> string \<Rightarrow> (client \<Rightarrow> tree_file list \<Rightarrow> chain \<Rightarrow> outcome option) \<Rightarrow> world \<Rightarrow> result option" where
  "run_with_files s a merkle_tree_path tool w =
     unwrap_opt w (get_program_client s a) (\<lambda>k.
     unwrap_opt w (read_dir merkle_tree_path (wd_disk w)) (\<lambda>files. map_option (on_chain w) (tool k files (wd_chain w))))"

definition run_set_enable_slot :: "services \<Rightarrow> args \<Rightarrow> set_enable_slot_args \<Rightarrow> world \<Rightarrow> result option" where
  "run_set_enable_slot s a sargs w =
     (if ss_airdrop_version sargs \<noteq> None
      then unwrap_opt w (get_program_client s a) (\<lambda>k.
        map_option (on_chain w) (process_set_enable_slot k (ss_airdrop_version sargs) (ss_slot sargs) (sv_net s) [] (wd_chain w)))
      else run_with_files s a (ss_merkle_tree_path sargs) (\<lambda>k. process_set_enable_slot k None (ss_slot sargs) (sv_net s)) w)"

text \<open>Paying lists. The key is read with the first transaction that is to be sent.\<close>

definition run_mass_send :: "services \<Rightarrow> args \<Rightarrow> mass_send_args \<Rightarrow> world \<Rightarrow> result" where
  "run_mass_send s a margs w =
     unwrap w (parse_new_record (ms_csv_path margs) (wd_disk w)) (\<lambda>addresses.
     unwrap w (parse_send_addresse (ms_des_path margs) (wd_disk w)) (\<lambda>sent_addresses.
     case get_program_client s a of
       None \<Rightarrow> (w, wrap_batches (unat (ms_max_address_per_tx margs)) sent_addresses [] addresses = [])
     | Some k \<Rightarrow>
         (case process_mass_send k (sv_parse s) (sv_sends s) (ms_max_address_per_tx margs) (ms_amount margs) addresses
                 (sent_addresses, wd_chain w) of
            (sent, c) \<Rightarrow> write_out (w\<lparr>wd_chain := c\<rparr>) (ms_des_path margs) (Sent_file sent))))"

definition run_resend :: "services \<Rightarrow> args \<Rightarrow> resend_send_args \<Rightarrow> world \<Rightarrow> result" where
  "run_resend s a rargs w =
     unwrap w (parse_send_addresse (rs_des_path rargs) (wd_disk w)) (\<lambda>sent_addresses.
     case get_program_client s a of
       None \<Rightarrow> (w, list_all (\<lambda>(signature, _). sv_status s signature \<in> {Succeeded, NoAnswer})
                    (sv_order s (group_signatures (sv_entries s sent_addresses) [])))
     | Some k \<Rightarrow>
         (case process_resend k (sv_parse s) (sv_sends s) (rs_max_address_per_tx rargs) (rs_amount rargs) (sv_status s) (sv_order s)
                 (sv_entries s sent_addresses) (wd_chain w) of
            ((sent, c), ended) \<Rightarrow>
              (case write_out (w\<lparr>wd_chain := c\<rparr>) (rs_des_path rargs) (Sent_file sent) of (w', written_ok) \<Rightarrow> (w', written_ok \<and> ended))))"

text \<open>The ones that only report.\<close>

definition run_verify_kv_proof :: "services \<Rightarrow> verify_kv_proof_args \<Rightarrow> world \<Rightarrow> result" where
  "run_verify_kv_proof s vargs w =
     unwrap w (ok_value (csv_new_from_file (sv_read_csv s) (vk_csv_path vargs) (wd_disk w))) (\<lambda>csv_entries.
     (w, verify_kv_proof (\<lambda>key. sv_http s (vk_kv_api vargs @ ''/'' @ key)) (\<lambda>key. sv_http s (vk_local_api vargs @ ''/'' @ key))
           csv_entries (map (\<lambda>i. sv_draw s i (length csv_entries)) [0..<unat (vk_num_verify vargs)])))"

definition run_get_slot :: "services \<Rightarrow> u64 \<Rightarrow> world \<Rightarrow> result" where
  "run_get_slot s timestamp w =
     unwrap w (sv_clock s) (\<lambda>clock. unwrap w (process_get_slot (sv_samples s) clock timestamp) (\<lambda>slot. (say w (Slot slot), True)))"

definition run_total_claim :: "services \<Rightarrow> args \<Rightarrow> u64 \<Rightarrow> world \<Rightarrow> result" where
  "run_total_claim s a num_tree w =
     unwrap w (get_program_client s a) (\<lambda>k. unwrap w (get_total_claim k num_tree (wd_chain w)) (\<lambda>t. (say w (Totals t), True)))"

definition run_view_claim_status :: "services \<Rightarrow> args \<Rightarrow> world \<Rightarrow> result" where
  "run_view_claim_status s a w =
     unwrap w (get_program_client s a) (\<lambda>k.
     unwrap w (sv_closable_records s (wd_chain w)) (\<lambda>accounts. (say w (NumAccounts (length accounts)), True)))"

definition run_find_airdrop_version :: "services \<Rightarrow> args \<Rightarrow> u64 option \<Rightarrow> world \<Rightarrow> result" where
  "run_find_airdrop_version s a start w =
     unwrap w (get_program_client s a) (\<lambda>k.
     (case process_find_airdrop_version (rpc_account s a (wd_chain w)) start of
        Some version \<Rightarrow> say w (NextVersion version)
      | None \<Rightarrow> w, True))"

section \<open>The dispatch\<close>

fun cli_main :: "services \<Rightarrow> args \<Rightarrow> commands \<Rightarrow> world \<Rightarrow> result option" where
  "cli_main s a (NewDistributorCmd x) w = Some (run_new_distributor s a x w)"
| "cli_main s a (CloseDistributorCmd x) w = Some (run_close_distributor s a x w)"
| "cli_main s a (ClaimCmd x) w = Some (run_claim s a x w)"
| "cli_main s a (ClawbackCmd x) w = run_with_files s a x (\<lambda>k. process_clawback k (sv_net s)) w"
| "cli_main s a (CreateMerkleTree x) w = Some (run_create_merkle_tree s a x w)"
| "cli_main s a (SetAdminCmd x) w =
     run_with_files s a (sad_merkle_tree_path x) (\<lambda>k. process_set_admin k (sad_new_admin x) (sv_net s)) w"
| "cli_main s a (SetEnableSlotCmd x) w = run_set_enable_slot s a x w"
| "cli_main s a (SetEnableSlotByTime x) w = Some (run_set_enable_slot_by_time s a x w)"
| "cli_main s a (CreateDummyCsv x) w = Some (run_create_dummy_csv s x w)"
| "cli_main s a (CreateTestList x) w = Some (run_create_test_list s a x w)"
| "cli_main s a (FundAll x) w = Some (run_fund_all s a x w)"
| "cli_main s a (Verify x) w = Some (run_verify s a x w)"
| "cli_main s a (ExtendList x) w = Some (run_extend_list s x w)"
| "cli_main s a (FilterList x) w = Some (run_filter_list s x w)"
| "cli_main s a (SlotByTime x) w = Some (run_get_slot s x w)"
| "cli_main s a CloseClaimStatusCmd w = Some (run_close_claim_status s a w)"
| "cli_main s a (FilterAndMergeList x) w = Some (run_filter_and_merge s x w)"
| "cli_main s a (GenerateKvProof x) w = Some (run_generate_kv_proof s a x w)"
| "cli_main s a (MassSend x) w = Some (run_mass_send s a x w)"
| "cli_main s a (Resend x) w = Some (run_resend s a x w)"
| "cli_main s a ViewClaimStatus w = Some (run_view_claim_status s a w)"
| "cli_main s a (VerifyKvProof x) w = Some (run_verify_kv_proof s x w)"
| "cli_main s a (TotalClaim x) w = Some (run_total_claim s a x w)"
| "cli_main s a (SetClawbackReceiverCmd x) w =
     run_with_files s a (cr_merkle_tree_path x) (\<lambda>k. process_set_clawback_receiver k (cr_receiver x) (sv_net s)) w"
| "cli_main s a (FindAirdropVersion x) w = Some (run_find_airdrop_version s a x w)"
| "cli_main s a (AggregateIfCsvs x) w = Some (run_aggregate_if_csvs s x w)"

end
