(* ===== verification/Cli_Runs.thy ===== *)
theory Cli_Runs
  imports Cli_Main
begin

text \<open>
  The commands and the program together: whatever a command of the command line does to the chain is a run of the program in
  the sense of theory \<open>Distributor_Inv\<close>, in which every instruction is signed by the payer of the command alone and every
  other change of the ledger leaves the accounts of the distributors what they hold. Everything shown of all runs therefore
  holds across the use of the tools, panics included.

  One lemma per tool shows that the chain it leaves behind is reached that way (\<open>reaches\<close>).
\<close>

section \<open>What the tools rely on\<close>

text \<open>The token program moves tokens only with the signature of their owner; delegates are not used.\<close>

definition owner_signs :: "env \<Rightarrow> bool" where
  "owner_signs env \<longleftrightarrow>
     (\<forall>from to authority amount l l'. token_transfer env from to authority amount l = Inr l' \<longrightarrow>
        (\<exists>a. lg_accounts l from = Some a \<and> ta_owner a = authority))"

text \<open>Creating an associated account changes none that exists, and a key that signs is no derived address.\<close>

definition client_laws :: "client \<Rightarrow> bool" where
  "client_laws k \<longleftrightarrow>
     env_ok (ki_env k) \<and> owner_signs (ki_env k)
     \<and> (\<forall>user l l' x a. ki_create_ata k user (ki_mint k) l = Inr l' \<longrightarrow> lg_accounts l x = Some a \<longrightarrow> lg_accounts l' x = Some a)
     \<and> (\<forall>mint version. fst (find_program_address (ki_env k) (distributor_seeds mint version) (program_id (ki_env k))) \<noteq> ki_payer k)"

section \<open>Runs signed by one key\<close>

fun signed_by :: "pubkey set \<Rightarrow> label \<Rightarrow> bool" where
  "signed_by keys (Call cx i) \<longleftrightarrow> set (cx_signers cx) \<subseteq> keys"
| "signed_by keys Outside \<longleftrightarrow> True"

definition reaches :: "client \<Rightarrow> chain \<Rightarrow> chain \<Rightarrow> bool" where
  "reaches k c c' \<longleftrightarrow> (\<exists>tr. run (ki_env k) c tr c' \<and> list_all (signed_by {ki_payer k}) tr)"

lemma run_append: "run env c' tr' c'' \<Longrightarrow> run env c tr c' \<Longrightarrow> run env c (tr @ tr') c''"
proof (induction rule: run.induct)
  case (more c1 tr1 c2 l c3)
  from run.more [OF more.IH [OF more.prems] more.hyps(2)] show ?case by simp
qed simp

lemma reaches_refl [simp, intro]: "reaches k c c"
  unfolding reaches_def by (intro exI [of _ "[]"]) (simp add: run.start)

lemma reaches_trans: "reaches k c c' \<Longrightarrow> reaches k c' c'' \<Longrightarrow> reaches k c c''"
  unfolding reaches_def by (metis list_all_append run_append)

lemma reaches_step: "step (ki_env k) c l c' \<Longrightarrow> signed_by {ki_payer k} l \<Longrightarrow> reaches k c c'"
  unfolding reaches_def using run.more [OF run.start, of "ki_env k" c l c'] by (intro exI [of _ "[l]"]) simp

lemma reaches_exec: "exec (ki_env k) (payer_ctx k cx) i c = Inr c' \<Longrightarrow> reaches k c c'"
  by (rule reaches_step [OF step.call], assumption) (simp add: payer_ctx_def)

lemma reaches_good: "client_laws k \<Longrightarrow> reaches k c c' \<Longrightarrow> good (ki_env k) c \<Longrightarrow> good (ki_env k) c'"
  unfolding reaches_def client_laws_def using well_formed.kept_by_runs by (metis list.pred_True)

lemma payer_no_distributor:
  assumes "client_laws k" "good (ki_env k) c"
  shows "ch_distributors c (ki_payer k) = None"
proof (rule ccontr)
  assume "ch_distributors c (ki_payer k) \<noteq> None"
  then obtain md where "ch_distributors c (ki_payer k) = Some md" by blast
  from goodD [OF assms(2) this] assms(1) show False unfolding md_ok_def client_laws_def by (metis fst_conv)
qed

lemma reaches_created:
  assumes "client_laws k" "ki_create_ata k user (ki_mint k) (ch_ledger c) = Inr l"
  shows "reaches k c (c\<lparr>ch_ledger := l\<rparr>)"
proof (rule reaches_step [OF step.outside])
  show "outside_ok c l" using assms unfolding client_laws_def outside_ok_def by (metis order_refl)
qed simp

lemma reaches_paid:
  assumes "client_laws k" "good (ki_env k) c"
    and "token_transfer (ki_env k) from to (ki_payer k) amount (ch_ledger c) = Inr l"
  shows "reaches k c (c\<lparr>ch_ledger := l\<rparr>)"
proof (rule reaches_step [OF step.outside])
  have te: "transfer_effect (ki_env k)" using assms(1) by (simp add: client_laws_def env_ok_def)
  from assms(1,3) obtain s where s: "lg_accounts (ch_ledger c) from = Some s" "ta_owner s = ki_payer k"
    unfolding client_laws_def owner_signs_def by blast
  show "outside_ok c l"
    unfolding outside_ok_def
  proof (intro allI impI)
    fix x a
    assume x: "lg_accounts (ch_ledger c) x = Some a \<and> ch_distributors c (ta_owner a) \<noteq> None"
    then have "x \<noteq> from" using s payer_no_distributor [OF assms(1,2)] by auto
    moreover obtain a' where a': "lg_accounts l x = Some a'" "ta_mint a' = ta_mint a" "ta_owner a' = ta_owner a"
      using transfer_keeps(1) [OF te assms(3)] x by (blast elim: keeps_accountsD)
    ultimately have "unat (ta_amount a) \<le> unat (ta_amount a')"
      using transfer_balance(1) [OF te assms(3), of x] x by (auto simp: balance_def split: if_splits)
    with a' show "\<exists>a'. lg_accounts l x = Some a' \<and> ta_mint a' = ta_mint a \<and> ta_owner a' = ta_owner a \<and> ta_amount a \<le> ta_amount a'"
      by (simp add: word_le_nat_alt)
  qed
qed simp

text \<open>Tools in sequence.\<close>

definition tool_ok :: "client \<Rightarrow> (chain \<Rightarrow> outcome) \<Rightarrow> bool" where
  "tool_ok k f \<longleftrightarrow> (\<forall>c c' e. good (ki_env k) c \<longrightarrow> f c = (c', e) \<longrightarrow> reaches k c c')"

lemma tool_okI: "(\<And>c c' e. good (ki_env k) c \<Longrightarrow> f c = (c', e) \<Longrightarrow> reaches k c c') \<Longrightarrow> tool_ok k f"
  by (simp add: tool_ok_def)

lemma tool_okD: "tool_ok k f \<Longrightarrow> good (ki_env k) c \<Longrightarrow> f c = (c', e) \<Longrightarrow> reaches k c c'"
  unfolding tool_ok_def by blast

lemma and_run_reaches:
  assumes "client_laws k" "good (ki_env k) c" "reaches k c (fst r)" "tool_ok k f" "and_run r f = (c', e)"
  shows "reaches k c c'"
proof (cases r)
  case (Pair c1 ended)
  have "good (ki_env k) c1" using reaches_good [OF assms(1,3,2)] Pair by simp
  with Pair assms(3,5) tool_okD [OF assms(4)] show ?thesis by (cases ended) (auto intro: reaches_trans)
qed

lemma for_each_reaches:
  assumes "client_laws k" "\<And>x. x \<in> set xs \<Longrightarrow> tool_ok k (f x)"
  shows "tool_ok k (for_each f xs)"
  using assms(2)
proof (induction xs)
  case (Cons x xs)
  show ?case
  proof (rule tool_okI)
    fix c c' e
    assume h: "good (ki_env k) c" "for_each f (x # xs) c = (c', e)"
    have "reaches k c (fst (f x c))" using tool_okD [OF Cons.prems h(1), of x] by (metis list.set_intros(1) prod.collapse)
    from and_run_reaches [OF assms(1) h(1) this Cons.IH] Cons.prems h(2) show "reaches k c c'" by simp
  qed
qed (simp add: tool_ok_def)

section \<open>The tools\<close>

lemma fund_reaches:
  assumes "client_laws k"
  shows "tool_ok k (process_fund_all k files)"
proof -
  have tree: "tool_ok k (fund_tree k t)" for t
    by (rule tool_okI) (auto simp: fund_tree_def Let_def intro: reaches_paid [OF assms] split: option.splits if_splits sum.splits)
  have "tool_ok k (fund_file k f)" for f
    by (rule tool_okI) (auto simp: fund_file_def intro: tool_okD [OF tree] split: if_splits option.splits)
  then show ?thesis
    using for_each_reaches [OF assms, of "by_path files" "fund_file k"] by (simp add: process_fund_all_def [abs_def])
qed

lemma get_or_create_ata_reaches: "client_laws k \<Longrightarrow> reaches k c (fst (get_or_create_ata k user c))"
  by (auto simp: get_or_create_ata_def intro: reaches_created split: sum.splits)

lemma send_new_distributor_reaches:
  assumes "client_laws k" "send_new_distributor k cx args t missing c = (c', e)"
  shows "reaches k c c'"
proof -
  let ?d = "distributor_address k (at_airdrop_version t)"
  have "reaches k c (c\<lparr>ch_ledger := l\<rparr>)"
    if "(if missing then ki_create_ata k ?d (ki_mint k) (ch_ledger c) else Inr (ch_ledger c)) = Inr l" for l
    using that assms(1) by (cases missing) (auto intro: reaches_created)
  with assms(2) show ?thesis
    unfolding send_new_distributor_def Let_def by (auto simp del: exec.simps split: sum.splits intro: reaches_trans dest!: reaches_exec)
qed

lemma expect_match_same: "fst (expect_match k args t c) = c"
  by (simp add: expect_match_def split: option.split sum.split)

lemma new_distributor_reaches:
  assumes "client_laws k"
  shows "tool_ok k (create_distributors k cx args files)"
proof (induction files)
  case (Cons f fs)
  show ?case
  proof (rule tool_okI)
    fix c c' e
    assume h: "good (ki_env k) c" "create_distributors k cx args (f # fs) c = (c', e)"
    show "reaches k c c'"
    proof (cases "tf_tree f")
      case None
      with h tool_okD [OF Cons] show ?thesis by auto
    next
      case (Some t)
      let ?rest = "\<lambda>c3. if nx_airdrop_version args \<noteq> None then finished c3 else create_distributors k cx args fs c3"
      let ?check = "\<lambda>c2. and_run (if nx_skip_verify args then finished c2 else expect_match k args t c2) ?rest"
      have rest: "tool_ok k ?rest" using Cons by (auto simp: tool_ok_def split: if_splits)
      have check: "tool_ok k ?check"
        by (rule tool_okI, rule and_run_reaches [OF assms _ _ rest]) (auto simp: expect_match_same)
      have send: "tool_ok k (\<lambda>c1. and_run (send_new_distributor k cx args t b c1) ?check)" for b
      proof (rule tool_okI, rule and_run_reaches [OF assms _ _ check])
        show "reaches k c (fst (send_new_distributor k cx args t b c))" for c
          using send_new_distributor_reaches [OF assms] by (metis prod.collapse)
      qed
      have "reaches k c c'" if "and_run (expect_match k args t c) (create_distributors k cx args fs) = (c', e)"
        using and_run_reaches [OF assms h(1) _ Cons that] by (simp add: expect_match_same)
      moreover have "reaches k c c'" if "create_distributors k cx args fs c = (c', e)" using tool_okD [OF Cons h(1) that] .
      moreover have "reaches k c c'" if "and_run (get_or_create_ata k (ki_payer k) c)
          (\<lambda>c1. and_run (send_new_distributor k cx args t b c1) ?check) = (c', e)" for b
        using and_run_reaches [OF assms h(1) get_or_create_ata_reaches [OF assms] send that] .
      ultimately show ?thesis
        using h(2) unfolding create_distributors.simps(2) Let_def Some option.case
        by (cases "nx_airdrop_version args \<noteq> None \<and> nx_airdrop_version args \<noteq> Some (at_airdrop_version t)";
            cases "account_at c (distributor_of k t) \<noteq> None") (simp_all only: if_True if_False simp_thms)
    qed
  qed
qed (simp add: tool_ok_def)

lemma process_new_distributor_reaches: "client_laws k \<Longrightarrow> tool_ok k (process_new_distributor k cx args files)"
  unfolding process_new_distributor_def [abs_def] by (rule new_distributor_reaches)

lemma new_claim_reaches:
  assumes "client_laws k" "process_new_claim k cx t c = (c', e)"
  shows "reaches k c c'"
proof -
  have "reaches k c (c\<lparr>ch_ledger := l\<rparr>)"
    if "(if account_at c (ata k (ki_payer k)) = None then ki_create_ata k (ki_payer k) (ki_mint k) (ch_ledger c) else Inr (ch_ledger c)) = Inr l"
    for l
    using that assms(1) by (auto intro: reaches_created split: if_splits)
  with assms(2) show ?thesis
    unfolding process_new_claim_def Let_def
    by (auto simp del: exec.simps split: sum.splits option.splits intro: reaches_trans dest!: reaches_exec)
qed

lemma claim_reaches:
  assumes "client_laws k"
  shows "tool_ok k (process_claim k cx t)"
proof (rule tool_okI)
  fix c c' e
  assume h: "good (ki_env k) c" "process_claim k cx t c = (c', e)"
  show "reaches k c c'"
    using h(2) unfolding process_claim_def Let_def
  proof (rule and_run_reaches [OF assms h(1), rotated 2])
    show "reaches k c (fst (if account_at c (claim_status_key (ki_env k) (ki_payer k) (distributor_of k t)) \<noteq> None
        then finished c else process_new_claim k cx t c))"
      using new_claim_reaches [OF assms] by (cases "process_new_claim k cx t c") auto
  qed (auto simp: tool_ok_def simp del: exec.simps split: sum.splits dest: reaches_exec)
qed

text \<open>The tools that try again.\<close>

lemma retry_reaches:
  assumes "retry k already ix d net n c = Some ((c', e), n')"
  shows "reaches k c c'"
proof -
  have "k = k \<longrightarrow> reaches k c (fst (fst ((c', e), n')))"
  proof (rule retry.raw_induct [OF _ assms, where P = "\<lambda>K A I D net' m C r. K = k \<longrightarrow> reaches k C (fst (fst r))"])
    fix f :: "client \<Rightarrow> (merkle_distributor \<Rightarrow> bool) \<Rightarrow> (merkle_distributor \<Rightarrow> instruction) \<Rightarrow> pubkey \<Rightarrow> (nat \<Rightarrow> attempt) \<Rightarrow> nat
      \<Rightarrow> chain \<Rightarrow> (outcome \<times> nat) option"
      and K A I D net' m C r
    assume IH: "\<And>K A I D net' m C r. f K A I D net' m C = Some r \<Longrightarrow> K = k \<longrightarrow> reaches k C (fst (fst r))"
      and r: "(case ch_distributors C D of None \<Rightarrow> Some (panicked C, m)
        | Some md \<Rightarrow> if A md then Some (finished C, m) else if tr_lost (net' m) then f K A I D net' (Suc m) C
          else (case exec (ki_env K) (payer_ctx K (tr_ctx (net' m))) (I md) C of
              Inl _ \<Rightarrow> f K A I D net' (Suc m) C | Inr c' \<Rightarrow> Some (finished c', Suc m))) = Some r"
    show "K = k \<longrightarrow> reaches k C (fst (fst r))"
      using r by (auto simp del: exec.simps split: option.splits if_splits sum.splits dest: IH reaches_exec)
  qed
  then show ?thesis by simp
qed

lemma retry_files_reaches:
  "retry_files k already ix net n files c = Some (c', e) \<Longrightarrow> reaches k c c'"
proof (induction k already ix net n files c rule: retry_files.induct)
  case (2 k already ix net n f fs c)
  show ?case
  proof (cases "tf_tree f")
    case (Some t)
    then obtain c1 e1 n1 where r: "retry k already (ix (distributor_of k t)) (distributor_of k t) net n c = Some ((c1, e1), n1)"
      "(if e1 then retry_files k already ix net n1 fs c1 else Some (panicked c1)) = Some (c', e)"
      using "2.prems" by (auto simp: Let_def split: option.splits prod.splits)
    from retry_reaches [OF r(1)] r(2) "2.IH" [OF Some refl r(1) refl refl] show ?thesis
      by (auto intro: reaches_trans split: if_splits)
  qed (use "2.prems" in simp)
qed simp

lemma set_slot_at_reaches: "tool_ok k (set_slot_at k cx slot version)"
  by (auto simp: tool_ok_def set_slot_at_def simp del: exec.simps split: sum.splits dest: reaches_exec)

lemma set_slot_by_time_reaches:
  assumes "client_laws k"
  shows "tool_ok k (process_set_enable_slot_by_time k cx answer clock version time files)"
proof -
  have "tool_ok k (\<lambda>c. case tf_tree f of None \<Rightarrow> panicked c | Some t \<Rightarrow> set_slot_at k cx slot (at_airdrop_version t) c)" for f slot
    using set_slot_at_reaches by (cases "tf_tree f") (auto simp: tool_ok_def)
  then have each: "tool_ok k (for_each (\<lambda>f c. case tf_tree f of None \<Rightarrow> panicked c
      | Some t \<Rightarrow> set_slot_at k cx slot (at_airdrop_version t) c) (by_path files))" for slot
    by (intro for_each_reaches [OF assms]) auto
  show ?thesis
    by (rule tool_okI)
      (auto simp: process_set_enable_slot_by_time_def split: option.splits dest: tool_okD [OF each] tool_okD [OF set_slot_at_reaches])
qed

lemma set_slot_once_reaches: "set_slot_once k a slot version c = (c', e) \<Longrightarrow> reaches k c c'"
  by (auto simp: set_slot_once_def Let_def simp del: exec.simps split: option.splits if_splits sum.splits dest: reaches_exec)

text \<open>Closing.\<close>

lemma close_distributors_reaches:
  assumes "client_laws k"
  shows "tool_ok k (close_distributors k cx version files)"
proof (induction files)
  case (Cons f fs)
  show ?case
  proof (rule tool_okI)
    fix c c' e
    assume h: "good (ki_env k) c" "close_distributors k cx version (f # fs) c = (c', e)"
    let ?close = "\<lambda>i c1. let c2 = (case exec (ki_env k) (payer_ctx k cx) i c1 of Inl _ \<Rightarrow> c1 | Inr c2 \<Rightarrow> c2)
      in if version \<noteq> None then finished c2 else close_distributors k cx version fs c2"
    have close: "tool_ok k (?close i)" for i
    proof (rule tool_okI)
      fix c1 c3 e1
      assume c1: "good (ki_env k) c1" "?close i c1 = (c3, e1)"
      define c2 where "c2 = (case exec (ki_env k) (payer_ctx k cx) i c1 of Inl _ \<Rightarrow> c1 | Inr c2 \<Rightarrow> c2)"
      have "reaches k c1 c2" by (simp add: c2_def split: sum.split) (metis reaches_exec)
      moreover have "reaches k c2 c3" using c1(2) tool_okD [OF Cons reaches_good [OF assms \<open>reaches k c1 c2\<close> c1(1)]]
        by (auto simp: Let_def c2_def [symmetric] split: if_splits)
      ultimately show "reaches k c1 c3" by (rule reaches_trans)
    qed
    have "reaches k c c'" if "and_run (get_or_create_ata k (ki_payer k) c) (?close i) = (c', e)" for i
      using and_run_reaches [OF assms h(1) get_or_create_ata_reaches [OF assms] close that] .
    moreover have "reaches k c c'" if "close_distributors k cx version fs c = (c', e)" using tool_okD [OF Cons h(1) that] .
    ultimately show "reaches k c c'" using h(2) by (simp add: Let_def del: exec.simps split: option.splits if_splits)
  qed
qed (simp add: tool_ok_def)

lemma transaction_reaches: "run_transaction (ki_env k) (payer_ctx k cx) ixs c = Inr c' \<Longrightarrow> reaches k c c'"
proof (induction ixs arbitrary: c)
  case (Cons i ixs)
  then obtain c1 where "exec (ki_env k) (payer_ctx k cx) i c = Inr c1" "run_transaction (ki_env k) (payer_ctx k cx) ixs c1 = Inr c'"
    by (auto simp: ok_iff simp del: exec.simps)
  with Cons.IH show ?case by (blast intro: reaches_exec reaches_trans)
qed simp

lemma close_loop_reaches: "close_loop k cx ixs accounts c = (ixs', c') \<Longrightarrow> reaches k c c'"
proof (induction k cx ixs accounts c rule: close_loop.induct)
  case (2 k cx ixs a accounts c)
  then show ?case
    by (auto simp: Let_def simp del: run_transaction.simps split: if_splits sum.splits intro: reaches_trans dest!: transaction_reaches)
qed simp

lemma close_claim_status_reaches: "reaches k c (process_close_claim_status k cx accounts c)"
proof -
  obtain ixs c1 where "close_loop k cx [] accounts c = (ixs, c1)" by force
  moreover from close_loop_reaches [OF this] have "reaches k c c1" .
  ultimately show ?thesis
    by (auto simp: process_close_claim_status_def simp del: run_transaction.simps split: sum.splits intro: reaches_trans dest!: transaction_reaches)
qed

text \<open>Paying lists.\<close>

lemma pay_users_reaches:
  assumes "client_laws k"
  shows "good (ki_env k) c \<Longrightarrow> pay_users k amount users (ch_ledger c) = Inr l \<Longrightarrow> reaches k c (c\<lparr>ch_ledger := l\<rparr>)"
proof (induction users arbitrary: c)
  case Nil
  then have "c\<lparr>ch_ledger := l\<rparr> = c" by simp
  then show ?case by simp
next
  case (Cons u users)
  obtain user missing where u: "u = (user, missing)" by force
  with Cons.prems(2) obtain l1 l2 where l: "(if missing then ki_create_ata k user (ki_mint k) (ch_ledger c) else Inr (ch_ledger c)) = Inr l1"
    "token_transfer (ki_env k) (ata k (ki_payer k)) (ata k user) (ki_payer k) amount l1 = Inr l2" "pay_users k amount users l2 = Inr l"
    by (auto simp: ok_iff)
  have r1: "reaches k c (c\<lparr>ch_ledger := l1\<rparr>)" using l(1) assms by (auto intro: reaches_created split: if_splits)
  note g1 = reaches_good [OF assms r1 Cons.prems(1)]
  have r2: "reaches k (c\<lparr>ch_ledger := l1\<rparr>) (c\<lparr>ch_ledger := l2\<rparr>)" using reaches_paid [OF assms g1] l(2) by fastforce
  from Cons.IH [OF reaches_good [OF assms r2 g1]] l(3) have "reaches k (c\<lparr>ch_ledger := l2\<rparr>) (c\<lparr>ch_ledger := l\<rparr>)" by simp
  with r1 r2 show ?case by (blast intro: reaches_trans)
qed

lemma batch_reaches:
  assumes "client_laws k" "good (ki_env k) c" "send_for_batch_address k parse amount batch c = Inr (c', qualified)"
  shows "reaches k c c'"
  using assms(3) pay_users_reaches [OF assms(1,2)] by (auto simp: send_for_batch_address_def Let_def ok_iff)

lemma mass_send_reaches:
  assumes "client_laws k"
  shows "good (ki_env k) c \<Longrightarrow> send_batches k parse sends n amount batches (sent, c) = (sent', c') \<Longrightarrow> reaches k c c'"
proof (induction batches arbitrary: n sent c)
  case (Cons batch batches)
  show ?case
  proof (cases "sends n \<noteq> None \<and> (\<exists>r. send_for_batch_address k parse amount batch c = Inr r)")
    case True
    then obtain sg c1 q where s: "sends n = Some sg" "send_for_batch_address k parse amount batch c = Inr (c1, q)" by force
    note r = batch_reaches [OF assms Cons.prems(1) s(2)]
    from Cons.IH [OF reaches_good [OF assms r Cons.prems(1)]] Cons.prems(2) s have "reaches k c1 c'" by auto
    with r show ?thesis by (rule reaches_trans)
  next
    case False
    then have "send_batches k parse sends (Suc n) amount batches (sent, c) = (sent', c')"
      using Cons.prems(2) by (auto split: option.splits sum.splits)
    from Cons.IH [OF Cons.prems(1) this] show ?thesis .
  qed
qed simp

lemma resend_reaches:
  assumes "client_laws k"
  shows "good (ki_env k) c \<Longrightarrow> resend_groups k parse sends n amount per_tx status groups (sent, c) = ((sent', c'), e) \<Longrightarrow> reaches k c c'"
proof (induction groups arbitrary: n sent c)
  case (Cons g groups)
  obtain signature addresses where g: "g = (signature, addresses)" by force
  let ?batch = "send_for_batch_address k parse amount (if per_tx < length addresses then take per_tx addresses else addresses) c"
  show ?case
  proof (cases "(status signature = NotFound \<or> status signature = Failed) \<and> sends n \<noteq> None \<and> (\<exists>r. ?batch = Inr r)")
    case True
    then obtain sg c1 q where s: "status signature = NotFound \<or> status signature = Failed" "sends n = Some sg" "?batch = Inr (c1, q)"
      by force
    note r = batch_reaches [OF assms Cons.prems(1) s(3)]
    from Cons.prems(2) s g have "resend_groups k parse sends (Suc n) amount per_tx status groups (record_sent sg q sent, c1) = ((sent', c'), e)"
      by (auto simp del: record_sent_def)
    from Cons.IH [OF reaches_good [OF assms r Cons.prems(1)] this] r show ?thesis by (blast intro: reaches_trans)
  next
    case False
    then have "reaches k c c' \<or> (\<exists>m. resend_groups k parse sends m amount per_tx status groups (sent, c) = ((sent', c'), e))"
      using Cons.prems(2) g by (auto split: option.splits sum.splits signature_status.splits if_splits)
    with Cons.IH [OF Cons.prems(1)] show ?thesis by blast
  qed
qed simp

section \<open>The commands\<close>

lemma unwrap_cases:
  assumes "unwrap w r f = (w', e)"
  obtains "r = None" "w' = w" "\<not> e" | x where "r = Some x" "f x = (w', e)"
  using assms by (cases r) (auto simp: unwrap_def)

lemma unwrap_opt_cases:
  assumes "unwrap_opt w r f = Some (w', e)"
  obtains "r = None" "w' = w" "\<not> e" | x where "r = Some x" "f x = Some (w', e)"
  using assms by (cases r) (auto simp: unwrap_opt_def)

lemma on_disk_chain [simp]: "wd_chain (fst (on_disk w r)) = wd_chain w"
  by (simp add: on_disk_def)

lemma write_out_chain [simp]: "wd_chain (fst (write_out w p x)) = wd_chain w"
  by (simp add: write_out_def)

lemma write_trees_chain [simp]: "wd_chain (fst (write_trees w p r)) = wd_chain w"
  by (simp add: write_trees_def split: prod.split)

text \<open>The commands on files and the ones that only report leave the chain alone.\<close>

lemma create_test_list_chain: "wd_chain (fst (run_create_test_list s a x w)) = wd_chain w"
proof -
  obtain w' e where "write_out w (tl_csv_path x) (Csv_file (test_list_rows x)) = (w', e)" by force
  moreover from this have "wd_chain w' = wd_chain w" by (metis fst_conv write_out_chain)
  ultimately show ?thesis by (simp add: run_create_test_list_def)
qed

lemma disk_commands:
  "wd_chain (fst (run_create_merkle_tree s a x1 w)) = wd_chain w"
  "wd_chain (fst (run_filter_list s x3 w)) = wd_chain w"
  "wd_chain (fst (run_filter_and_merge s x4 w)) = wd_chain w"
  "wd_chain (fst (run_extend_list s x5 w)) = wd_chain w"
  "wd_chain (fst (run_create_dummy_csv s x6 w)) = wd_chain w"
  "wd_chain (fst (run_generate_kv_proof s a x7 w)) = wd_chain w"
  "wd_chain (fst (run_aggregate_if_csvs s x8 w)) = wd_chain w"
  by (simp_all add: run_create_merkle_tree_def run_filter_list_def run_filter_and_merge_def run_extend_list_def run_create_dummy_csv_def
      run_generate_kv_proof_def run_aggregate_if_csvs_def unwrap_def case_prod_unfold Let_def split: option.split)

lemma report_commands:
  "wd_chain (fst (run_verify s a x1 w)) = wd_chain w"
  "wd_chain (fst (run_verify_kv_proof s x2 w)) = wd_chain w"
  "wd_chain (fst (run_get_slot s x3 w)) = wd_chain w"
  "wd_chain (fst (run_total_claim s a x4 w)) = wd_chain w"
  "wd_chain (fst (run_view_claim_status s a w)) = wd_chain w"
  "wd_chain (fst (run_find_airdrop_version s a x5 w)) = wd_chain w"
  by (auto simp: run_verify_def run_verify_kv_proof_def run_get_slot_def run_total_claim_def run_view_claim_status_def
      run_find_airdrop_version_def unwrap_def say_def split: option.split)

definition moves :: "services \<Rightarrow> args \<Rightarrow> world \<Rightarrow> world \<Rightarrow> bool" where
  "moves s a w w' \<longleftrightarrow>
     wd_chain w' = wd_chain w \<or> (\<exists>k. get_program_client s a = Some k \<and> reaches k (wd_chain w) (wd_chain w'))"

definition command_laws :: "services \<Rightarrow> args \<Rightarrow> bool" where
  "command_laws s a \<longleftrightarrow> (\<forall>k. get_program_client s a = Some k \<longrightarrow> client_laws k)"

lemma movesI: "get_program_client s a = Some k \<Longrightarrow> reaches k (wd_chain w) (wd_chain w') \<Longrightarrow> moves s a w w'"
  by (auto simp: moves_def)

lemma moves_same [simp, intro]: "wd_chain w' = wd_chain w \<Longrightarrow> moves s a w w'"
  by (simp add: moves_def)

lemma client_env: "get_program_client s a = Some k \<Longrightarrow> ki_env k = sv_env s"
  by (auto simp: get_program_client_def client_of_def)

lemma tool_moves:
  assumes "good (sv_env s) (wd_chain w)" "get_program_client s a = Some k" "tool_ok k f"
  shows "moves s a w (fst (on_chain w (f (wd_chain w))))"
  using tool_okD [OF assms(3), of "wd_chain w"] assms(1,2) client_env [OF assms(2)]
  by (cases "f (wd_chain w)") (auto simp: on_chain_def intro!: movesI)

lemma unwrap_moves: "(\<And>x. r = Some x \<Longrightarrow> moves s a w (fst (f x))) \<Longrightarrow> moves s a w (fst (unwrap w r f))"
  by (simp add: unwrap_def split: option.split)

lemma chain_commands:
  assumes "command_laws s a" "good (sv_env s) (wd_chain w)"
  shows "moves s a w (fst (run_new_distributor s a x1 w))" "moves s a w (fst (run_fund_all s a x2 w))"
    and "moves s a w (fst (run_claim s a x3 w))" "moves s a w (fst (run_close_distributor s a x4 w))"
    and "moves s a w (fst (run_close_claim_status s a w))" "moves s a w (fst (run_set_enable_slot_by_time s a x5 w))"
proof -
  have laws: "client_laws k" if "get_program_client s a = Some k" for k using assms(1) that by (simp add: command_laws_def)
  note tool = tool_moves [OF assms(2)]
  show "moves s a w (fst (run_new_distributor s a x1 w))"
    unfolding run_new_distributor_def
    by (intro unwrap_moves) (blast intro: tool [OF _ process_new_distributor_reaches [OF laws]])
  show "moves s a w (fst (run_fund_all s a x2 w))"
    unfolding run_fund_all_def by (intro unwrap_moves) (blast intro: tool [OF _ fund_reaches [OF laws]])
  show "moves s a w (fst (run_claim s a x3 w))"
    unfolding run_claim_def by (intro unwrap_moves) (blast intro: tool [OF _ claim_reaches [OF laws]])
  show "moves s a w (fst (run_close_distributor s a x4 w))"
    unfolding run_close_distributor_def
    using tool [OF _ close_distributors_reaches [OF laws]]
    by (intro unwrap_moves) (auto simp: process_close_distributor_def split: option.splits)
  show "moves s a w (fst (run_close_claim_status s a w))"
    unfolding run_close_claim_status_def
    by (intro unwrap_moves) (simp add: on_chain_def, erule movesI, simp add: close_claim_status_reaches)
  show "moves s a w (fst (run_set_enable_slot_by_time s a x5 w))"
    unfolding run_set_enable_slot_by_time_def by (intro unwrap_moves) (blast intro: tool [OF _ set_slot_by_time_reaches [OF laws]])
qed

lemma payment_commands:
  assumes "command_laws s a" "good (sv_env s) (wd_chain w)"
  shows "moves s a w (fst (run_mass_send s a x1 w))" "moves s a w (fst (run_resend s a x2 w))"
proof -
  have laws: "client_laws k" "good (ki_env k) (wd_chain w)" if "get_program_client s a = Some k" for k
    using assms that client_env by (simp_all add: command_laws_def)
  have "moves s a w (fst (write_out (w\<lparr>wd_chain := c\<rparr>) p (Sent_file sent)))"
    if "get_program_client s a = Some k"
      "process_mass_send k (sv_parse s) (sv_sends s) per_tx amount addresses (sent0, wd_chain w) = (sent, c)"
    for k per_tx amount addresses sent0 sent c p
    using that mass_send_reaches [OF laws] by (intro movesI) (auto simp: process_mass_send_def)
  then show "moves s a w (fst (run_mass_send s a x1 w))"
    unfolding run_mass_send_def by (intro unwrap_moves) (simp split: option.split prod.split)
  have "moves s a w (fst (write_out (w\<lparr>wd_chain := c\<rparr>) p (Sent_file sent)))"
    if "get_program_client s a = Some k"
      "process_resend k (sv_parse s) (sv_sends s) per_tx amount (sv_status s) (sv_order s) entries (wd_chain w) = ((sent, c), e)"
    for k per_tx amount entries sent c e p
    using that resend_reaches [OF laws] by (intro movesI) (auto simp: process_resend_def)
  then show "moves s a w (fst (run_resend s a x2 w))"
    unfolding run_resend_def by (intro unwrap_moves) (simp add: case_prod_unfold split: option.split, metis prod.collapse)
qed

lemma retrying_commands:
  assumes "run_with_files s a path tool w = Some (w', e)"
    and "\<And>k files c c' e. tool k files c = Some (c', e) \<Longrightarrow> reaches k c c'"
  shows "moves s a w w'"
  using assms unfolding run_with_files_def by (fastforce elim!: unwrap_opt_cases simp: on_chain_def moves_def)

lemma set_enable_slot_moves:
  assumes "run_set_enable_slot s a x w = Some (w', e)"
  shows "moves s a w w'"
proof (cases "ss_airdrop_version x")
  case None
  then have "run_with_files s a (ss_merkle_tree_path x) (\<lambda>k. process_set_enable_slot k None (ss_slot x) (sv_net s)) w = Some (w', e)"
    using assms by (simp add: run_set_enable_slot_def)
  then show ?thesis by (rule retrying_commands) (auto simp: process_set_enable_slot_def dest: retry_files_reaches)
next
  case (Some v)
  with assms show ?thesis
    by (auto simp: run_set_enable_slot_def process_set_enable_slot_def on_chain_def moves_def elim!: unwrap_opt_cases
        intro: set_slot_once_reaches [OF prod.collapse [symmetric]])
qed

lemma command_moves:
  assumes "command_laws s a" "good (sv_env s) (wd_chain w)" "cli_main s a cmd w = Some (w', e)"
  shows "moves s a w w'"
proof -
  note quiet = chain_commands [OF assms(1,2)] payment_commands [OF assms(1,2)] disk_commands report_commands create_test_list_chain
  note retried = retrying_commands [OF _ retry_files_reaches]
  have "moves s a w (fst (the (cli_main s a cmd w)))"
  proof (cases cmd)
    case (ClawbackCmd x)
    then have "run_with_files s a x (\<lambda>k. process_clawback k (sv_net s)) w = Some (w', e)" using assms(3) by simp
    then have "moves s a w w'" by (rule retried) (simp add: process_clawback_def)
    with assms(3) show ?thesis by simp
  next
    case (SetAdminCmd x)
    then have "run_with_files s a (sad_merkle_tree_path x) (\<lambda>k. process_set_admin k (sad_new_admin x) (sv_net s)) w = Some (w', e)"
      using assms(3) by simp
    then have "moves s a w w'" by (rule retried) (simp add: process_set_admin_def)
    with assms(3) show ?thesis by simp
  next
    case (SetClawbackReceiverCmd x)
    then have "run_with_files s a (cr_merkle_tree_path x) (\<lambda>k. process_set_clawback_receiver k (cr_receiver x) (sv_net s)) w = Some (w', e)"
      using assms(3) by simp
    then have "moves s a w w'" by (rule retried) (simp add: process_set_clawback_receiver_def Let_def)
    with assms(3) show ?thesis by simp
  next
    case (SetEnableSlotCmd x)
    then have "moves s a w w'" using assms(3) by (intro set_enable_slot_moves) simp
    with assms(3) show ?thesis by simp
  qed (simp_all add: quiet)
  with assms(3) show ?thesis by simp
qed

section \<open>Properties\<close>

text \<open>C4: Every command is a run of the program. Whatever the state reached so far, whatever the command, its arguments and the
  files it finds, and whether it ends or panics: what it does to the chain is a sequence of instructions of the program,
  each signed by the key of the command alone, and of changes of the ledger that take nothing from the accounts of
  distributors. Without a key the chain is left alone. So a command keeps everything that runs keep.\<close>

theorem commands_are_runs:
  assumes "command_laws s a" "env_ok (sv_env s)" "initial c0" "run (sv_env s) c0 tr0 (wd_chain w)"
    and "cli_main s a cmd w = Some (w', ended)"
  shows "\<exists>tr. run (sv_env s) (wd_chain w) tr (wd_chain w') \<and> run (sv_env s) c0 (tr0 @ tr) (wd_chain w')
    \<and> list_all (signed_by (set_option (payer_key s a))) tr \<and> good (sv_env s) (wd_chain w')
    \<and> (payer_key s a = None \<longrightarrow> wd_chain w' = wd_chain w)"
proof -
  note moved = command_moves [OF assms(1) run_good [OF assms(2-4)] assms(5)]
  obtain tr where tr: "run (sv_env s) (wd_chain w) tr (wd_chain w')" "list_all (signed_by (set_option (payer_key s a))) tr"
  proof (cases "wd_chain w' = wd_chain w")
    case True
    then show thesis using that [of "[]"] by (simp add: run.start)
  next
    case False
    with moved obtain k where k: "get_program_client s a = Some k" "reaches k (wd_chain w) (wd_chain w')"
      by (auto simp: moves_def)
    from k(1) have "payer_key s a = Some (ki_payer k)" "ki_env k = sv_env s" by (auto simp: get_program_client_def client_of_def)
    with k(2) that show thesis by (auto simp: reaches_def)
  qed
  moreover have "wd_chain w' = wd_chain w" if "payer_key s a = None"
    using moved that by (simp add: moves_def get_program_client_def)
  moreover note run_append [OF tr(1) assms(4)] run_good [OF assms(2,3) run_append [OF tr(1) assms(4)]]
  ultimately show ?thesis using tr by (intro exI [of _ tr] conjI impI)
qed

definition demo_services :: services where
  "demo_services =
     \<lparr>sv_env = ki_env demo_admin, sv_keypair = (\<lambda>p. if p = ''key.json'' then Some (Pubkey 2) else None),
      sv_create_ata = ki_create_ata demo_admin, sv_parse = demo_parse, sv_show_key = (\<lambda>_. []), sv_read_csv = (\<lambda>_. Some []),
      sv_new_unique = (\<lambda>n. Pubkey 0), sv_rpc_fails = (\<lambda>_. False), sv_ctx = demo_ctx (I64 50) (Pubkey 2), sv_net = demo_net,
      sv_samples = None, sv_clock = None, sv_closable_records = (\<lambda>_. None), sv_sends = (\<lambda>_. None), sv_status = (\<lambda>_. NoAnswer),
      sv_entries = (\<lambda>_. []), sv_order = id, sv_http = (\<lambda>_. None), sv_draw = (\<lambda>_ _. 0)\<rparr>"

definition demo_args :: args where
  "demo_args = \<lparr>ar_mint = Pubkey 5, ar_keypair_path = Some ''key.json''\<rparr>"

definition demo_world :: world where
  "demo_world = \<lparr>wd_chain = demo_fresh,
     wd_disk = [(''trees'', Directory), (''trees/tree_0.json'', Tree_file (the (tf_tree demo_tree_file)))], wd_reports = []\<rparr>"

lemma demo_payer: "payer_key demo_services demo_args = Some (Pubkey 2)" "get_program_client demo_services demo_args = Some demo_admin"
  by (simp_all add: payer_key_def get_program_client_def client_of_def demo_services_def demo_args_def demo_admin_def demo_client_def)

lemma demo_admin_laws: "client_laws demo_admin"
proof -
  have "uses_ledger (ki_env demo_admin)" by (simp add: uses_ledger_def demo_admin_def demo_client_def demo_env_def)
  from ledger_laws [OF this] have "env_ok (ki_env demo_admin)" by (simp add: env_ok_def)
  moreover have "owner_signs (ki_env demo_admin)"
    by (auto simp: owner_signs_def demo_admin_def demo_client_def demo_env_def ledger_transfer_def ok_iff split: option.splits)
  ultimately show ?thesis
    by (simp add: client_laws_def demo_admin_def demo_client_def demo_env_def demo_find_def distributor_seeds_def)
qed

theorem commands_are_runs_witness:
  "\<exists>w' tr. cli_main demo_services demo_args (NewDistributorCmd demo_cmd) demo_world = Some (w', True)
     \<and> run (ki_env demo_admin) demo_fresh tr (wd_chain w') \<and> list_all (signed_by {Pubkey 2}) tr
     \<and> ch_distributors (wd_chain w') (Pubkey 10) \<noteq> None"
proof -
  obtain f where f: "read_dir ''trees'' (wd_disk demo_world) = Some [f]" "tf_tree f = tf_tree demo_tree_file"
    by (simp add: read_dir_def is_dir_def demo_world_def parent_of_def tree_file_of_def demo_tree_file_def)
  let ?w = "demo_world\<lparr>wd_chain := demo_fresh\<lparr>ch_distributors := (\<lambda>_. None)(Pubkey 10 \<mapsto> demo_distributor 0 0 0 False)\<rparr>\<rparr>"
  have ctx: "sv_ctx demo_services = demo_ctx (I64 50) (Pubkey 2)" "sv_env demo_services = ki_env demo_admin"
    "nx_merkle_tree_path demo_cmd = ''trees''" "wd_chain demo_world = demo_fresh"
    by (simp_all add: demo_services_def demo_cmd_def demo_world_def)
  have ended: "cli_main demo_services demo_args (NewDistributorCmd demo_cmd) demo_world = Some (?w, True)"
    using demo_deploys [OF f(2)] f(1) by (simp add: run_new_distributor_def unwrap_def demo_payer on_chain_def ctx)
  have "initial demo_fresh" by (simp add: initial_def demo_fresh_def demo_start_def)
  moreover have "command_laws demo_services demo_args" "env_ok (sv_env demo_services)"
    using demo_admin_laws by (simp_all add: command_laws_def demo_payer ctx client_laws_def)
  ultimately obtain tr where "run (ki_env demo_admin) demo_fresh tr (wd_chain ?w)" "list_all (signed_by {Pubkey 2}) tr"
    using commands_are_runs [OF _ _ _ run.start [of "sv_env demo_services" "wd_chain demo_world"] ended] by (auto simp: ctx demo_payer)
  with ended show ?thesis by (intro exI [of _ ?w] exI [of _ tr]) simp
qed

end
