(* ===== verification/Deploy_Scripts.thy ===== *)
theory Deploy_Scripts
  imports Cli_Runs
begin

text \<open>
  The deployment scripts of \<^verbatim>\<open>scripts/deploy-merkle-trees\<close>: \<^verbatim>\<open>deploy-common.sh\<close>, \<^verbatim>\<open>deploy-dfx.sh\<close>, \<^verbatim>\<open>fund-dfx.sh\<close>,
  \<^verbatim>\<open>deploy-if.sh\<close> and \<^verbatim>\<open>fund-if.sh\<close>, which call the commands of theory \<open>Cli_Main\<close> one after the other.

  A script changes the world through commands and ends with status zero or not. All run under \<^verbatim>\<open>set -e\<close>: a failing command
  ends the script, except inside a function that is called as the condition of an \<^verbatim>\<open>if\<close>, where the shell ignores the
  setting. The flag \<open>errexit\<close> says which of the two holds. Flags of the scripts are given after parsing; the checks for
  installed programs and the messages are left out. The numbers of the configuration are integers.
\<close>

section \<open>The shell\<close>

definition step_then :: "bool \<Rightarrow> result option \<Rightarrow> (world \<Rightarrow> result option) \<Rightarrow> result option" where
  "step_then errexit r f = Option.bind r (\<lambda>(w, status). if errexit \<and> \<not> status then Some (w, False) else f w)"

definition is_file :: "disk \<Rightarrow> string \<Rightarrow> bool" where
  "is_file d p \<longleftrightarrow> (case map_of d p of Some x \<Rightarrow> \<not> is_directory x | None \<Rightarrow> False)"

definition mkdir_p :: "string \<Rightarrow> world \<Rightarrow> result option" where
  "mkdir_p p w = Some (case create_dir_all p (wd_disk w) of None \<Rightarrow> (w, False) | Some d \<Rightarrow> (w\<lparr>wd_disk := d\<rparr>, True))"

text \<open>\<^verbatim>\<open>rm -f "$dir"/tree_*.json\<close>: directories that match are not removed and make it fail.\<close>

definition is_tree_name :: "string \<Rightarrow> bool" where
  "is_tree_name name \<longleftrightarrow> take 5 name = ''tree_'' \<and> 10 \<le> length name \<and> drop (length name - 5) name = ''.json''"

definition stale :: "string \<Rightarrow> string \<Rightarrow> bool" where
  "stale dir p \<longleftrightarrow> p \<noteq> [] \<and> parent_of p = dir \<and> is_tree_name (file_name p)"

definition rm_trees :: "string \<Rightarrow> world \<Rightarrow> result option" where
  "rm_trees dir w =
     Some (w\<lparr>wd_disk := filter (\<lambda>(p, x). \<not> stale dir p \<or> is_directory x) (wd_disk w)\<rparr>,
       list_all (\<lambda>(p, x). \<not> (stale dir p \<and> is_directory x)) (wd_disk w))"

section \<open>Shared settings\<close>

definition is_set :: "string option \<Rightarrow> bool" where
  "is_set v \<longleftrightarrow> (case v of Some x \<Rightarrow> x \<noteq> [] | None \<Rightarrow> False)"

definition first_set :: "string option \<Rightarrow> string option \<Rightarrow> string \<Rightarrow> string" where
  "first_set flag setting fallback = (if is_set flag then the flag else if is_set setting then the setting else fallback)"

fun expand_tilde :: "string \<Rightarrow> string \<Rightarrow> string" where
  "expand_tilde home (x # p) = (if x = CHR ''~'' then home @ p else x # p)"
| "expand_tilde home [] = []"

record shared =
  sh_keypair_path :: string
  sh_start_vesting_ts :: int
  sh_end_vesting_ts :: int
  sh_clawback_start_ts :: int
  sh_enable_slot :: int
  sh_max_nodes_per_tree :: int
  sh_closable :: bool
  sh_start_airdrop_version :: "int option"

text \<open>\<open>None\<close> is the exit with status one. The sum is of 64-bit integers and wraps.\<close>

definition load_shared_config :: "string \<Rightarrow> deploy_config \<Rightarrow> shared option" where
  "load_shared_config home cfg =
     (case (dc_start_vesting_ts cfg, dc_clawback_start_ts cfg, dc_enable_slot cfg, dc_max_nodes_per_tree cfg) of
        (Some start, Some clawback_ts, Some slot, Some max_nodes) \<Rightarrow>
          if is_set (dc_rpc_url cfg) \<and> is_set (dc_program_id cfg) \<and> is_set (dc_keypair_path cfg) \<and> 0 \<le> start
          then Some \<lparr>sh_keypair_path = expand_tilde home (the (dc_keypair_path cfg)), sh_start_vesting_ts = start,
                 sh_end_vesting_ts = sint (word_of_int start + 1 :: 64 word), sh_clawback_start_ts = clawback_ts,
                 sh_enable_slot = slot, sh_max_nodes_per_tree = max_nodes, sh_closable = dc_closable cfg,
                 sh_start_airdrop_version = dc_start_airdrop_version cfg\<rparr>
          else None
      | _ \<Rightarrow> None)"

section \<open>The commands of a market\<close>

text \<open>The values as the command line takes them: a number that does not fit the type is refused, and so is one with a minus
  sign, which is taken for an option.\<close>

definition i64_flag :: "int \<Rightarrow> i64 option" where
  "i64_flag n = (if 0 \<le> n \<and> n < 2 ^ 63 then Some (i64_of n) else None)"

definition u64_flag :: "int \<Rightarrow> u64 option" where
  "u64_flag n = (if 0 \<le> n \<and> n < 2 ^ 64 then Some (word_of_int n) else None)"

definition u64_option_flag :: "int option \<Rightarrow> u64 option option" where
  "u64_option_flag v = (case v of None \<Rightarrow> Some None | Some n \<Rightarrow> map_option Some (u64_flag n))"

definition market_args :: "shared \<Rightarrow> pubkey \<Rightarrow> args" where
  "market_args sh m = \<lparr>ar_mint = m, ar_keypair_path = Some (sh_keypair_path sh)\<rparr>"

text \<open>A command line that does not parse fails and does nothing.\<close>

definition run_cli :: "services \<Rightarrow> (args \<times> commands) option \<Rightarrow> world \<Rightarrow> result option" where
  "run_cli s parsed w = (case parsed of None \<Rightarrow> Some (w, False) | Some (a, cmd) \<Rightarrow> cli_main s a cmd w)"

definition gen_command :: "services \<Rightarrow> shared \<Rightarrow> string \<Rightarrow> string \<Rightarrow> string \<Rightarrow> (args \<times> commands) option" where
  "gen_command s sh mint csv_path tree_dir =
     Option.bind (sv_parse s mint) (\<lambda>m.
     Option.bind (u64_flag (sh_max_nodes_per_tree sh)) (\<lambda>max_nodes.
     Option.bind (u64_option_flag (sh_start_airdrop_version sh)) (\<lambda>start_version.
     Some (market_args sh m, CreateMerkleTree
       \<lparr>ca_csv_path = csv_path, ca_merkle_tree_path = tree_dir, ca_max_nodes_per_tree = max_nodes, ca_should_include_test_list = False,
        ca_amount = 0, ca_decimals = 0, ca_csv_amount_unit = CliTokens, ca_start_airdrop_version = start_version\<rparr>))))"

definition dist_args :: "shared \<Rightarrow> string \<Rightarrow> new_distributor_cmd option" where
  "dist_args sh tree_dir =
     Option.bind (i64_flag (sh_start_vesting_ts sh)) (\<lambda>start.
     Option.bind (i64_flag (sh_end_vesting_ts sh)) (\<lambda>stop.
     Option.bind (i64_flag (sh_clawback_start_ts sh)) (\<lambda>clawback_ts.
     Option.bind (u64_flag (sh_enable_slot sh)) (\<lambda>slot.
     Some \<lparr>nx_start_vesting_ts = start, nx_end_vesting_ts = stop, nx_merkle_tree_path = tree_dir, nx_clawback_start_ts = clawback_ts,
       nx_enable_slot = slot, nx_airdrop_version = None, nx_closable = sh_closable sh, nx_skip_verify = False\<rparr>))))"

definition dist_command :: "services \<Rightarrow> shared \<Rightarrow> string \<Rightarrow> string \<Rightarrow> (args \<times> commands) option" where
  "dist_command s sh mint tree_dir =
     Option.bind (sv_parse s mint) (\<lambda>m. map_option (\<lambda>nargs. (market_args sh m, NewDistributorCmd nargs)) (dist_args sh tree_dir))"

definition fund_command :: "services \<Rightarrow> shared \<Rightarrow> string \<Rightarrow> string \<Rightarrow> (args \<times> commands) option" where
  "fund_command s sh mint tree_dir = map_option (\<lambda>m. (market_args sh m, FundAll tree_dir)) (sv_parse s mint)"

definition deploy_market :: "bool \<Rightarrow> services \<Rightarrow> shared \<Rightarrow> bool \<Rightarrow> string \<Rightarrow> string \<Rightarrow> string \<Rightarrow> world \<Rightarrow> result option" where
  "deploy_market errexit s sh dry_run mint csv_path tree_dir w =
     (if dry_run then Some (w, True)
      else if \<not> is_file (wd_disk w) csv_path then Some (w, False)
      else
        step_then errexit (mkdir_p tree_dir w) (\<lambda>w1.
        step_then errexit (rm_trees tree_dir w1) (\<lambda>w2.
        step_then errexit (run_cli s (gen_command s sh mint csv_path tree_dir) w2) (\<lambda>w3.
        run_cli s (dist_command s sh mint tree_dir) w3))))"

definition fund_market :: "services \<Rightarrow> shared \<Rightarrow> bool \<Rightarrow> string \<Rightarrow> string \<Rightarrow> world \<Rightarrow> result option" where
  "fund_market s sh dry_run mint tree_dir w =
     (if dry_run then Some (w, True)
      else if \<not> is_dir (wd_disk w) tree_dir then Some (w, False)
      else run_cli s (fund_command s sh mint tree_dir) w)"

definition aggregate_if :: "services \<Rightarrow> string \<Rightarrow> string \<Rightarrow> string \<Rightarrow> world \<Rightarrow> result option" where
  "aggregate_if s config raw_dir processed_dir w =
     step_then True (mkdir_p processed_dir w) (\<lambda>w1.
     cli_main s \<lparr>ar_mint = Pubkey 0, ar_keypair_path = None\<rparr> (AggregateIfCsvs
       \<lparr>ag_config = config, ag_csv_dir = Some raw_dir, ag_out_csv_dir = processed_dir,
        ag_out_config = join_path processed_dir ''merged-config.json''\<rparr>) w1)"

section \<open>The scripts\<close>

record script_flags =
  sf_config :: string
  sf_csv_dir :: "string option"
  sf_trees_dir :: "string option"
  sf_start_index :: "int option"
  sf_dry_run :: bool

text \<open>The configuration and the shared settings, or the exit with status one.\<close>

definition preflight :: "string \<Rightarrow> script_flags \<Rightarrow> world \<Rightarrow> (deploy_config \<times> shared) option" where
  "preflight home fl w =
     Option.bind (Option.bind (map_of (wd_disk w) (sf_config fl)) as_config) (\<lambda>cfg.
     map_option (\<lambda>sh. (cfg, sh)) (load_shared_config home cfg))"

definition deploy_dfx :: "services \<Rightarrow> string \<Rightarrow> script_flags \<Rightarrow> world \<Rightarrow> result option" where
  "deploy_dfx s home fl w =
     (case preflight home fl w of
        None \<Rightarrow> Some (w, False)
      | Some (cfg, sh) \<Rightarrow>
          if \<not> is_set (dc_mint cfg) \<or> \<not> is_set (dc_symbol cfg) then Some (w, False)
          else
            let csv_dir = first_set (sf_csv_dir fl) (ic_csv_dir cfg) ''./dfx-csv'';
                trees_dir = first_set (sf_trees_dir fl) (dc_trees_dir cfg) ''./dfx-trees'';
                csv_path = first_set (dc_csv_path cfg) None (join_path csv_dir (the (dc_symbol cfg) @ ''.csv'')) in
            deploy_market True s sh (sf_dry_run fl) (the (dc_mint cfg)) csv_path trees_dir w)"

definition fund_dfx :: "services \<Rightarrow> string \<Rightarrow> script_flags \<Rightarrow> world \<Rightarrow> result option" where
  "fund_dfx s home fl w =
     (case preflight home fl w of
        None \<Rightarrow> Some (w, False)
      | Some (cfg, sh) \<Rightarrow>
          if \<not> is_set (dc_mint cfg) \<or> \<not> is_set (dc_symbol cfg) then Some (w, False)
          else
            fund_market s sh (sf_dry_run fl) (the (dc_mint cfg)) (first_set (sf_trees_dir fl) (dc_trees_dir cfg) ''./dfx-trees'') w)"

text \<open>The loop over the markets of the merged configuration, with the ones that succeeded and failed.\<close>

definition complete_market :: "if_market \<Rightarrow> bool" where
  "complete_market m \<longleftrightarrow> im_symbol m \<notin> {[], ''null''} \<and> im_mint m \<notin> {[], ''null''}"

fun each_market ::
  "(if_market \<Rightarrow> world \<Rightarrow> result option) \<Rightarrow> int option \<Rightarrow> if_market list \<Rightarrow> if_market list \<Rightarrow> if_market list \<Rightarrow> world
   \<Rightarrow> (world \<times> if_market list \<times> if_market list) option" where
  "each_market f start_index [] oks fails w = Some (w, oks, fails)"
| "each_market f start_index (m # ms) oks fails w =
     (if \<not> complete_market m then each_market f start_index ms oks (fails @ [m]) w
      else if start_index \<noteq> None \<and> uint (im_index m) < the start_index then each_market f start_index ms oks fails w
      else
        Option.bind (f m w) (\<lambda>(w', status).
        if status then each_market f start_index ms (oks @ [m]) fails w'
        else each_market f start_index ms oks (fails @ [m]) w'))"

definition over_markets ::
  "(if_market \<Rightarrow> world \<Rightarrow> result option) \<Rightarrow> int option \<Rightarrow> string \<Rightarrow> world \<Rightarrow> result option" where
  "over_markets f start_index config w =
     (case Option.bind (map_of (wd_disk w) config) as_config of
        None \<Rightarrow> Some (w, False)
      | Some cfg \<Rightarrow>
          if ic_markets cfg = [] then Some (w, False)
          else map_option (\<lambda>(w', oks, fails). (w', fails = [])) (each_market f start_index (ic_markets cfg) [] [] w))"

definition deploy_if :: "services \<Rightarrow> string \<Rightarrow> script_flags \<Rightarrow> world \<Rightarrow> result option" where
  "deploy_if s home fl w =
     (case preflight home fl w of
        None \<Rightarrow> Some (w, False)
      | Some (cfg, sh) \<Rightarrow>
          let csv_dir = first_set (sf_csv_dir fl) (ic_csv_dir cfg) ''./if-csv'';
              trees_dir = first_set (sf_trees_dir fl) (dc_trees_dir cfg) ''./if-trees'';
              processed = join_path csv_dir ''processed'' in
          step_then True (aggregate_if s (sf_config fl) (join_path csv_dir ''raw'') processed w) (\<lambda>w1.
          over_markets (\<lambda>m. deploy_market False s sh (sf_dry_run fl) (im_mint m)
              (join_path processed (label (im_index m) (im_symbol m) @ ''.csv'')) (join_path trees_dir (label (im_index m) (im_symbol m))))
            (sf_start_index fl) (join_path processed ''merged-config.json'') w1))"

definition fund_if :: "services \<Rightarrow> string \<Rightarrow> script_flags \<Rightarrow> world \<Rightarrow> result option" where
  "fund_if s home fl w =
     (case preflight home fl w of
        None \<Rightarrow> Some (w, False)
      | Some (cfg, sh) \<Rightarrow>
          let csv_dir = first_set (sf_csv_dir fl) (ic_csv_dir cfg) ''./if-csv'';
              trees_dir = first_set (sf_trees_dir fl) (dc_trees_dir cfg) ''./if-trees'';
              processed = join_path csv_dir ''processed'';
              merged = join_path processed ''merged-config.json'' in
          step_then True (if is_file (wd_disk w) merged then Some (w, True)
              else aggregate_if s (sf_config fl) (join_path csv_dir ''raw'') processed w) (\<lambda>w1.
          over_markets (\<lambda>m. fund_market s sh (sf_dry_run fl) (im_mint m) (join_path trees_dir (label (im_index m) (im_symbol m))))
            (sf_start_index fl) merged w1))"

section \<open>Files and steps\<close>

lemma step_then_ok:
  assumes "step_then True r f = Some (w', True)"
  obtains w1 where "r = Some (w1, True)" "f w1 = Some (w', True)"
  using assms by (cases r) (auto simp: step_then_def split: if_splits)

lemma create_dir_all_keeps:
  "create_dir_all p d = Some d' \<Longrightarrow> (map_of d q = Some x \<longrightarrow> map_of d' q = Some x) \<and> (distinct (map fst d) \<longrightarrow> distinct (map fst d'))"
proof (induction p d arbitrary: d' rule: create_dir_all.induct)
  case (1 p d)
  show ?case
  proof (cases "p = [] \<or> map_of d p \<noteq> None")
    case True
    then show ?thesis using "1.prems" by (auto simp: create_dir_all.simps [of p d] split: if_splits option.splits)
  next
    case False
    then obtain d1 where d1: "create_dir_all (parent_of p) d = Some d1" "d' = AList.update p Directory d1"
      using "1.prems" by (auto simp: create_dir_all.simps [of p d])
    with "1.IH" [of d1] False show ?thesis by (auto simp: update_conv' distinct_update)
  qed
qed

lemma tree_name: "slash \<notin> set (''tree_'' @ show_u64 v @ ''.json'')"
  using show_nat_digits [of slash "unat v"] by (auto simp: show_u64_def)

lemma parent_of_tree [simp]: "parent_of (tree_path dir v) = dir"
  unfolding tree_path_def by (rule parent_of_join [OF tree_name])

lemma listed_tree:
  assumes "read_dir dir d = Some files" "distinct (map fst d)" "map_of d (tree_path dir v) = Some x"
  shows "tree_file_of (tree_path dir v, x) \<in> set files"
proof -
  have "tree_path dir v \<noteq> []" by (simp add: tree_path_def join_path_def)
  with assms(3) show ?thesis
    unfolding read_dir_iff [OF assms(1,2)] by (intro exI [of _ "tree_path dir v"] exI [of _ x]) simp
qed

lemma tree_path_inj: "tree_path dir v = tree_path dir w \<longleftrightarrow> v = w"
  by (simp add: tree_path_def join_path_def show_u64_def inj_eq [OF inj_show_nat] word_unat_eq_iff)

lemma tree_path_extension [simp]: "extension_of (tree_path dir v) = Some ''json''"
proof -
  have "file_name (tree_path dir v) = ''tree_'' @ show_u64 v @ ''.json''"
    unfolding tree_path_def by (rule file_name_join [OF tree_name])
  then show ?thesis by (simp add: extension_of_def)
qed

lemma trees_for_versions:
  assumes "trees_for limit version rows trees"
  shows "distinct (map fst trees)"
proof -
  have "map unat (map fst trees) = [unat version..<unat version + length trees]"
    using assms by (simp add: trees_for_def)
  then have "distinct (map unat (map fst trees))" by (simp only: distinct_upt)
  then show ?thesis unfolding distinct_map by blast
qed

lemma u64_flag_nat:
  assumes "u64_flag x = Some n"
  shows "unat n = nat x"
proof -
  have "0 \<le> x" "x < 2 ^ 64" "n = word_of_int x" using assms by (simp_all add: u64_flag_def split: if_splits)
  then show ?thesis by (simp add: unsigned_of_int take_bit_int_eq_self)
qed

lemma from_csv_base_units:
  "from_csv parse e 0 Tokens = Inr n \<Longrightarrow>
   parse (ce_pubkey e) = Some (tn_claimant n) \<and> tn_amount n = ce_amount e \<and> tn_locked_amount n = ce_locked_amount e"
  by (auto simp: from_csv_def csv_amount_to_base_units_def checked_pow_def checked_mul_def ok_iff split: option.splits if_splits)

section \<open>Creating keeps what funding needs\<close>

lemma create_distributors_keeps:
  assumes "\<And>c c'. P c \<Longrightarrow> get_or_create_ata k (ki_payer k) c = (c', True) \<Longrightarrow> P c'"
    and "\<And>c c' t missing. P c \<Longrightarrow> send_new_distributor k cx args t missing c = (c', True) \<Longrightarrow> P c'"
  shows "create_distributors k cx args files c = (c', True) \<Longrightarrow> P c \<Longrightarrow> P c'"
proof (induction files arbitrary: c)
  case (Cons f fs)
  have same: "c2 = c1" if "expect_match k args t c1 = (c2, True)" for c1 c2 t using that by (rule expect_match_ok(1))
  show ?case
  proof (cases "tf_tree f")
    case None
    with Cons show ?thesis by simp
  next
    case (Some t)
    show ?thesis
    proof (cases "nx_airdrop_version args \<noteq> None \<and> nx_airdrop_version args \<noteq> Some (at_airdrop_version t)
        \<or> account_at c (distributor_of k t) \<noteq> None")
      case True
      with Cons.prems Some have "create_distributors k cx args fs c = (c', True)"
        by (auto simp: and_run_ok dest: same split: if_splits)
      with Cons show ?thesis by blast
    next
      case False
      with Cons.prems(1) Some obtain c1 c2 c3 missing where c: "get_or_create_ata k (ki_payer k) c = (c1, True)"
        "send_new_distributor k cx args t missing c1 = (c2, True)" "c3 = c2"
        "c' = c3 \<or> create_distributors k cx args fs c3 = (c', True)"
        by (auto simp: and_run_ok Let_def dest: same split: if_splits)
      from assms(2) [OF assms(1) [OF Cons.prems(2) c(1)] c(2)] c(3,4) Cons.IH show ?thesis by blast
    qed
  qed
qed simp

lemma created_keeps_accounts:
  assumes "client_laws k" "ki_create_ata k user (ki_mint k) l = Inr l'" "lg_accounts l x = Some a"
  shows "lg_accounts l' x = Some a"
  using assms unfolding client_laws_def by blast

lemma send_new_distributor_keeps:
  assumes "client_laws k" "send_new_distributor k cx args t missing c = (c', True)"
  shows "lg_accounts (ch_ledger c) x = Some a \<Longrightarrow> lg_accounts (ch_ledger c') x = Some a"
    and "\<exists>md. ch_distributors c' = (ch_distributors c)(distributor_of k t \<mapsto> md) \<and> md_mint md = ki_mint k"
proof -
  define d where d: "d = distributor_of k t"
  from assms(2) obtain l where l: "(if missing then ki_create_ata k d (ki_mint k) (ch_ledger c) else Inr (ch_ledger c)) = Inr l"
    by (cases "if missing then ki_create_ata k d (ki_mint k) (ch_ledger c) else Inr (ch_ledger c)")
      (simp_all add: send_new_distributor_def Let_def d [symmetric])
  from assms(2) l obtain a na where "new_distributor (ki_env k) (payer_ctx k cx) a na (c\<lparr>ch_ledger := l\<rparr>) = Inr c'"
    "nd_distributor a = d" "nd_mint a = ki_mint k"
    by (auto simp: send_new_distributor_def Let_def d [symmetric] split: sum.splits)
  then obtain bump where "c' = c\<lparr>ch_ledger := l, ch_distributors := (ch_distributors c)(d \<mapsto> fresh_distributor a na bump)\<rparr>"
    "md_mint (fresh_distributor a na bump) = ki_mint k"
    by (auto elim!: new_distributorE simp: fresh_distributor_def)
  then show "lg_accounts (ch_ledger c) x = Some a \<Longrightarrow> lg_accounts (ch_ledger c') x = Some a"
    and "\<exists>md. ch_distributors c' = (ch_distributors c)(distributor_of k t \<mapsto> md) \<and> md_mint md = ki_mint k" for x a
    using l created_keeps_accounts [OF assms(1)] by (auto simp: d split: if_splits)
qed

lemma can_fund_created:
  assumes "client_laws k" "can_fund k c" "process_new_distributor k cx args files c = (c', True)"
  shows "can_fund k c'"
proof -
  let ?P = "\<lambda>c. (\<exists>s. lg_accounts (ch_ledger c) (ata k (ki_payer k)) = Some s \<and> ta_owner s = ki_payer k)
    \<and> (\<forall>version md. ch_distributors c (distributor_address k version) = Some md \<longrightarrow> md_mint md = ki_mint k)"
  have "?P c" using assms(2) by (simp add: can_fund_def)
  then have "?P c'"
  proof (rule create_distributors_keeps [of ?P, OF _ _ assms(3) [unfolded process_new_distributor_def], rotated 2])
    fix c c'
    assume h: "?P c" "get_or_create_ata k (ki_payer k) c = (c', True)"
    then have "c' = c \<or> (\<exists>l. c' = c\<lparr>ch_ledger := l\<rparr> \<and> ki_create_ata k (ki_payer k) (ki_mint k) (ch_ledger c) = Inr l)"
      by (auto simp: get_or_create_ata_def split: if_splits sum.splits)
    with h(1) created_keeps_accounts [OF assms(1)] show "?P c'" by fastforce
  next
    fix c c' t missing
    assume h: "?P c" "send_new_distributor k cx args t missing c = (c', True)"
    from send_new_distributor_keeps(2) [OF assms(1) h(2)] obtain md where
      md: "ch_distributors c' = (ch_distributors c)(distributor_of k t \<mapsto> md)" "md_mint md = ki_mint k" by blast
    have "\<exists>s. lg_accounts (ch_ledger c') (ata k (ki_payer k)) = Some s \<and> ta_owner s = ki_payer k"
      using h(1) send_new_distributor_keeps(1) [OF assms(1) h(2)] by blast
    moreover have "md_mint x = ki_mint k" if "ch_distributors c' (distributor_address k version) = Some x" for version x
      using that h(1) md by (auto split: if_splits)
    ultimately show "?P c'" by blast
  qed
  moreover have "good (ki_env k) c'"
    using tool_okD [OF process_new_distributor_reaches [OF assms(1)] _ assms(3)] reaches_good [OF assms(1)] assms(2)
    by (auto simp: can_fund_def)
  moreover from payer_no_distributor [OF assms(1) this] have "ch_distributors c' (ki_payer k) = None" .
  ultimately show ?thesis using assms(2) by (simp add: can_fund_def)
qed

section \<open>The three commands in a row\<close>

lemma gen_ok:
  assumes "run_cli s (gen_command s sh mint csv_path dir) w = Some (w', True)" "distinct (map fst (wd_disk w))"
  obtains entries rows trees version where "csv_new_from_file (sv_read_csv s) csv_path (wd_disk w) = Inr entries"
    "list_all2 (\<lambda>e n. from_csv (sv_parse s) e 0 Tokens = Inr n) entries rows"
    "trees_for (max (nat (sh_max_nodes_per_tree sh)) 3) version rows trees"
    "\<And>v t. (v, t) \<in> set trees \<Longrightarrow> map_of (wd_disk w') (tree_path dir v) = Some (Tree_file t) \<and> at_airdrop_version t = v"
    "wd_chain w' = wd_chain w" "distinct (map fst (wd_disk w'))"
proof -
  from assms(1) obtain m n v0 where cmd: "sv_parse s mint = Some m" "u64_flag (sh_max_nodes_per_tree sh) = Some n"
    "u64_option_flag (sh_start_airdrop_version sh) = Some v0"
    by (auto simp: run_cli_def gen_command_def split: option.splits bind_splits)
  define ca where "ca = \<lparr>ca_csv_path = csv_path, ca_merkle_tree_path = dir, ca_max_nodes_per_tree = n,
    ca_should_include_test_list = False, ca_amount = 0, ca_decimals = 0, ca_csv_amount_unit = CliTokens, ca_start_airdrop_version = v0\<rparr>"
  let ?a = "market_args sh m"
  let ?made = "\<lambda>es. process_create_merkle_tree (hashv (sv_env s)) (sv_parse s) (rpc_account s ?a (wd_chain w)) m ca es"
  have run: "run_create_merkle_tree s ?a ca w = (w', True)"
    using assms(1) cmd by (simp add: run_cli_def gen_command_def ca_def)
  then obtain es where es: "csv_new_from_file (sv_read_csv s) csv_path (wd_disk w) = Inr es" "write_trees w dir (?made es) = (w', True)"
    by (auto simp: run_create_merkle_tree_def ok_value_def market_args_def ca_def elim!: unwrap_cases split: if_splits sum.splits)
  obtain trees last where made: "?made es = (trees, Some last)"
    using es(2) by (cases "?made es") (auto simp: write_trees_def split: prod.splits)
  let ?files = "map (\<lambda>(v, t). (tree_path dir v, Tree_file t)) trees"
  have written: "write_files ?files (wd_disk w) = (wd_disk w', True)" "wd_chain w' = wd_chain w"
    using es(2) made by (auto simp: write_trees_def split: prod.splits)
  from create_merkle_tree_covers [OF made] obtain rows where rows: "converts (sv_parse s) ca es rows"
    "trees_for (max (unat n) 3) (start_version (rpc_account s ?a (wd_chain w)) m ca) rows trees"
    by (auto simp: trimmed_def ca_def get_test_list_def eval_nat_numeral)
  have "map fst ?files = map (tree_path dir) (map fst trees)" by (simp add: case_prod_unfold)
  then have "distinct (map fst ?files)"
    using trees_for_versions [OF rows(2)] by (simp add: distinct_map inj_on_def tree_path_inj)
  then have "map_of (wd_disk w') (tree_path dir v) = Some (Tree_file t)" if "(v, t) \<in> set trees" for v t
    using write_files_ok [OF written(1)] that by (auto simp: map_add_Some_iff intro!: map_of_is_SomeI)
  moreover have "at_airdrop_version t = v" if "(v, t) \<in> set trees" for v t
    using rows(2) that by (auto simp: trees_for_def list_all_iff)
  moreover have "unat n = nat (sh_max_nodes_per_tree sh)" by (rule u64_flag_nat [OF cmd(2)])
  moreover have "list_all2 (\<lambda>e n. from_csv (sv_parse s) e 0 Tokens = Inr n) es rows"
    using rows(1) by (simp add: converts_def ca_def)
  ultimately show thesis using that [OF es(1)] rows(2) written(2) write_files_distinct [OF written(1) assms(2)] by auto
qed

lemma on_chain_result: "on_chain w r = (w', e) \<Longrightarrow> r = (wd_chain w', e) \<and> wd_disk w' = wd_disk w"
  by (cases r) (auto simp: on_chain_def)

lemma dist_ok:
  assumes "run_cli s (dist_command s sh mint dir) w = Some (w', True)" "sv_parse s mint = Some m"
    and "sv_keypair s (sh_keypair_path sh) = Some p"
  obtains nargs files where "dist_args sh dir = Some nargs" "read_dir dir (wd_disk w) = Some files" "wd_disk w' = wd_disk w"
    "process_new_distributor (client_of s (market_args sh m) p) (sv_ctx s) nargs files (wd_chain w) = (wd_chain w', True)"
proof -
  from assms(1,2) obtain nargs where n: "dist_args sh dir = Some nargs" "run_new_distributor s (market_args sh m) nargs w = (w', True)"
    by (auto simp: run_cli_def dist_command_def split: option.splits)
  have "get_program_client s (market_args sh m) = Some (client_of s (market_args sh m) p)"
    using assms(3) by (simp add: get_program_client_def payer_key_def market_args_def)
  moreover have "nx_merkle_tree_path nargs = dir" using n(1) by (auto simp: dist_args_def split: bind_splits)
  ultimately obtain files where "read_dir dir (wd_disk w) = Some files"
    "on_chain w (process_new_distributor (client_of s (market_args sh m) p) (sv_ctx s) nargs files (wd_chain w)) = (w', True)"
    using n(2) by (auto simp: run_new_distributor_def elim!: unwrap_cases)
  with on_chain_result n(1) that show thesis by blast
qed

lemma fund_ok:
  assumes "fund_market s sh False mint dir w = Some (w', True)" "sv_parse s mint = Some m" "sv_keypair s (sh_keypair_path sh) = Some p"
  obtains files where "read_dir dir (wd_disk w) = Some files"
    "process_fund_all (client_of s (market_args sh m) p) files (wd_chain w) = (wd_chain w', True)"
proof -
  from assms(1,2) have "run_fund_all s (market_args sh m) dir w = (w', True)"
    by (simp add: fund_market_def run_cli_def fund_command_def split: if_splits)
  moreover have "get_program_client s (market_args sh m) = Some (client_of s (market_args sh m) p)"
    using assms(3) by (simp add: get_program_client_def payer_key_def market_args_def)
  ultimately obtain files where "read_dir dir (wd_disk w) = Some files"
    "on_chain w (process_fund_all (client_of s (market_args sh m) p) files (wd_chain w)) = (w', True)"
    by (auto simp: run_fund_all_def elim!: unwrap_cases)
  with on_chain_result that show thesis by blast
qed

text \<open>What is prepared before the trees are made leaves the chain alone and the CSV as it was.\<close>

lemma prepared:
  assumes "mkdir_p dir w = Some (w1, True)" "rm_trees dir w1 = Some (w2, e)" "distinct (map fst (wd_disk w))"
  shows "wd_chain w2 = wd_chain w" "distinct (map fst (wd_disk w2))"
    and "is_file (wd_disk w) q \<Longrightarrow> map_of (wd_disk w2) q = None \<or> map_of (wd_disk w2) q = map_of (wd_disk w) q"
proof -
  from assms(1) obtain d where d: "create_dir_all dir (wd_disk w) = Some d" "w1 = w\<lparr>wd_disk := d\<rparr>"
    by (auto simp: mkdir_p_def split: option.splits)
  have w2: "w2 = w1\<lparr>wd_disk := filter (\<lambda>(p, x). \<not> stale dir p \<or> is_directory x) d\<rparr>" using assms(2) d(2) by (simp add: rm_trees_def)
  have dis: "distinct (map fst d)" using create_dir_all_keeps [OF d(1)] assms(3) by blast
  show "wd_chain w2 = wd_chain w" "distinct (map fst (wd_disk w2))" using w2 d(2) dis by (simp_all add: distinct_map_filter)
  assume "is_file (wd_disk w) q"
  then obtain x where x: "map_of (wd_disk w) q = Some x" by (auto simp: is_file_def split: option.splits)
  then have "map_of d q = Some x" using create_dir_all_keeps [OF d(1)] by blast
  moreover have "y = x" if "map_of (wd_disk w2) q = Some y" for y
  proof -
    have "(q, y) \<in> set d" using map_of_SomeD [OF that] w2 by auto
    then have "map_of d q = Some y" using dis by simp
    with calculation show ?thesis by simp
  qed
  ultimately show "map_of (wd_disk w2) q = None \<or> map_of (wd_disk w2) q = map_of (wd_disk w) q" using x by (cases "map_of (wd_disk w2) q") auto
qed

section \<open>A failed step that goes unnoticed\<close>

text \<open>\<^verbatim>\<open>deploy-if.sh\<close> calls \<^verbatim>\<open>deploy_market\<close> as the condition of an \<^verbatim>\<open>if\<close>. When the trees cannot be made, for a row that
  does not convert say, the creation of distributors still runs, finds no trees and succeeds: the market counts as
  deployed, and the script ends with status zero. Under \<^verbatim>\<open>set -e\<close>, as in \<^verbatim>\<open>deploy-dfx.sh\<close>, the same failure ends the script.\<close>

lemma failed_trees_unnoticed:
  assumes "is_file (wd_disk w) csv_path" "mkdir_p dir w = Some (w1, True)" "rm_trees dir w1 = Some (w2, True)"
    and "run_cli s (gen_command s sh mint csv_path dir) w2 = Some (w2, False)"
    and "sv_parse s mint = Some m" "sv_keypair s (sh_keypair_path sh) = Some p" "dist_args sh dir = Some nargs"
    and "read_dir dir (wd_disk w2) = Some []"
  shows "deploy_market False s sh False mint csv_path dir w = Some (w2, True)"
    and "deploy_market True s sh False mint csv_path dir w = Some (w2, False)"
proof -
  have "get_program_client s (market_args sh m) = Some (client_of s (market_args sh m) p)"
    using assms(6) by (simp add: get_program_client_def payer_key_def market_args_def)
  moreover have "nx_merkle_tree_path nargs = dir" using assms(7) by (auto simp: dist_args_def split: bind_splits)
  ultimately have "run_cli s (dist_command s sh mint dir) w2 = Some (w2, True)"
    using assms(5,7,8)
    by (simp add: run_cli_def dist_command_def run_new_distributor_def unwrap_def process_new_distributor_def by_path_def on_chain_def)
  then show "deploy_market False s sh False mint csv_path dir w = Some (w2, True)"
    and "deploy_market True s sh False mint csv_path dir w = Some (w2, False)"
    using assms(1-4) by (simp_all add: deploy_market_def step_then_def)
qed

lemma unnoticed_in_summary:
  assumes "f m w = Some (w', True)" "complete_market m" "map_of (wd_disk w) config = Some (Config_file cfg)" "ic_markets cfg = [m]"
  shows "over_markets f None config w = Some (w', True)"
  using assms by (simp add: over_markets_def)

section \<open>Properties\<close>

definition market_ready :: "client \<Rightarrow> chain \<Rightarrow> bool" where
  "market_ready k c \<longleftrightarrow> client_laws k \<and> creates_ata k \<and> only_distributors k c \<and> can_fund k c"


definition demo_market_services :: services where
  "demo_market_services = demo_services\<lparr>sv_read_csv := (\<lambda>_. Some (mm_entries demo_merged)),
     sv_parse := (\<lambda>x. if x = ''mint'' then Some (Pubkey 5) else demo_parse x)\<rparr>"

definition demo_shared :: shared where
  "demo_shared = \<lparr>sh_keypair_path = ''key.json'', sh_start_vesting_ts = 100, sh_end_vesting_ts = 101, sh_clawback_start_ts = 100000,
     sh_enable_slot = 0, sh_max_nodes_per_tree = 10, sh_closable = False, sh_start_airdrop_version = Some 0\<rparr>"

definition demo_purse :: "u64 \<Rightarrow> u64 \<Rightarrow> ledger" where
  "demo_purse vault source =
     \<lparr>lg_accounts = (\<lambda>_. None)(Pubkey 11 \<mapsto> demo_account (Pubkey 10) vault, Pubkey 70 \<mapsto> demo_account (Pubkey 2) source),
      lg_supply = (\<lambda>_. None)(Pubkey 5 \<mapsto> 5000)\<rparr>"

definition demo_market :: world where
  "demo_market = \<lparr>wd_chain = demo_fresh\<lparr>ch_ledger := demo_purse 0 1000\<rparr>, wd_disk = [(''rows.csv'', Csv_file [])], wd_reports = []\<rparr>"

lemma demo_market_client: "client_of demo_market_services (market_args demo_shared (Pubkey 5)) (Pubkey 2) = demo_admin"
  by (simp add: client_of_def demo_market_services_def demo_services_def market_args_def demo_admin_def demo_client_def)

lemma demo_gen:
  obtains tree where "at_airdrop_version tree = 0" "at_max_total_claim tree = 15"
    "run_cli demo_market_services (gen_command demo_market_services demo_shared ''mint'' ''rows.csv'' ''trees'')
       (demo_market\<lparr>wd_disk := [(''rows.csv'', Csv_file []), (''trees'', Directory)]\<rparr>)
     = Some (demo_market\<lparr>wd_disk := [(''rows.csv'', Csv_file []), (''trees'', Directory), (''trees/tree_0.json'', Tree_file tree)]\<rparr>, True)"
proof -
  let ?row = "\<lparr>tn_claimant = Pubkey 1, tn_amount = 12, tn_locked_amount = Some 3, tn_proof = None\<rparr>"
  let ?h = "hashv (sv_env demo_market_services)"
  obtain tree where tree: "airdrop_new ?h [?row] 0 = Inr tree" "built_from ?h [?row] tree" "at_airdrop_version tree = 0"
    by (rule airdrop_new_ok [of "[?row]" ?h 0]) (auto simp: node_total_def node_locked_amount_def)
  have "unat (at_max_total_claim tree) = 15" using tree(2) by (simp add: built_from_def node_total_def node_locked_amount_def)
  then have total: "at_max_total_claim tree = 15" by (simp add: word_unat_eq_iff)
  define ca where "ca = \<lparr>ca_csv_path = ''rows.csv'', ca_merkle_tree_path = ''trees'', ca_max_nodes_per_tree = 10,
    ca_should_include_test_list = False, ca_amount = 0, ca_decimals = 0, ca_csv_amount_unit = CliTokens, ca_start_airdrop_version = Some 0\<rparr>"
  have "process_create_merkle_tree ?h (sv_parse demo_market_services) account (Pubkey 5) ca (mm_entries demo_merged)
      = ([(0, tree)], Some 0)" for account
    using tree(1)
    by (simp add: process_create_merkle_tree_def start_version_def trimmed_def shard_trees.simps write_tree_def ca_def
        new_from_entries_def demo_merged_def from_csv_def csv_amount_to_base_units_def checked_pow_def
        checked_mul_def checked_add_def checked_sub_def demo_parse_def demo_market_services_def)
  moreover have "gen_command demo_market_services demo_shared ''mint'' ''rows.csv'' ''trees''
      = Some (market_args demo_shared (Pubkey 5), CreateMerkleTree ca)"
    by (simp add: gen_command_def demo_market_services_def demo_shared_def u64_flag_def u64_option_flag_def ca_def)
  moreover have "char_of (48 :: nat) = CHR ''0''" by code_simp
  then have "tree_path ''trees'' 0 = ''trees/tree_0.json''"
    by (simp add: tree_path_def join_path_def show_u64_def show_nat.simps)
  ultimately have "run_cli demo_market_services (gen_command demo_market_services demo_shared ''mint'' ''rows.csv'' ''trees'')
       (demo_market\<lparr>wd_disk := [(''rows.csv'', Csv_file []), (''trees'', Directory)]\<rparr>)
     = Some (demo_market\<lparr>wd_disk := [(''rows.csv'', Csv_file []), (''trees'', Directory), (''trees/tree_0.json'', Tree_file tree)]\<rparr>, True)"
    by (simp add: run_cli_def run_create_merkle_tree_def market_args_def csv_new_from_file_def ok_value_def unwrap_def write_trees_def
        write_path_def is_dir_def parent_of_def ca_def demo_market_services_def demo_services_def)
  with that tree(3) total show thesis by blast
qed

definition demo_terms :: new_distributor_cmd where
  "demo_terms = \<lparr>nx_start_vesting_ts = I64 100, nx_end_vesting_ts = I64 101, nx_merkle_tree_path = ''trees'',
     nx_clawback_start_ts = I64 100000, nx_enable_slot = 0, nx_airdrop_version = None, nx_closable = False, nx_skip_verify = False\<rparr>"

definition demo_deployed :: "airdrop_merkle_tree \<Rightarrow> merkle_distributor" where
  "demo_deployed t = (demo_distributor 0 0 0 False)\<lparr>md_root := at_merkle_root t, md_max_total_claim := at_max_total_claim t,
     md_max_num_nodes := at_max_num_nodes t, md_end_ts := I64 101\<rparr>"

lemma demo_send:
  assumes "at_airdrop_version t = 0"
  shows "send_new_distributor demo_admin (demo_ctx (I64 50) (Pubkey 2)) demo_terms t False (demo_fresh\<lparr>ch_ledger := demo_purse 0 1000\<rparr>)
    = (demo_fresh\<lparr>ch_ledger := demo_purse 0 1000, ch_distributors := (\<lambda>_. None)(Pubkey 10 \<mapsto> demo_deployed t)\<rparr>, True)"
  by (simp add: send_new_distributor_def demo_admin_addresses demo_terms_def Let_def assms)
    (simp add: demo_admin_def demo_client_def demo_purse_def demo_fresh_def demo_deployed_def demo_defs payer_ctx_def new_distributor_def
      check_new_distributor_def handle_new_distributor_def require_unused_def load_token_def load_mint_def
      require_signer_def require_associated_def merkle_distributor_default_def distributor_seeds_def admin_id_def
      checked_add_i64_def SECONDS_PER_DAY_def less_i64_def less_eq_i64_def ival_def i64_of_def)

lemma demo_dist:
  assumes "at_airdrop_version t = 0" "tf_tree f = Some t"
  shows "process_new_distributor demo_admin (demo_ctx (I64 50) (Pubkey 2)) demo_terms [f] (demo_fresh\<lparr>ch_ledger := demo_purse 0 1000\<rparr>)
    = (demo_fresh\<lparr>ch_ledger := demo_purse 0 1000, ch_distributors := (\<lambda>_. None)(Pubkey 10 \<mapsto> demo_deployed t)\<rparr>, True)"
proof -
  let ?c = "demo_fresh\<lparr>ch_ledger := demo_purse 0 1000\<rparr>"
  have acc: "account_at ?c (Pubkey 10) = None" "account_at ?c (Pubkey 11) = Some None" "account_at ?c (Pubkey 70) = Some None"
    by (simp_all add: account_at_def demo_purse_def demo_fresh_def demo_start_def)
  have "expect_match demo_admin demo_terms t (demo_fresh\<lparr>ch_ledger := demo_purse 0 1000, ch_distributors := (\<lambda>_. None)(Pubkey 10 \<mapsto> demo_deployed t)\<rparr>)
      = (demo_fresh\<lparr>ch_ledger := demo_purse 0 1000, ch_distributors := (\<lambda>_. None)(Pubkey 10 \<mapsto> demo_deployed t)\<rparr>, True)"
    by (simp add: expect_match_def demo_admin_addresses account_at_def check_distributor_onchain_matches_def
      demo_deployed_def demo_distributor_def demo_terms_def demo_purse_def demo_account_def)
  with demo_send [OF assms(1)] show ?thesis
    by (simp add: process_new_distributor_def by_path_def assms demo_admin_addresses acc Let_def get_or_create_ata_def)
      (simp add: demo_terms_def)
qed

lemma demo_fund:
  assumes "at_airdrop_version t = 0" "at_max_total_claim t = 15" "tf_tree f = Some t" "\<not> tf_is_dir f" "tf_extension f = Some ''json''"
  shows "process_fund_all demo_admin [f] (demo_fresh\<lparr>ch_ledger := demo_purse 0 1000, ch_distributors := (\<lambda>_. None)(Pubkey 10 \<mapsto> demo_deployed t)\<rparr>)
    = (demo_fresh\<lparr>ch_ledger := demo_purse 15 985, ch_distributors := (\<lambda>_. None)(Pubkey 10 \<mapsto> demo_deployed t)\<rparr>, True)"
proof -
  have "token_transfer (ki_env demo_admin) (Pubkey 70) (Pubkey 11) (Pubkey 2) 15 (demo_purse 0 1000) = Inr (demo_purse 15 985)"
    by (simp add: demo_admin_def demo_client_def demo_defs demo_purse_def ledger_transfer_def moved_def checked_sub_def checked_add_def fun_eq_iff)
  moreover have "lg_accounts (demo_purse 0 1000) (Pubkey 11) = Some (demo_account (Pubkey 10) 0)" by (simp add: demo_purse_def)
  ultimately show ?thesis
    by (simp add: process_fund_all_def by_path_def fund_file_def assms fund_tree_def demo_admin_addresses demo_deployed_def
        demo_distributor_def checked_sub_def demo_account_def Let_def)
qed

lemma demo_market_ready: "market_ready demo_admin (wd_chain demo_market)"
proof -
  let ?c = "demo_fresh\<lparr>ch_ledger := demo_purse 0 1000\<rparr>"
  have "creates_ata demo_admin" by (simp add: creates_ata_def demo_admin_addresses) (simp add: ata_def demo_admin_def demo_client_def)
  moreover have "only_distributors demo_admin ?c"
    by (simp add: only_distributors_def demo_admin_addresses account_at_def demo_purse_def demo_fresh_def demo_start_def)
  moreover have "good (ki_env demo_admin) ?c" by (simp add: good_def demo_fresh_def demo_start_def)
  with demo_admin_laws have "can_fund demo_admin ?c"
    by (simp add: can_fund_def client_laws_def env_ok_def demo_admin_addresses demo_purse_def demo_account_def demo_fresh_def demo_start_def)
  ultimately show ?thesis using demo_admin_laws by (simp add: market_ready_def demo_market_def)
qed

lemma demo_market_command:
  "get_program_client demo_market_services (market_args demo_shared (Pubkey 5)) = Some demo_admin"
  using demo_market_client
  by (simp add: get_program_client_def payer_key_def market_args_def demo_shared_def demo_market_services_def demo_services_def)

lemma demo_prepared:
  "mkdir_p ''trees'' demo_market = Some (demo_market\<lparr>wd_disk := [(''rows.csv'', Csv_file []), (''trees'', Directory)]\<rparr>, True)"
  "rm_trees ''trees'' (demo_market\<lparr>wd_disk := [(''rows.csv'', Csv_file []), (''trees'', Directory)]\<rparr>)
     = Some (demo_market\<lparr>wd_disk := [(''rows.csv'', Csv_file []), (''trees'', Directory)]\<rparr>, True)"
  by (simp_all add: mkdir_p_def demo_market_def create_dir_all.simps parent_of_def rm_trees_def stale_def)


end
