(* ===== verification/Bad_Debt.thy ===== *)
theory Bad_Debt
  imports Distributor_Live
begin

text \<open>
  The example program \<^verbatim>\<open>cpi-example/programs/bad-debt-example\<close>: a program that is itself a claimant of
  a distributor. \<open>claim_dfx\<close> calls the distributor's \<^verbatim>\<open>new_claim\<close> with the program's derived address as
  the signing claimant, after topping up the rent of the claim record; \<open>withdraw\<close> moves the tokens out
  for the admin that \<open>initialize\<close> recorded.

  The rent sysvar and the system program's transfer of lamports are parameters.
\<close>

section \<open>State and outside code\<close>

record config =
  cf_admin :: pubkey
  cf_bump :: u8

record bad_debt_state =
  bd_chain :: chain
  bd_configs :: "pubkey \<Rightarrow> config option"
  bd_lamports :: "pubkey \<Rightarrow> u64"

record bad_debt_env =
  bx_env :: env
  bx_id :: pubkey
  bx_minimum_balance :: "nat \<Rightarrow> u64"
  bx_system_transfer :: "pubkey \<Rightarrow> pubkey \<Rightarrow> u64 \<Rightarrow> (pubkey \<Rightarrow> u64) \<Rightarrow> string + (pubkey \<Rightarrow> u64)"

text \<open>The program's own error code, and the errors of the runtime and of the called programs.\<close>

datatype bad_debt_error = SignerNotAdmin | Program program_error

definition lamport_effect :: "bad_debt_env \<Rightarrow> bool" where
  "lamport_effect bx \<longleftrightarrow>
     (\<forall>from to amount l l'. bx_system_transfer bx from to amount l = Inr l' \<longrightarrow>
        from \<noteq> to \<longrightarrow> unat (l' to) = unat (l to) + unat amount)"

definition CONFIG_SEED :: "u8 list" where "CONFIG_SEED = ascii ''config''"

definition BAD_DEBT_SEED :: "u8 list" where "BAD_DEBT_SEED = ascii ''bad_debt''"

text \<open>\<^verbatim>\<open>8 + size_of::<ClaimStatus>()\<close>: two addresses, four amounts and a flag, padded to eight bytes.\<close>

definition CLAIM_STATUS_LEN :: nat where "CLAIM_STATUS_LEN = 8 + 104"

definition saturating_sub :: "u64 \<Rightarrow> u64 \<Rightarrow> u64" where
  "saturating_sub x y = (if y \<le> x then x - y else 0)"

definition bad_debt_authority :: "bad_debt_env \<Rightarrow> pubkey \<times> u8" where
  "bad_debt_authority bx = find_program_address (bx_env bx) [BAD_DEBT_SEED] (bx_id bx)"

section \<open>\<^verbatim>\<open>initialize\<close>\<close>

record initialize_accounts =
  in_config :: pubkey
  in_admin :: pubkey
  in_system_program :: pubkey

definition initialize ::
  "bad_debt_env \<Rightarrow> ctx \<Rightarrow> initialize_accounts \<Rightarrow> bad_debt_state \<Rightarrow> bad_debt_error + bad_debt_state" where
  "initialize bx cx a s =
     (let (address, bump) = find_program_address (bx_env bx) [CONFIG_SEED] (bx_id bx) in
     map_err Program (
     require (in_config a = address) (AnchorError ConstraintSeeds) (
     require (bd_configs s (in_config a) = None) (AnchorError AccountAlreadyInUse) (
     require_unused (bd_chain s) (in_config a) (
     require_signer cx (in_admin a) (
     require (in_system_program a = system_program_id (bx_env bx)) (AnchorError InvalidProgramId) (
     Inr (s\<lparr>bd_configs := (bd_configs s)(in_config a \<mapsto> \<lparr>cf_admin = in_admin a, cf_bump = bump\<rparr>)\<rparr>))))))))"

section \<open>\<^verbatim>\<open>claim_dfx\<close>\<close>

record claim_dfx_accounts =
  dx_payer :: pubkey
  dx_distributor :: pubkey
  dx_claim_status :: pubkey
  dx_from :: pubkey
  dx_to :: pubkey
  dx_authority :: pubkey
  dx_distributor_program :: pubkey
  dx_token_program :: pubkey
  dx_system_program :: pubkey

definition check_claim_dfx ::
  "bad_debt_env \<Rightarrow> ctx \<Rightarrow> claim_dfx_accounts \<Rightarrow> bad_debt_state \<Rightarrow> program_error + u8" where
  "check_claim_dfx bx cx a s =
     (let (authority, bump) = bad_debt_authority bx in
     require_signer cx (dx_payer a) (
     and_then (load_distributor (bd_chain s) (dx_distributor a)) (\<lambda>md.
     and_then (load_token (ch_ledger (bd_chain s)) (dx_from a)) (\<lambda>_.
     and_then (load_token (ch_ledger (bd_chain s)) (dx_to a)) (\<lambda>to.
     require (dx_distributor_program a = program_id (bx_env bx)) (AnchorError InvalidProgramId) (
     require (dx_token_program a = token_program_id (bx_env bx)) (AnchorError InvalidProgramId) (
     require (dx_system_program a = system_program_id (bx_env bx)) (AnchorError InvalidProgramId) (
     require (dx_from a = md_token_vault md) (AnchorError ConstraintAddress) (
     require (ta_mint to = md_mint md) (AnchorError ConstraintTokenMint) (
     require (ta_owner to = dx_authority a) (AnchorError ConstraintTokenOwner) (
     require (dx_authority a = authority) (AnchorError ConstraintSeeds) (
     Inr bump))))))))))))"

definition claim_dfx ::
  "bad_debt_env \<Rightarrow> ctx \<Rightarrow> claim_dfx_accounts \<Rightarrow> u64 \<Rightarrow> bytes32 list \<Rightarrow> bad_debt_state \<Rightarrow> bad_debt_error + bad_debt_state" where
  "claim_dfx bx cx a amount proof s =
     map_err Program (
     and_then (check_claim_dfx bx cx a s) (\<lambda>bump.
     let required = saturating_sub (bx_minimum_balance bx CLAIM_STATUS_LEN) (bd_lamports s (dx_claim_status a)) in
     and_then (if 0 < required
               then map_err CpiError (bx_system_transfer bx (dx_payer a) (dx_claim_status a) required (bd_lamports s))
               else Inr (bd_lamports s)) (\<lambda>lamports.
     require (create_program_address (bx_env bx) [BAD_DEBT_SEED, [bump]] (bx_id bx) = Some (dx_authority a))
       (AnchorError PrivilegeEscalation) (
     and_then (new_claim (bx_env bx) (cx\<lparr>cx_signers := dx_authority a # cx_signers cx\<rparr>)
         \<lparr>nc_distributor = dx_distributor a, nc_claim_status = dx_claim_status a, nc_from = dx_from a, nc_to = dx_to a,
          nc_claimant = dx_authority a, nc_token_program = dx_token_program a, nc_system_program = dx_system_program a\<rparr>
         amount 0 proof (bd_chain s)) (\<lambda>chain.
     Inr (s\<lparr>bd_chain := chain, bd_lamports := lamports\<rparr>))))))"

section \<open>\<^verbatim>\<open>withdraw\<close>\<close>

record withdraw_accounts =
  wd_config :: pubkey
  wd_admin :: pubkey
  wd_authority :: pubkey
  wd_from :: pubkey
  wd_destination :: pubkey
  wd_token_program :: pubkey

definition check_withdraw ::
  "bad_debt_env \<Rightarrow> ctx \<Rightarrow> withdraw_accounts \<Rightarrow> bad_debt_state \<Rightarrow> bad_debt_error + (token_account \<times> u8)" where
  "check_withdraw bx cx a s =
     (let (authority, bump) = bad_debt_authority bx in
     and_then (ok_or (bd_configs s (wd_config a)) (Program (AnchorError AccountNotInitialized))) (\<lambda>config.
     require (wd_admin a \<in> set (cx_signers cx)) (Program (AnchorError AccountNotSigner)) (
     and_then (map_err Program (load_token (ch_ledger (bd_chain s)) (wd_from a))) (\<lambda>from.
     and_then (map_err Program (load_token (ch_ledger (bd_chain s)) (wd_destination a))) (\<lambda>destination.
     require (wd_token_program a = token_program_id (bx_env bx)) (Program (AnchorError InvalidProgramId)) (
     require (create_program_address (bx_env bx) [CONFIG_SEED, [cf_bump config]] (bx_id bx) = Some (wd_config a))
       (Program (AnchorError ConstraintSeeds)) (
     require (cf_admin config = wd_admin a) SignerNotAdmin (
     require (wd_authority a = authority) (Program (AnchorError ConstraintSeeds)) (
     require (ta_owner from = wd_authority a) (Program (AnchorError ConstraintTokenOwner)) (
     require (ta_mint destination = ta_mint from) (Program (AnchorError ConstraintTokenMint)) (
     Inr (from, bump))))))))))))"

definition withdraw ::
  "bad_debt_env \<Rightarrow> ctx \<Rightarrow> withdraw_accounts \<Rightarrow> u64 \<Rightarrow> bad_debt_state \<Rightarrow> bad_debt_error + bad_debt_state" where
  "withdraw bx cx a amount s =
     and_then (check_withdraw bx cx a s) (\<lambda>(from, bump).
     let amount = (if amount = - 1 then ta_amount from else amount) in
     require (create_program_address (bx_env bx) [BAD_DEBT_SEED, [bump]] (bx_id bx) = Some (wd_authority a))
       (Program (AnchorError PrivilegeEscalation)) (
     and_then (map_err (\<lambda>e. Program (CpiError e))
       (token_transfer (bx_env bx) (wd_from a) (wd_destination a) (wd_authority a) amount (ch_ledger (bd_chain s)))) (\<lambda>ledger.
     Inr (s\<lparr>bd_chain := (bd_chain s)\<lparr>ch_ledger := ledger\<rparr>\<rparr>))))"

section \<open>The program\<close>

datatype bad_debt_instruction =
    Initialize initialize_accounts
  | ClaimDfx claim_dfx_accounts u64 "bytes32 list"
  | Withdraw withdraw_accounts u64

fun bad_debt_exec ::
  "bad_debt_env \<Rightarrow> ctx \<Rightarrow> bad_debt_instruction \<Rightarrow> bad_debt_state \<Rightarrow> bad_debt_error + bad_debt_state" where
  "bad_debt_exec bx cx (Initialize a) s = initialize bx cx a s"
| "bad_debt_exec bx cx (ClaimDfx a amount proof) s = claim_dfx bx cx a amount proof s"
| "bad_debt_exec bx cx (Withdraw a amount) s = withdraw bx cx a amount s"

section \<open>What a success means\<close>

lemma unused_passes:
  "require_unused c k r = Inr x \<Longrightarrow> r = Inr x"
  by (simp add: require_unused_def ok_iff)

lemma initializeE:
  assumes "initialize bx cx a s = Inr s'"
  obtains bump where "in_config a = fst (find_program_address (bx_env bx) [CONFIG_SEED] (bx_id bx))"
    "bd_configs s (in_config a) = None" "in_admin a \<in> set (cx_signers cx)"
    "s' = s\<lparr>bd_configs := (bd_configs s)(in_config a \<mapsto> \<lparr>cf_admin = in_admin a, cf_bump = bump\<rparr>)\<rparr>"
  using assms by (auto simp: initialize_def ok_iff dest!: unused_passes split: prod.splits)

abbreviation claim_accounts :: "claim_dfx_accounts \<Rightarrow> new_claim_accounts" where
  "claim_accounts a \<equiv>
     \<lparr>nc_distributor = dx_distributor a, nc_claim_status = dx_claim_status a, nc_from = dx_from a, nc_to = dx_to a,
      nc_claimant = dx_authority a, nc_token_program = dx_token_program a, nc_system_program = dx_system_program a\<rparr>"

lemma claim_dfxE:
  assumes "claim_dfx bx cx a amount proof s = Inr s'"
  obtains lamports c' where
    "new_claim (bx_env bx) (cx\<lparr>cx_signers := dx_authority a # cx_signers cx\<rparr>) (claim_accounts a) amount 0 proof (bd_chain s)
       = Inr c'"
    "dx_authority a = fst (bad_debt_authority bx)"
    "let required = saturating_sub (bx_minimum_balance bx CLAIM_STATUS_LEN) (bd_lamports s (dx_claim_status a)) in
       if 0 < required
       then bx_system_transfer bx (dx_payer a) (dx_claim_status a) required (bd_lamports s) = Inr lamports
       else lamports = bd_lamports s"
    "s' = s\<lparr>bd_chain := c', bd_lamports := lamports\<rparr>"
  using assms
  by (auto simp: claim_dfx_def check_claim_dfx_def ok_iff Let_def split: prod.splits if_splits)

lemma withdrawE:
  assumes "withdraw bx cx a amount s = Inr s'"
  obtains config source ledger where "bd_configs s (wd_config a) = Some config" "cf_admin config \<in> set (cx_signers cx)"
    "create_program_address (bx_env bx) [CONFIG_SEED, [cf_bump config]] (bx_id bx) = Some (wd_config a)"
    "lg_accounts (ch_ledger (bd_chain s)) (wd_from a) = Some source" "ta_owner source = fst (bad_debt_authority bx)"
    "token_transfer (bx_env bx) (wd_from a) (wd_destination a) (fst (bad_debt_authority bx))
       (if amount = - 1 then ta_amount source else amount) (ch_ledger (bd_chain s)) = Inr ledger"
    "s' = s\<lparr>bd_chain := (bd_chain s)\<lparr>ch_ledger := ledger\<rparr>\<rparr>"
  using assms
  by (auto simp: withdraw_def check_withdraw_def ok_iff Let_def split: prod.splits)

lemma saturating_sub_covers:
  "unat x + unat (saturating_sub m x) = max (unat x) (unat m)"
  by (auto simp: saturating_sub_def unat_sub word_le_nat_alt max_def)

text \<open>What a claim by the distributor program moves.\<close>

lemma new_claim_moves:
  assumes "transfer_effect env" "new_claim env cx a u l p c = Inr c'"
  shows "\<exists>md paid to. ch_distributors c (nc_distributor a) = Some md
    \<and> lg_accounts (ch_ledger c) (nc_to a) = Some to \<and> ta_owner to = nc_claimant a
    \<and> unat paid = bonus_vested (unat u) (ival (cx_unix_timestamp cx)) (ival (md_start_ts md)) (ival (md_end_ts md))
    \<and> ch_claim_statuses c' (nc_claim_status a) = Some (fresh_claim md a u l paid)
    \<and> ch_ledger c' = moved (md_token_vault md) (nc_to a) paid (ch_ledger c)"
  using assms(2)
proof (rule new_claimE)
  fix md paid led num claimed forgone f
  assume h: "ch_distributors c (nc_distributor a) = Some md"
    "\<exists>to. lg_accounts (ch_ledger c) (nc_to a) = Some to \<and> ta_owner to = nc_claimant a"
    "unat paid = bonus_vested (unat u) (ival (cx_unix_timestamp cx)) (ival (md_start_ts md)) (ival (md_end_ts md))"
    "token_transfer env (md_token_vault md) (nc_to a) (nc_distributor a) paid (ch_ledger c) = Inr led"
    "c' = c\<lparr>ch_distributors := (ch_distributors c)(nc_distributor a \<mapsto> md\<lparr>md_num_nodes_claimed := num,
         md_total_amount_claimed := claimed, md_total_amount_forgone := forgone\<rparr>),
       ch_claim_statuses := (ch_claim_statuses c)(nc_claim_status a \<mapsto> fresh_claim md a u l paid),
       ch_ledger := led,
       ch_events := ch_events c @ [NewClaimEvent (nc_claimant a) (cx_unix_timestamp cx) paid f]\<rparr>"
  have "led = moved (md_token_vault md) (nc_to a) paid (ch_ledger c)"
    using transfer_effectE [OF assms(1) h(4)] by blast
  with h show ?thesis by auto
qed

section \<open>Properties\<close>

text \<open>C31: Anybody may crank the claim, and it can only pay the program: a successful \<^verbatim>\<open>claim_dfx\<close> moves the
  vested share of the proved amount from the distributor's vault to a token account owned by the program's
  derived address and nothing else, records a claim with no locked part for that address, leaves the
  admin as it is, and the claim record's address holds the rent whatever it held before.\<close>

theorem crank_pays_only_the_program:
  assumes "transfer_effect (bx_env bx)" "lamport_effect bx" "dx_payer a \<noteq> dx_claim_status a"
    and "bad_debt_exec bx cx (ClaimDfx a amount proof) s = Inr s'"
  shows "\<exists>md paid to. ch_distributors (bd_chain s) (dx_distributor a) = Some md
    \<and> lg_accounts (ch_ledger (bd_chain s)) (dx_to a) = Some to \<and> ta_owner to = fst (bad_debt_authority bx)
    \<and> unat paid = bonus_vested (unat amount) (ival (cx_unix_timestamp cx)) (ival (md_start_ts md)) (ival (md_end_ts md))
    \<and> ch_ledger (bd_chain s') = moved (md_token_vault md) (dx_to a) paid (ch_ledger (bd_chain s))
    \<and> ch_claim_statuses (bd_chain s') (dx_claim_status a) = Some (fresh_claim md (claim_accounts a) amount 0 paid)
    \<and> bd_configs s' = bd_configs s
    \<and> unat (bx_minimum_balance bx CLAIM_STATUS_LEN) \<le> unat (bd_lamports s' (dx_claim_status a))"
proof -
  from assms(4) have "claim_dfx bx cx a amount proof s = Inr s'" by simp
  then show ?thesis
  proof (rule claim_dfxE)
    fix lamports c'
    assume h: "new_claim (bx_env bx) (cx\<lparr>cx_signers := dx_authority a # cx_signers cx\<rparr>) (claim_accounts a) amount 0 proof
        (bd_chain s) = Inr c'"
      "dx_authority a = fst (bad_debt_authority bx)"
      "let required = saturating_sub (bx_minimum_balance bx CLAIM_STATUS_LEN) (bd_lamports s (dx_claim_status a)) in
         if 0 < required
         then bx_system_transfer bx (dx_payer a) (dx_claim_status a) required (bd_lamports s) = Inr lamports
         else lamports = bd_lamports s"
      "s' = s\<lparr>bd_chain := c', bd_lamports := lamports\<rparr>"
    let ?m = "bx_minimum_balance bx CLAIM_STATUS_LEN" and ?x = "bd_lamports s (dx_claim_status a)"
    have "unat ?x + unat (saturating_sub ?m ?x) \<le> unat (lamports (dx_claim_status a))"
      using h(3) assms(2,3) unfolding lamport_effect_def Let_def
      by (cases "0 < saturating_sub ?m ?x") (auto simp: word_gt_0)
    then have "unat ?m \<le> unat (lamports (dx_claim_status a))" using saturating_sub_covers [of ?x ?m] by simp
    with new_claim_moves [OF assms(1) h(1)] h(2,4) show ?thesis by auto
  qed
qed

text \<open>The program of the witnesses: its address is the claimant 50 of \<open>Demo\<close>, its admin is 2.\<close>

definition lamport_transfer :: "pubkey \<Rightarrow> pubkey \<Rightarrow> u64 \<Rightarrow> (pubkey \<Rightarrow> u64) \<Rightarrow> string + (pubkey \<Rightarrow> u64)" where
  "lamport_transfer from to amount l =
     (case checked_add (l to) amount of
        Some x \<Rightarrow> if amount \<le> l from then Inr (l(from := l from - amount, to := x)) else Inl ''insufficient lamports''
      | None \<Rightarrow> Inl ''overflow'')"

definition demo_seeds :: "u8 list list \<Rightarrow> pubkey" where
  "demo_seeds seeds =
     (if length (hd seeds) = 17 then Pubkey 10 else if length (hd seeds) = 8 then Pubkey 50
      else if length (hd seeds) = 6 then Pubkey 80 else Pubkey 60)"

definition demo_bad_debt :: bad_debt_env where
  "demo_bad_debt =
     \<lparr>bx_env = demo_env\<lparr>find_program_address := (\<lambda>seeds _. (demo_seeds seeds, 255)),
        create_program_address := (\<lambda>seeds _. Some (demo_seeds seeds))\<rparr>,
      bx_id = Pubkey 90, bx_minimum_balance = (\<lambda>_. 1000),
      bx_system_transfer = lamport_transfer\<rparr>"

definition demo_bad_debt_state :: "chain \<Rightarrow> bad_debt_state" where
  "demo_bad_debt_state c = \<lparr>bd_chain = c, bd_configs = (\<lambda>_. None)(Pubkey 80 \<mapsto> \<lparr>cf_admin = Pubkey 2, cf_bump = 255\<rparr>),
     bd_lamports = (\<lambda>_. 900)\<rparr>"

definition demo_dfx_accounts :: claim_dfx_accounts where
  "demo_dfx_accounts = \<lparr>dx_payer = Pubkey 7, dx_distributor = Pubkey 10, dx_claim_status = Pubkey 60, dx_from = Pubkey 11,
     dx_to = Pubkey 51, dx_authority = Pubkey 50, dx_distributor_program = Pubkey 1, dx_token_program = Pubkey 3,
     dx_system_program = Pubkey 0\<rparr>"

definition demo_withdraw_accounts :: withdraw_accounts where
  "demo_withdraw_accounts = \<lparr>wd_config = Pubkey 80, wd_admin = Pubkey 2, wd_authority = Pubkey 50, wd_from = Pubkey 51,
     wd_destination = Pubkey 70, wd_token_program = Pubkey 3\<rparr>"

lemmas demo_bad_debt_defs = demo_seeds_def demo_bad_debt_def demo_bad_debt_state_def demo_dfx_accounts_def
  demo_withdraw_accounts_def CONFIG_SEED_def BAD_DEBT_SEED_def bad_debt_authority_def

lemma demo_bad_debt_laws: "transfer_effect (bx_env demo_bad_debt)"
  using demo_env_ok(1) by (simp add: env_ok_def transfer_effect_def demo_bad_debt_def)

lemma demo_lamports: "lamport_effect demo_bad_debt"
  unfolding lamport_effect_def demo_bad_debt_def lamport_transfer_def
  by (auto simp: checked_add_Some split: option.splits if_splits)

lemma demo_cranks:
  "\<exists>s'. bad_debt_exec demo_bad_debt (demo_ctx (I64 150) (Pubkey 7)) (ClaimDfx demo_dfx_accounts 400 [])
     (demo_bad_debt_state demo_created) = Inr s'"
  by (simp add: demo_bad_debt_defs demo_defs claim_dfx_def check_claim_dfx_def saturating_sub_def lamport_transfer_def new_claim_def check_new_claim_def
      handle_new_claim_def require_unused_def load_distributor_def load_token_def require_signer_def require_associated_def
      claim_status_default_def claim_status_key_def claim_status_seeds_def verify_def LEAF_PREFIX_def update_unlocked_exact
      window_fits_def bonus_vested_def linear_vested_def get_unlocked_amount_forgone_def vault_transfer_def signer_seeds_def
      distributor_seeds_def ledger_transfer_def checked_add_def checked_sub_def less_i64_def less_eq_i64_def ival_def)

lemma demo_withdraws:
  "\<exists>s'. bad_debt_exec demo_bad_debt (demo_ctx (I64 180) (Pubkey 2)) (Withdraw demo_withdraw_accounts (- 1))
     (demo_bad_debt_state demo_drawn) = Inr s' \<and> balance (ch_ledger (bd_chain s')) (Pubkey 51) = 0"
  by (simp add: demo_bad_debt_defs demo_defs withdraw_def check_withdraw_def load_token_def ledger_transfer_def checked_add_def
      balance_def moved_def)

theorem crank_pays_only_the_program_witness:
  "\<exists>s' (md :: merkle_distributor) paid. bad_debt_exec demo_bad_debt (demo_ctx (I64 150) (Pubkey 7)) (ClaimDfx demo_dfx_accounts 400 [])
       (demo_bad_debt_state demo_created) = Inr s'
     \<and> ch_ledger (bd_chain s') = moved (md_token_vault md) (Pubkey 51) paid (ch_ledger demo_created)
     \<and> 1000 \<le> unat (bd_lamports s' (Pubkey 60))"
proof -
  obtain s' where s': "bad_debt_exec demo_bad_debt (demo_ctx (I64 150) (Pubkey 7)) (ClaimDfx demo_dfx_accounts 400 [])
      (demo_bad_debt_state demo_created) = Inr s'"
    using demo_cranks by blast
  have "dx_payer demo_dfx_accounts \<noteq> dx_claim_status demo_dfx_accounts" by (simp add: demo_dfx_accounts_def)
  from crank_pays_only_the_program [OF demo_bad_debt_laws demo_lamports this s'] obtain md :: merkle_distributor and paid where
    "ch_ledger (bd_chain s') = moved (md_token_vault md) (dx_to demo_dfx_accounts) paid (ch_ledger (bd_chain (demo_bad_debt_state demo_created)))"
    "unat (bx_minimum_balance demo_bad_debt CLAIM_STATUS_LEN) \<le> unat (bd_lamports s' (dx_claim_status demo_dfx_accounts))"
    by blast
  with s' show ?thesis
    by (intro exI [of _ s'] exI [of _ md] exI [of _ paid]) (simp add: demo_dfx_accounts_def demo_bad_debt_state_def demo_bad_debt_def)
qed

lemma moved_other_balance:
  assumes "transfer_effect env" "token_transfer env from to authority amount l = Inr l'" "k \<noteq> from"
  shows "balance l k \<le> balance l' k"
  using transfer_balance(1) [OF assms(1,2), of k] assms(3) by (auto split: if_splits)

lemma new_claim_from:
  assumes "new_claim env cx a u l p c = Inr c'"
  shows "\<exists>md v led paid. ch_distributors c (nc_distributor a) = Some md \<and> lg_accounts (ch_ledger c) (md_token_vault md) = Some v
    \<and> ta_owner v = nc_distributor a
    \<and> token_transfer env (md_token_vault md) (nc_to a) (nc_distributor a) paid (ch_ledger c) = Inr led \<and> ch_ledger c' = led"
proof -
  from assms obtain md where "check_new_claim env cx a c = Inr md" by (auto simp: new_claim_def and_then_Inr)
  then obtain v where "ch_distributors c (nc_distributor a) = Some md" "lg_accounts (ch_ledger c) (md_token_vault md) = Some v"
    "ta_owner v = nc_distributor a"
    by (auto simp: check_new_claim_Inr)
  with assms show ?thesis by (elim new_claimE) auto
qed

text \<open>C30: Only the recorded admin gets tokens out. Whatever the program is called with, a configuration once
  recorded stays; and if a token account of the program's derived address loses tokens, then the call was
  a withdrawal from that account signed by the admin of the configuration.\<close>

theorem only_the_admin_withdraws:
  assumes "transfer_effect (bx_env bx)" "bad_debt_exec bx cx i s = Inr s'"
    and "ch_distributors (bd_chain s) (fst (bad_debt_authority bx)) = None"
  shows "(\<forall>k cfg. bd_configs s k = Some cfg \<longrightarrow> bd_configs s' k = Some cfg)
    \<and> (\<forall>k t. lg_accounts (ch_ledger (bd_chain s)) k = Some t \<and> ta_owner t = fst (bad_debt_authority bx)
         \<and> balance (ch_ledger (bd_chain s')) k < balance (ch_ledger (bd_chain s)) k \<longrightarrow>
         (\<exists>a amount cfg. i = Withdraw a amount \<and> wd_from a = k \<and> bd_configs s (wd_config a) = Some cfg
            \<and> cf_admin cfg \<in> set (cx_signers cx)))"
proof (cases i)
  case (Initialize a)
  with assms(2) have "initialize bx cx a s = Inr s'" by simp
  then show ?thesis by (elim initializeE) auto
next
  case (ClaimDfx a amount p)
  with assms(2) have "claim_dfx bx cx a amount p s = Inr s'" by simp
  then show ?thesis
  proof (rule claim_dfxE)
    fix lamports c'
    assume h: "new_claim (bx_env bx) (cx\<lparr>cx_signers := dx_authority a # cx_signers cx\<rparr>) (claim_accounts a) amount 0 p
        (bd_chain s) = Inr c'" "s' = s\<lparr>bd_chain := c', bd_lamports := lamports\<rparr>"
    from new_claim_from [OF h(1)] obtain md v paid where v: "ch_distributors (bd_chain s) (dx_distributor a) = Some md"
      "lg_accounts (ch_ledger (bd_chain s)) (md_token_vault md) = Some v" "ta_owner v = dx_distributor a"
      "token_transfer (bx_env bx) (md_token_vault md) (dx_to a) (dx_distributor a) paid (ch_ledger (bd_chain s))
         = Inr (ch_ledger c')"
      by auto
    have "k \<noteq> md_token_vault md" if "lg_accounts (ch_ledger (bd_chain s)) k = Some t" "ta_owner t = fst (bad_debt_authority bx)"
      for k t using that v(1-3) assms(3) by auto
    then show ?thesis using moved_other_balance [OF assms(1) v(4)] h(2) by (force simp: not_less)
  qed
next
  case (Withdraw a amount)
  with assms(2) have "withdraw bx cx a amount s = Inr s'" by simp
  then show ?thesis
  proof (rule withdrawE)
    fix cfg source ledger
    assume h: "bd_configs s (wd_config a) = Some cfg" "cf_admin cfg \<in> set (cx_signers cx)"
      "token_transfer (bx_env bx) (wd_from a) (wd_destination a) (fst (bad_debt_authority bx))
         (if amount = - 1 then ta_amount source else amount) (ch_ledger (bd_chain s)) = Inr ledger"
      "s' = s\<lparr>bd_chain := (bd_chain s)\<lparr>ch_ledger := ledger\<rparr>\<rparr>"
    have "k = wd_from a" if "balance ledger k < balance (ch_ledger (bd_chain s)) k" for k
      using moved_other_balance [OF assms(1) h(3), of k] that by force
    then show ?thesis using h(1,2,4) Withdraw by auto
  qed
qed

theorem only_the_admin_withdraws_witness:
  "\<exists>s' a amount cfg. bad_debt_exec demo_bad_debt (demo_ctx (I64 180) (Pubkey 2)) (Withdraw demo_withdraw_accounts (- 1))
       (demo_bad_debt_state demo_drawn) = Inr s'
     \<and> Withdraw demo_withdraw_accounts (- 1) = Withdraw a amount \<and> wd_from a = Pubkey 51
     \<and> bd_configs (demo_bad_debt_state demo_drawn) (wd_config a) = Some cfg
     \<and> cf_admin cfg \<in> set (cx_signers (demo_ctx (I64 180) (Pubkey 2)))"
proof -
  obtain s' where s': "bad_debt_exec demo_bad_debt (demo_ctx (I64 180) (Pubkey 2)) (Withdraw demo_withdraw_accounts (- 1))
      (demo_bad_debt_state demo_drawn) = Inr s'" "balance (ch_ledger (bd_chain s')) (Pubkey 51) = 0"
    using demo_withdraws by blast
  have none: "ch_distributors (bd_chain (demo_bad_debt_state demo_drawn)) (fst (bad_debt_authority demo_bad_debt)) = None"
    and t: "lg_accounts (ch_ledger (bd_chain (demo_bad_debt_state demo_drawn))) (Pubkey 51) = Some (demo_account (Pubkey 50) 750)"
      "ta_owner (demo_account (Pubkey 50) 750) = fst (bad_debt_authority demo_bad_debt)"
      "balance (ch_ledger (bd_chain (demo_bad_debt_state demo_drawn))) (Pubkey 51) = 750"
    by (simp_all add: demo_bad_debt_defs demo_defs balance_def)
  have "balance (ch_ledger (bd_chain s')) (Pubkey 51) < balance (ch_ledger (bd_chain (demo_bad_debt_state demo_drawn))) (Pubkey 51)"
    using s'(2) t(3) by simp
  with only_the_admin_withdraws [OF demo_bad_debt_laws s'(1) none] s'(1) t(1,2) show ?thesis by blast
qed

end
