(* ===== verification/Ts_Sdk.thy ===== *)
theory Ts_Sdk
  imports Complex_Main Api_Router
begin

text \<open>
  \<^verbatim>\<open>ts-sdk/src/index.ts\<close>: what a wallet runs. It asks the server, works out what can be claimed and builds the
  instructions of the program from the answer.

  Big numbers (\<^verbatim>\<open>BN\<close>) are integers, and \<open>bn\<close>, the reading of a text as one, is a parameter, as are the notation of
  keys and the cluster. A number of JavaScript is a rational; the timestamps of an answer are taken to be exact as
  numbers. What is thrown is an error of the result.
\<close>

section \<open>Accounts\<close>

datatype sdk_error = NoProvider | BadKey | ConnectionFailed | TooLarge

text \<open>An instruction of the program, or the creation of an associated account of \<open>owner\<close> paid by \<open>payer\<close>.\<close>

datatype sdk_ix = CreateAta (ata_mint: pubkey) (ata_address: pubkey) (ata_owner: pubkey) (ata_payer: pubkey)
  | ProgramIx instruction

text \<open>\<open>get_account\<close> says whether there is an account, \<open>None\<close> when the connection fails.\<close>

definition getOrCreateATAInstruction ::
  "env \<Rightarrow> (pubkey \<Rightarrow> bool option) \<Rightarrow> pubkey \<Rightarrow> pubkey \<Rightarrow> pubkey \<Rightarrow> sdk_error + (pubkey \<times> sdk_ix option)" where
  "getOrCreateATAInstruction env get_account tokenMint owner payer =
     (let toAccount = associated_token_address env owner tokenMint in
      and_then (ok_or (get_account toAccount) ConnectionFailed) (\<lambda>account.
      if \<not> account then Inr (toAccount, Some (CreateAta tokenMint toAccount owner payer))
      else Inr (toAccount, None)))"

definition deriveClaimStatus :: "env \<Rightarrow> pubkey \<Rightarrow> pubkey \<Rightarrow> pubkey \<Rightarrow> pubkey \<times> u8" where
  "deriveClaimStatus env claimant distributor programId =
     find_program_address env [ascii ''ClaimStatus'', to_bytes claimant, to_bytes distributor] programId"

section \<open>What can be claimed\<close>

text \<open>Division of big numbers rounds towards zero; \<open>None\<close> is the exception on a division by zero.\<close>

definition bn_div :: "int \<Rightarrow> int \<Rightarrow> int option" where
  "bn_div a b = (if b = 0 then None else Some (sgn a * sgn b * (\<bar>a\<bar> div \<bar>b\<bar>)))"

definition calculateClaimableAmount :: "(string \<Rightarrow> int) \<Rightarrow> eligibility_resp \<Rightarrow> rat \<Rightarrow> int option" where
  "calculateClaimableAmount bn u nowTs =
     (if nowTs < of_int (ival (er_start_ts u)) then Some 0
      else if of_int (ival (er_end_ts u)) < nowTs then Some 0
      else
        let startAmount = bn (er_start_amount u); endAmount = bn (er_end_amount u);
            elapsed = \<lfloor>nowTs\<rfloor> - ival (er_start_ts u); duration = ival (er_end_ts u) - ival (er_start_ts u) in
        map_option (\<lambda>q. q + startAmount) (bn_div ((endAmount - startAmount) * elapsed) duration))"

section \<open>Building instructions\<close>

record ix_config =
  ic_connection :: bool
  ic_claimantWallet :: bool
  ic_provider :: bool
  ic_distributorProgramId :: pubkey
  ic_userEligibility :: eligibility_resp
  ic_ignoreTokenAccountCreation :: bool

text \<open>An argument of type \<^verbatim>\<open>u64\<close> that does not fit is refused by its encoding.\<close>

definition u64_arg :: "int \<Rightarrow> sdk_error + u64" where
  "u64_arg n = (if 0 \<le> n \<and> n < 2 ^ 64 then Inr (word_of_int n) else Inl TooLarge)"

definition has_provider :: "ix_config \<Rightarrow> bool" where
  "has_provider config \<longleftrightarrow> ic_provider config \<or> (ic_connection config \<and> ic_claimantWallet config)"

text \<open>What both builders start with: the keys, the claim record's address, both token accounts, and the instructions
  that create the missing ones.\<close>

definition claim_accounts ::
  "env \<Rightarrow> (string \<Rightarrow> pubkey option) \<Rightarrow> (pubkey \<Rightarrow> bool option) \<Rightarrow> ix_config \<Rightarrow>
   sdk_error + (pubkey \<times> pubkey \<times> pubkey \<times> pubkey \<times> pubkey \<times> sdk_ix list)" where
  "claim_accounts env parse get_account config =
     require (has_provider config) NoProvider (
     let user = ic_userEligibility config in
     and_then (ok_or (parse (er_claimant user)) BadKey) (\<lambda>claimant.
     and_then (ok_or (parse (er_merkle_tree user)) BadKey) (\<lambda>distributor.
     and_then (ok_or (parse (er_mint user)) BadKey) (\<lambda>mint.
     let claimStatusPubKey = fst (deriveClaimStatus env claimant distributor (ic_distributorProgramId config)) in
     and_then (getOrCreateATAInstruction env get_account mint claimant claimant) (\<lambda>(toATA, toATAIx).
     and_then (getOrCreateATAInstruction env get_account mint distributor claimant) (\<lambda>(mdATA, mdATAIx).
     let ixs = (if ic_ignoreTokenAccountCreation config then []
                else (case toATAIx of Some ix \<Rightarrow> [ix] | None \<Rightarrow> []) @ (case mdATAIx of Some ix \<Rightarrow> [ix] | None \<Rightarrow> [])) in
     Inr (claimant, distributor, claimStatusPubKey, toATA, mdATA, ixs)))))))"

definition getNewClaimIxs ::
  "env \<Rightarrow> (string \<Rightarrow> int) \<Rightarrow> (string \<Rightarrow> pubkey option) \<Rightarrow> (pubkey \<Rightarrow> bool option) \<Rightarrow> ix_config \<Rightarrow> sdk_error + sdk_ix list" where
  "getNewClaimIxs env bn parse get_account config =
     and_then (claim_accounts env parse get_account config) (\<lambda>(claimant, distributor, claimStatusPubKey, toATA, mdATA, ixs).
     let user = ic_userEligibility config in
     and_then (u64_arg (bn (er_end_amount user))) (\<lambda>unlocked.
     and_then (u64_arg (bn (er_locked_amount user))) (\<lambda>locked.
     Inr (ixs @ [ProgramIx (NewClaim
       \<lparr>nc_distributor = distributor, nc_claim_status = claimStatusPubKey, nc_from = mdATA, nc_to = toATA, nc_claimant = claimant,
        nc_token_program = token_program_id env, nc_system_program = system_program_id env\<rparr>
       unlocked locked (er_proof user))]))))"

definition getClaimLockedIxs ::
  "env \<Rightarrow> (string \<Rightarrow> pubkey option) \<Rightarrow> (pubkey \<Rightarrow> bool option) \<Rightarrow> ix_config \<Rightarrow> sdk_error + sdk_ix list" where
  "getClaimLockedIxs env parse get_account config =
     and_then (claim_accounts env parse get_account config) (\<lambda>(claimant, distributor, claimStatusPubKey, toATA, mdATA, ixs).
     Inr (ixs @ [ProgramIx (ClaimLocked
       \<lparr>cl_distributor = distributor, cl_claim_status = claimStatusPubKey, cl_from = mdATA, cl_to = toATA, cl_claimant = claimant,
        cl_token_program = token_program_id env\<rparr>)]))"

section \<open>Requests\<close>

text \<open>The path of a request as segments, and its authorization header. An empty credential counts as none.\<close>

definition getUserProof :: "(pubkey \<Rightarrow> string) \<Rightarrow> pubkey \<Rightarrow> string list" where
  "getUserProof show_key userPubkey = [''user'', show_key userPubkey]"

definition getClaimStatus :: "(pubkey \<Rightarrow> string) \<Rightarrow> pubkey \<Rightarrow> string list" where
  "getClaimStatus show_key userPubkey = [''claim'', show_key userPubkey]"

definition getEligibility :: "(pubkey \<Rightarrow> string) \<Rightarrow> pubkey \<Rightarrow> string list" where
  "getEligibility show_key userPubkey = [''eligibility'', show_key userPubkey]"

definition getDistributors :: "string list" where
  "getDistributors = [''distributors'']"

definition authorization :: "(string \<Rightarrow> string) \<Rightarrow> string option \<Rightarrow> string option \<Rightarrow> string option" where
  "authorization btoa authUsername authPassword =
     (case (authUsername, authPassword) of
        (Some u, Some p) \<Rightarrow> if u \<noteq> [] \<and> p \<noteq> [] then Some (''Basic '' @ btoa (u @ '':'' @ p)) else None
      | _ \<Rightarrow> None)"

text \<open>Each request reaches the handler of its name, on a server without credentials and with the right ones.\<close>

lemma requests_reach_handlers:
  assumes "needs_auth st \<longrightarrow> basic (the (rs_basic_auth_user st)) (the (rs_basic_auth_password st)) header"
  shows "get_routes basic parse show_key order t st header (getUserProof show_key k)
      = respond ProofBody (get_user_info parse show_key st (show_key k))"
    and "get_routes basic parse show_key order t st header (getClaimStatus show_key k)
      = respond ClaimBody (get_claim_status st (show_key k))"
    and "get_routes basic parse show_key order t st header (getEligibility show_key k)
      = respond EligibilityBody (get_eligibility parse show_key st t (show_key k))"
    and "get_routes basic parse show_key order t st header getDistributors
      = respond DistributorsBody (get_distributors show_key order st)"
  using assms
  by (auto simp: get_routes_def data_route_def getUserProof_def getClaimStatus_def getEligibility_def getDistributors_def)

section \<open>The SDK and the program agree\<close>

lemma deriveClaimStatus_key: "fst (deriveClaimStatus env claimant distributor (program_id env)) = claim_status_key env claimant distributor"
  by (simp add: deriveClaimStatus_def claim_status_key_def claim_status_seeds_def)

text \<open>A provider is there, and both token accounts exist.\<close>

definition ready :: "env \<Rightarrow> (pubkey \<Rightarrow> bool option) \<Rightarrow> pubkey \<Rightarrow> pubkey \<Rightarrow> pubkey \<Rightarrow> ix_config \<Rightarrow> bool" where
  "ready env get_account mint claimant distributor config \<longleftrightarrow>
     has_provider config \<and> ic_distributorProgramId config = program_id env
     \<and> get_account (associated_token_address env claimant mint) = Some True
     \<and> get_account (associated_token_address env distributor mint) = Some True"

lemma claim_accounts_ready:
  assumes "ready env get_account mint claimant distributor config" "parse (er_claimant (ic_userEligibility config)) = Some claimant"
    "parse (er_merkle_tree (ic_userEligibility config)) = Some distributor" "parse (er_mint (ic_userEligibility config)) = Some mint"
  shows "claim_accounts env parse get_account config = Inr (claimant, distributor, claim_status_key env claimant distributor,
    associated_token_address env claimant mint, associated_token_address env distributor mint, [])"
  using assms by (simp add: claim_accounts_def ready_def getOrCreateATAInstruction_def Let_def flip: deriveClaimStatus_key)

lemma u64_arg_widened [simp]: "u64_arg (uint (u64_as_u128 w)) = Inr w"
proof -
  have "uint (u64_as_u128 w) = uint w" by (metis of_nat_unat unat_u64_as_u128)
  then show ?thesis using uint_bounded [of w] by (simp add: u64_arg_def)
qed

text \<open>The fields of the server's answer that the SDK reads.\<close>

lemma eligibility_fields:
  assumes "get_eligibility parse show_key st t user = Inr [r]" "parse user = Some k" "rs_tree st k = Some (d, n)"
    and "cached_distributor (rs_cache st) (show_key d) = Some md"
  shows "er_claimant r = user \<and> er_merkle_tree r = show_key d \<and> er_mint r = show_key (md_mint md)
    \<and> er_start_ts r = md_start_ts md \<and> er_end_ts r = md_end_ts md
    \<and> er_end_amount r = show_u128 (u64_as_u128 (tn_amount n))
    \<and> er_locked_amount r = show_u128 (u64_as_u128 (node_locked_amount n)) \<and> tn_proof n = Some (er_proof r)"
proof (cases "tn_proof n")
  case None
  then show ?thesis using assms by (simp add: get_eligibility_def get_user_proof_def)
next
  case (Some pf)
  then have "get_user_proof parse show_key (rs_tree st) user = Inr \<lparr>up_merkle_tree = show_key d, up_amount = tn_amount n,
      up_locked_amount = node_locked_amount n, up_proof = pf\<rparr>"
    using assms(2,3) by (simp add: get_user_proof_def node_unlocked_amount_def)
  then show ?thesis using assms(1,4) Some by (auto simp: get_eligibility_def ok_iff)
qed

text \<open>Inside the window the SDK's amount for a new claim is the schedule's; after its end the SDK says 0, where a claim is
  paid in full.\<close>

lemma bn_div_nat: "0 < b \<Longrightarrow> bn_div (int a) (int b) = Some (int (a div b))"
  by (cases "a = 0") (simp_all add: bn_div_def zdiv_int)

lemma claimable_inside:
  assumes "er_start_amount u = show_u128 s" "er_end_amount u = show_u128 e" "\<forall>x. bn (show_u128 x) = int (unat x)"
    and "unat s = unat e div 2" "ival (er_start_ts u) \<le> t" "t \<le> ival (er_end_ts u)" "ival (er_start_ts u) < ival (er_end_ts u)"
  shows "calculateClaimableAmount bn u (of_int t) = Some (int (bonus_vested (unat e) t (ival (er_start_ts u)) (ival (er_end_ts u))))"
proof -
  let ?s = "ival (er_start_ts u)" and ?e = "ival (er_end_ts u)"
  let ?rest = "unat e - unat e div 2"
  have bns: "bn (er_start_amount u) = int (unat e div 2)" "bn (er_end_amount u) = int (unat e)"
    unfolding assms(1,2) by (simp_all only: assms(3,4) [rule_format])
  have "int ?rest * (t - ?s) = int (nat (t - ?s) * ?rest)" "?e - ?s = int (nat (?e - ?s))" "0 < nat (?e - ?s)"
    using assms(5,7) by simp_all
  then have "bn_div (int ?rest * (t - ?s)) (?e - ?s) = Some (int (nat (t - ?s) * ?rest div nat (?e - ?s)))"
    by (metis bn_div_nat)
  moreover have "nat (t - ?s) * ?rest div nat (?e - ?s) = linear_vested ?rest t ?s ?e"
    using assms(5-7) by (auto simp: linear_vested_def not_less)
  ultimately show ?thesis
    using assms(5,6) by (simp add: calculateClaimableAmount_def Let_def bonus_vested_def bns)
qed

lemma claimable_after_end:
  "ival (er_end_ts u) < t \<Longrightarrow> calculateClaimableAmount bn u (of_int t) = Some 0"
  by (simp add: calculateClaimableAmount_def)

section \<open>Properties\<close>


definition demo_parse_key :: "string \<Rightarrow> pubkey option" where
  "demo_parse_key s = map_option (\<lambda>n. Pubkey (word_of_nat n)) (read_digits 0 s)"

lemma demo_parse_show: "demo_parse_key (demo_show_key x) = Some x"
  by (cases x) (simp add: demo_parse_key_def demo_show_key_def read_show_nat)

definition demo_bn :: "string \<Rightarrow> int" where
  "demo_bn s = int (the (read_digits 0 s))"

lemma demo_bn_show: "demo_bn (show_u128 x) = int (unat x)"
  by (simp add: demo_bn_def show_u128_def read_show_nat)

text \<open>The server and the request for the witness: the claimant 50, halfway through the window.\<close>

lemma demo_served:
  assumes "tn_proof n = Some q" "unat (tn_amount n) + unat (node_locked_amount n) < 2 ^ 64"
  obtains r where "get_eligibility demo_parse_key demo_show_key (demo_router\<lparr>rs_tree := (\<lambda>_. None)(Pubkey 50 \<mapsto> (Pubkey 10, n))\<rparr>)
    (I64 150) (demo_show_key (Pubkey 50)) = Inr [r]"
proof -
  let ?st = "demo_router\<lparr>rs_tree := (\<lambda>_. None)(Pubkey 50 \<mapsto> (Pubkey 10, n))\<rparr>" and ?md = "demo_distributor 0 0 0 False"
  have md: "cached_distributor (rs_cache ?st) (demo_show_key (Pubkey 10)) = Some ?md" "rs_start_amount_pct ?st = 50"
    "window_fits (md_start_ts ?md) (md_end_ts ?md)"
    and none: "cached_claim_status (rs_cache ?st) (demo_show_key (Pubkey 50)) = None"
    and node: "rs_tree ?st (Pubkey 50) = Some (Pubkey 10, n)"
    by (simp_all add: demo_router_def cached_distributor_def cached_claim_status_def cache_new_def window_fits_def ival_def demo_distributor_def)
  obtain paid due sum where "calculate_claimable_amount_for_new_user (tn_amount n) (I64 150) (md_start_ts ?md) (md_end_ts ?md) 50 = Some paid"
    "calculate_locked_amount_claimable (node_locked_amount n) (I64 150) (md_start_ts ?md) (md_end_ts ?md) = Some due"
    "checked_add paid due = Some sum"
    by (rule new_user_amounts [OF md(3) assms(2)])
  then have "claim_amounts ?st (I64 150) (md_start_ts ?md) (md_end_ts ?md) (demo_show_key (Pubkey 50))
      \<lparr>up_merkle_tree = demo_show_key (Pubkey 10), up_amount = tn_amount n, up_locked_amount = node_locked_amount n, up_proof = q\<rparr>
      = Inr (0, 0, sum)"
    using none md(2) by (simp add: claim_amounts_def)
  from eligibility_answer [where parse = demo_parse_key and show_key = demo_show_key, OF demo_parse_show node assms(1) md(1,2) this]
  show thesis using that by auto
qed


end
