(* ===== verification/Bad_Debt_Scripts.thy ===== *)
theory Bad_Debt_Scripts
  imports Bad_Debt Ts_Sdk
begin

text \<open>
  The scripts of the example program, \<^verbatim>\<open>cpi-example/scripts\<close>: \<^verbatim>\<open>common.ts\<close>, \<^verbatim>\<open>initialize.ts\<close>, \<^verbatim>\<open>claim.ts\<close> and
  \<^verbatim>\<open>withdraw.ts\<close>. They ask the cluster and the distributor's server and send one transaction to the program of theory
  \<open>Bad_Debt\<close>.

  A transaction is a list of instructions that take effect together or not at all; a script either throws, and nothing has
  changed, or ends with a new state. Parameters (\<open>script_env\<close>) are the wallets, the texts of keys and numbers, the answers
  of the server and of the cluster's token index, and the creation of associated token accounts, whose rent is left out.
  An account exists for the cluster when it holds lamports.
\<close>

section \<open>The world of the scripts\<close>

datatype fetched = Answers "eligibility_resp list" | Answer eligibility_resp | Refusal string

record script_env =
  sx_bad_debt :: bad_debt_env
  sx_keypair :: "string \<Rightarrow> pubkey option"
  sx_parse :: "string \<Rightarrow> pubkey option"
  sx_show_key :: "pubkey \<Rightarrow> string"
  sx_bn :: "string \<Rightarrow> int"
  sx_btoa :: "string \<Rightarrow> string"
  sx_fetch :: "string \<Rightarrow> string option \<Rightarrow> (nat \<times> fetched) option"
  sx_reachable :: bool
  sx_token_accounts :: "pubkey \<Rightarrow> ledger \<Rightarrow> (pubkey \<times> token_account) list"
  sx_create_ata :: "pubkey \<Rightarrow> pubkey \<Rightarrow> ledger \<Rightarrow> string + ledger"
  sx_ctx :: ctx

record script_values =
  pv_keypair :: "string option"
  pv_program_id :: "string option"
  pv_api_url :: "string option"
  pv_api_user :: "string option"
  pv_api_password :: "string option"
  pv_mint :: "string option"
  pv_destination :: "string option"
  pv_destination_token_account :: "string option"
  pv_amount :: "string option"

datatype script_error =
    NoKeypair | BadKeypair | InvalidKey | NoApiUrl | FetchFailed | NotInTree | BadStatus | NoEntries | NoSuchMint
  | ManyEntries | NoTokenAccounts | AmbiguousAmount | NoDestination | NotReachable | AmountTooLarge | NotAConfig
  | AtaRefused string | Rejected bad_debt_error

text \<open>A value that is truthy.\<close>

definition given :: "string option \<Rightarrow> bool" where
  "given v \<longleftrightarrow> (case v of Some x \<Rightarrow> x \<noteq> [] | None \<Rightarrow> False)"

section \<open>\<^verbatim>\<open>common.ts\<close>\<close>

definition MERKLE_DISTRIBUTOR_PROGRAM_ID :: "env \<Rightarrow> pubkey" where
  "MERKLE_DISTRIBUTOR_PROGRAM_ID env = base58 env ''distAitdwx9mDm3SaPMtGZRjpXMPUenLhmPwoySV3Hp''"

definition DEFAULT_PROGRAM_ID :: "env \<Rightarrow> pubkey" where
  "DEFAULT_PROGRAM_ID env = base58 env ''3jFBjgMyNBTJwpELbmn6wyYJXDBZgRMYXcQMBywC9keV''"

record common_context =
  cc_keypair :: pubkey
  cc_program :: bad_debt_env
  cc_badDebtAuthority :: pubkey
  cc_config :: pubkey

definition parseCommon :: "script_env \<Rightarrow> script_values \<Rightarrow> script_error + common_context" where
  "parseCommon sx v =
     require (given (pv_keypair v)) NoKeypair (
     and_then (ok_or (sx_keypair sx (the (pv_keypair v))) BadKeypair) (\<lambda>keypair.
     and_then (if given (pv_program_id v) then ok_or (sx_parse sx (the (pv_program_id v))) InvalidKey
               else Inr (DEFAULT_PROGRAM_ID (bx_env (sx_bad_debt sx)))) (\<lambda>programId.
     let program = (sx_bad_debt sx)\<lparr>bx_id := programId\<rparr> in
     Inr \<lparr>cc_keypair = keypair, cc_program = program,
          cc_badDebtAuthority = fst (find_program_address (bx_env program) [ascii ''bad_debt''] programId),
          cc_config = fst (find_program_address (bx_env program) [ascii ''config''] programId)\<rparr>)))"

definition script_claim_status :: "env \<Rightarrow> pubkey \<Rightarrow> pubkey \<Rightarrow> pubkey" where
  "script_claim_status env claimant distributor =
     fst (find_program_address env [ascii ''ClaimStatus'', to_bytes claimant, to_bytes distributor]
       (MERKLE_DISTRIBUTOR_PROGRAM_ID env))"

definition eligibility_url :: "string \<Rightarrow> string \<Rightarrow> string" where
  "eligibility_url apiUrl key =
     (if apiUrl \<noteq> [] \<and> last apiUrl = CHR ''/'' then butlast apiUrl else apiUrl) @ ''/eligibility/'' @ key"

text \<open>An answer without error text that is no list is taken for one entry; one that is a refusal has no key in it.\<close>

definition fetchEligibility ::
  "script_env \<Rightarrow> string \<Rightarrow> pubkey \<Rightarrow> string option \<Rightarrow> string option \<Rightarrow> script_error + eligibility_resp list" where
  "fetchEligibility sx apiUrl claimant authUser authPassword =
     and_then (ok_or (sx_fetch sx (eligibility_url apiUrl (sx_show_key sx claimant))
         (authorization (sx_btoa sx) authUser authPassword)) FetchFailed) (\<lambda>(status, body).
     require (status \<noteq> 404 \<and> (case body of Refusal e \<Rightarrow> e = [] | _ \<Rightarrow> True)) NotInTree (
     require (200 \<le> status \<and> status < 300) BadStatus (
     case body of Answers entries \<Rightarrow> Inr entries | Answer entry \<Rightarrow> Inr [entry] | Refusal _ \<Rightarrow> Inl InvalidKey)))"

definition selectEligibility :: "eligibility_resp list \<Rightarrow> string option \<Rightarrow> script_error + eligibility_resp" where
  "selectEligibility entries mint =
     (if entries = [] then Inl NoEntries
      else if given mint then ok_or (find (\<lambda>e. er_mint e = the mint) entries) NoSuchMint
      else if 1 < length entries then Inl ManyEntries
      else Inr (entries ! 0))"

section \<open>Transactions\<close>

datatype tx_ix =
    CreateAtaIdempotent (ti_payer: pubkey) (ti_address: pubkey) (ti_owner: pubkey) (ti_mint: pubkey)
  | BadDebtIx bad_debt_instruction

definition has_account :: "bad_debt_state \<Rightarrow> pubkey \<Rightarrow> bool" where
  "has_account s k \<longleftrightarrow> bd_lamports s k \<noteq> 0"

fun run_tx :: "script_env \<Rightarrow> bad_debt_env \<Rightarrow> ctx \<Rightarrow> tx_ix list \<Rightarrow> bad_debt_state \<Rightarrow> script_error + bad_debt_state" where
  "run_tx sx bx cx [] s = Inr s"
| "run_tx sx bx cx (CreateAtaIdempotent payer address owner mint # ixs) s =
     and_then (map_err AtaRefused (sx_create_ata sx owner mint (ch_ledger (bd_chain s)))) (\<lambda>l.
     run_tx sx bx cx ixs (s\<lparr>bd_chain := (bd_chain s)\<lparr>ch_ledger := l\<rparr>\<rparr>))"
| "run_tx sx bx cx (BadDebtIx i # ixs) s =
     and_then (map_err Rejected (bad_debt_exec bx cx i s)) (\<lambda>s'. run_tx sx bx cx ixs s')"

definition sendAndConfirmTransaction ::
  "script_env \<Rightarrow> common_context \<Rightarrow> tx_ix list \<Rightarrow> bad_debt_state \<Rightarrow> script_error + bad_debt_state" where
  "sendAndConfirmTransaction sx cc tx s =
     require (sx_reachable sx) NotReachable
       (run_tx sx (cc_program cc) ((sx_ctx sx)\<lparr>cx_signers := [cc_keypair cc]\<rparr>) tx s)"

section \<open>\<^verbatim>\<open>initialize.ts\<close>\<close>

definition initialize_main :: "script_env \<Rightarrow> script_values \<Rightarrow> bad_debt_state \<Rightarrow> script_error + bad_debt_state" where
  "initialize_main sx v s =
     and_then (parseCommon sx v) (\<lambda>cc.
     require (sx_reachable sx) NotReachable (
     if has_account s (cc_config cc)
     then require (bd_configs s (cc_config cc) \<noteq> None) NotAConfig (Inr s)
     else sendAndConfirmTransaction sx cc
       [BadDebtIx (Initialize \<lparr>in_config = cc_config cc, in_admin = cc_keypair cc,
          in_system_program = system_program_id (bx_env (cc_program cc))\<rparr>)] s))"

section \<open>\<^verbatim>\<open>claim.ts\<close>\<close>

definition claim_main :: "script_env \<Rightarrow> script_values \<Rightarrow> bad_debt_state \<Rightarrow> script_error + bad_debt_state" where
  "claim_main sx v s =
     and_then (parseCommon sx v) (\<lambda>cc.
     let env = bx_env (cc_program cc); badDebtAuthority = cc_badDebtAuthority cc in
     require (given (pv_api_url v)) NoApiUrl (
     and_then (fetchEligibility sx (the (pv_api_url v)) badDebtAuthority (pv_api_user v) (pv_api_password v)) (\<lambda>eligibilities.
     and_then (selectEligibility eligibilities (pv_mint v)) (\<lambda>eligibility.
     and_then (ok_or (sx_parse sx (er_merkle_tree eligibility)) InvalidKey) (\<lambda>distributor.
     and_then (ok_or (sx_parse sx (er_mint eligibility)) InvalidKey) (\<lambda>mint.
     let vault = associated_token_address env distributor mint;
         badDebtAta = associated_token_address env badDebtAuthority mint;
         claimStatus = script_claim_status env badDebtAuthority distributor in
     require (sx_reachable sx) NotReachable (
     if has_account s claimStatus then Inr s
     else
       and_then (map_err (\<lambda>_. AmountTooLarge) (Ts_Sdk.u64_arg (sx_bn sx (er_end_amount eligibility)))) (\<lambda>amount.
       sendAndConfirmTransaction sx cc
         [CreateAtaIdempotent (cc_keypair cc) badDebtAta badDebtAuthority mint,
          BadDebtIx (ClaimDfx
            \<lparr>dx_payer = cc_keypair cc, dx_distributor = distributor, dx_claim_status = claimStatus, dx_from = vault,
             dx_to = badDebtAta, dx_authority = badDebtAuthority,
             dx_distributor_program = MERKLE_DISTRIBUTOR_PROGRAM_ID env, dx_token_program = token_program_id env,
             dx_system_program = system_program_id env\<rparr> amount (er_proof eligibility))] s))))))))"

section \<open>\<^verbatim>\<open>withdraw.ts\<close>\<close>

definition destination_of ::
  "script_env \<Rightarrow> common_context \<Rightarrow> script_values \<Rightarrow> pubkey \<Rightarrow> script_error + (pubkey \<times> tx_ix list)" where
  "destination_of sx cc v mint =
     (if given (pv_destination_token_account v)
      then and_then (ok_or (sx_parse sx (the (pv_destination_token_account v))) InvalidKey) (\<lambda>destination.
        Inr (destination, []))
      else if given (pv_destination v)
      then and_then (ok_or (sx_parse sx (the (pv_destination v))) InvalidKey) (\<lambda>destinationWallet.
        let destination = associated_token_address (bx_env (cc_program cc)) destinationWallet mint in
        Inr (destination, [CreateAtaIdempotent (cc_keypair cc) destination destinationWallet mint]))
      else Inl NoDestination)"

fun withdraw_ixs ::
  "script_env \<Rightarrow> common_context \<Rightarrow> script_values \<Rightarrow> (pubkey \<times> token_account) list \<Rightarrow> script_error + tx_ix list" where
  "withdraw_ixs sx cc v [] = Inr []"
| "withdraw_ixs sx cc v ((pubkey, account) # tokenAccounts) =
     (if ta_amount account = 0 then withdraw_ixs sx cc v tokenAccounts
      else
        and_then (destination_of sx cc v (ta_mint account)) (\<lambda>(destination, create).
        and_then (if given (pv_amount v) then map_err (\<lambda>_. AmountTooLarge) (Ts_Sdk.u64_arg (sx_bn sx (the (pv_amount v))))
                  else Inr (- 1)) (\<lambda>amount.
        and_then (withdraw_ixs sx cc v tokenAccounts) (\<lambda>ixs.
        Inr (create @ BadDebtIx (Withdraw
          \<lparr>wd_config = cc_config cc, wd_admin = cc_keypair cc, wd_authority = cc_badDebtAuthority cc, wd_from = pubkey,
           wd_destination = destination, wd_token_program = token_program_id (bx_env (cc_program cc))\<rparr> amount) # ixs)))))"

definition withdraw_main :: "script_env \<Rightarrow> script_values \<Rightarrow> bad_debt_state \<Rightarrow> script_error + bad_debt_state" where
  "withdraw_main sx v s =
     and_then (parseCommon sx v) (\<lambda>cc.
     require (sx_reachable sx) NotReachable (
     let tokenAccounts = sx_token_accounts sx (cc_badDebtAuthority cc) (ch_ledger (bd_chain s)) in
     require (tokenAccounts \<noteq> []) NoTokenAccounts (
     require (\<not> (given (pv_amount v) \<and> 1 < length tokenAccounts)) AmbiguousAmount (
     and_then (withdraw_ixs sx cc v tokenAccounts) (\<lambda>tx.
     if tx = [] then Inr s else sendAndConfirmTransaction sx cc tx s)))))"

section \<open>Accounts made on the way\<close>

text \<open>What the associated token program documents of an idempotent creation: nothing happens when the owner has the account,
  and otherwise an empty one is made.\<close>

definition with_ata :: "env \<Rightarrow> pubkey \<Rightarrow> pubkey \<Rightarrow> ledger \<Rightarrow> ledger" where
  "with_ata env owner mint l =
     (if lg_accounts l (associated_token_address env owner mint) = None
      then l\<lparr>lg_accounts := (lg_accounts l)(associated_token_address env owner mint \<mapsto>
        \<lparr>ta_mint = mint, ta_owner = owner, ta_amount = 0\<rparr>)\<rparr>
      else l)"

definition ata_idempotent :: "script_env \<Rightarrow> bool" where
  "ata_idempotent sx \<longleftrightarrow>
     (\<forall>owner mint l. lg_supply l mint \<noteq> None \<longrightarrow>
        (\<forall>t. lg_accounts l (associated_token_address (bx_env (sx_bad_debt sx)) owner mint) = Some t \<longrightarrow>
           ta_owner t = owner \<and> ta_mint t = mint) \<longrightarrow>
        sx_create_ata sx owner mint l = Inr (with_ata (bx_env (sx_bad_debt sx)) owner mint l))"

lemma with_ata_keeps: "lg_accounts l k = Some t \<Longrightarrow> lg_accounts (with_ata env owner mint l) k = Some t"
  by (auto simp: with_ata_def)

lemma with_ata_other:
  "k \<noteq> associated_token_address env owner mint \<Longrightarrow> lg_accounts (with_ata env owner mint l) k = lg_accounts l k"
  by (simp add: with_ata_def)

lemma with_ata_supply [simp]: "lg_supply (with_ata env owner mint l) = lg_supply l"
  by (simp add: with_ata_def)

lemma tree_run_with_ata:
  assumes "tree_run env tree d S c0 tr c"
  shows "tree_run env tree d S c0 (tr @ [Outside]) (c\<lparr>ch_ledger := with_ata env owner mint (ch_ledger c)\<rparr>)"
proof -
  have "outside_ok c (with_ata env owner mint (ch_ledger c))" by (auto simp: outside_ok_def dest: with_ata_keeps)
  then have "step env c Outside (c\<lparr>ch_ledger := with_ata env owner mint (ch_ledger c)\<rparr>)" by (rule step.outside)
  moreover have "run env c0 tr c" using assms by (simp add: tree_run_def)
  ultimately have "run env c0 (tr @ [Outside]) (c\<lparr>ch_ledger := with_ata env owner mint (ch_ledger c)\<rparr>)"
    by (metis run.more)
  with assms show ?thesis by (simp add: tree_run_def in_books_def honest_def)
qed

section \<open>Asking the server\<close>

text \<open>The answer of a route as the scripts get it: texts that are no JSON are no answer.\<close>

fun fetched_body :: "body \<Rightarrow> fetched option" where
  "fetched_body (EligibilityBody entries) = Some (Answers entries)"
| "fetched_body (ErrorBody e) = Some (Refusal e)"
| "fetched_body _ = None"

definition fetched_from :: "(nat \<times> body) option \<Rightarrow> (nat \<times> fetched) option" where
  "fetched_from answer = Option.bind answer (\<lambda>(status, body). map_option (Pair status) (fetched_body body))"

text \<open>Whatever the server refuses, be it the credentials or a failure of its own, the script reports as a claimant that is
  not in the tree: the branch for other failures is never taken.\<close>

lemma refusals_look_alike:
  assumes "sx_fetch sx (eligibility_url apiUrl (sx_show_key sx claimant)) (authorization (sx_btoa sx) user password)
      = fetched_from (respond EligibilityBody served)"
  shows "fetchEligibility sx apiUrl claimant user password =
    (case served of Inr entries \<Rightarrow> Inr entries | Inl (Err e) \<Rightarrow> Inl NotInTree | Inl Panicked \<Rightarrow> Inl FetchFailed)"
proof (cases served)
  case (Inl f)
  show ?thesis
  proof (cases f)
    case (Err e)
    obtain status msg where r: "into_response e = (status, msg)" by force
    have "msg \<noteq> []" using r by (cases e) (auto simp: into_response_def)
    then show ?thesis by (simp add: Inl Err r fetchEligibility_def assms fetched_from_def respond_def)
  qed (simp add: Inl fetchEligibility_def assms fetched_from_def respond_def)
qed (simp add: fetchEligibility_def assms fetched_from_def respond_def)

lemma select_single:
  "mint = None \<or> mint = Some (er_mint r) \<Longrightarrow> selectEligibility [r] mint = Inr r"
  by (auto simp: selectEligibility_def given_def)

section \<open>Running the claim\<close>

lemma parseCommon_context:
  assumes "parseCommon sx v = Inr cc"
  shows "bx_env (cc_program cc) = bx_env (sx_bad_debt sx)" "cc_badDebtAuthority cc = fst (bad_debt_authority (cc_program cc))"
    "bx_minimum_balance (cc_program cc) = bx_minimum_balance (sx_bad_debt sx)"
    "bx_system_transfer (cc_program cc) = bx_system_transfer (sx_bad_debt sx)"
    "cc_config cc = fst (find_program_address (bx_env (cc_program cc)) [CONFIG_SEED] (bx_id (cc_program cc)))"
  using assms by (auto simp: parseCommon_def ok_iff Let_def bad_debt_authority_def BAD_DEBT_SEED_def CONFIG_SEED_def)

text \<open>A claim by the program goes through when the distributor's instruction does and the rent is paid.\<close>

lemma claim_dfx_ok:
  assumes "new_claim (bx_env bx) (cx\<lparr>cx_signers := dx_authority a # cx_signers cx\<rparr>) (Bad_Debt.claim_accounts a) amount 0 proof (bd_chain s) = Inr c'"
    and "pda_law (bx_env bx)" "dx_authority a = fst (bad_debt_authority bx)" "dx_payer a \<in> set (cx_signers cx)"
    and "dx_distributor_program a = program_id (bx_env bx)" "dx_token_program a = token_program_id (bx_env bx)"
      "dx_system_program a = system_program_id (bx_env bx)"
    and "ch_distributors (bd_chain s) (dx_distributor a) = Some md" "dx_from a = md_token_vault md"
      "lg_accounts (ch_ledger (bd_chain s)) (dx_from a) = Some f" "lg_accounts (ch_ledger (bd_chain s)) (dx_to a) = Some t"
      "ta_mint t = md_mint md" "ta_owner t = dx_authority a"
    and "bd_lamports s (dx_claim_status a) = 0" "0 < bx_minimum_balance bx CLAIM_STATUS_LEN"
      "bx_system_transfer bx (dx_payer a) (dx_claim_status a) (bx_minimum_balance bx CLAIM_STATUS_LEN) (bd_lamports s) = Inr lamports"
  shows "claim_dfx bx cx a amount proof s = Inr (s\<lparr>bd_chain := c', bd_lamports := lamports\<rparr>)"
proof -
  obtain authority bump where auth: "bad_debt_authority bx = (authority, bump)" by force
  have seeds: "create_program_address (bx_env bx) [BAD_DEBT_SEED, [bump]] (bx_id bx) = Some authority"
    using assms(2) auth unfolding pda_law_def bad_debt_authority_def by (metis append_Cons append_Nil)
  have "check_claim_dfx bx cx a s = Inr bump"
    using assms(3-13) auth by (simp add: check_claim_dfx_def require_signer_def load_distributor_def load_token_def)
  moreover have "saturating_sub (bx_minimum_balance bx CLAIM_STATUS_LEN) (bd_lamports s (dx_claim_status a))
      = bx_minimum_balance bx CLAIM_STATUS_LEN"
    using assms(14) by (simp add: saturating_sub_def)
  ultimately show ?thesis using assms(1,3,15,16) auth seeds by (simp add: claim_dfx_def)
qed

text \<open>What the script does once it has picked an entry for the distributor \<open>d\<close> and the mint \<open>m\<close>.\<close>

lemma claim_main_entry:
  assumes "parseCommon sx v = Inr cc" "given (pv_api_url v)" "sx_reachable sx"
    and "fetchEligibility sx (the (pv_api_url v)) (cc_badDebtAuthority cc) (pv_api_user v) (pv_api_password v) = Inr [r]"
      "pv_mint v = None \<or> pv_mint v = Some (er_mint r)"
    and "sx_parse sx (er_merkle_tree r) = Some d" "sx_parse sx (er_mint r) = Some m"
      "Ts_Sdk.u64_arg (sx_bn sx (er_end_amount r)) = Inr amount" "env = bx_env (cc_program cc)"
  shows "claim_main sx v s =
    (if has_account s (script_claim_status env (cc_badDebtAuthority cc) d) then Inr s
     else run_tx sx (cc_program cc) ((sx_ctx sx)\<lparr>cx_signers := [cc_keypair cc]\<rparr>)
       [CreateAtaIdempotent (cc_keypair cc) (associated_token_address env (cc_badDebtAuthority cc) m) (cc_badDebtAuthority cc) m,
        BadDebtIx (ClaimDfx
          \<lparr>dx_payer = cc_keypair cc, dx_distributor = d,
           dx_claim_status = script_claim_status env (cc_badDebtAuthority cc) d, dx_from = associated_token_address env d m,
           dx_to = associated_token_address env (cc_badDebtAuthority cc) m, dx_authority = cc_badDebtAuthority cc,
           dx_distributor_program = MERKLE_DISTRIBUTOR_PROGRAM_ID env, dx_token_program = token_program_id env,
           dx_system_program = system_program_id env\<rparr> amount (er_proof r))] s)"
  using assms select_single [OF assms(5)] by (simp add: claim_main_def Let_def sendAndConfirmTransaction_def)

text \<open>Lamports sent to the address of the claim record before the claim make the script believe that the claim was made.\<close>

lemma donation_stops_the_script:
  assumes "parseCommon sx v = Inr cc" "given (pv_api_url v)" "sx_reachable sx"
    and "fetchEligibility sx (the (pv_api_url v)) (cc_badDebtAuthority cc) (pv_api_user v) (pv_api_password v) = Inr [r]"
      "pv_mint v = None \<or> pv_mint v = Some (er_mint r)"
    and "sx_parse sx (er_merkle_tree r) = Some d" "sx_parse sx (er_mint r) = Some m"
      "Ts_Sdk.u64_arg (sx_bn sx (er_end_amount r)) = Inr amount"
    and "bd_lamports s (script_claim_status (bx_env (cc_program cc)) (cc_badDebtAuthority cc) d) \<noteq> 0"
  shows "claim_main sx v s = Inr s"
  using claim_main_entry [OF assms(1-8) refl] assms(9) by (simp add: has_account_def)

section \<open>Properties\<close>


text \<open>The world of the witness: the program of \<open>Bad_Debt\<close> as the only claimant of the distributor of \<open>Demo\<close>, with 1000 unlocked
  tokens, and a payer 7 with 5000 lamports.\<close>

definition demo_script_program :: bad_debt_env where
  "demo_script_program = demo_bad_debt\<lparr>bx_env := (bx_env demo_bad_debt)
     \<lparr>base58 := (\<lambda>s. if hd s = CHR ''p'' then Pubkey 2 else if hd s = CHR ''3'' then Pubkey 90 else Pubkey 1),
      find_program_address := (\<lambda>seeds _. (demo_seeds (seeds @ [[255]]), 255))\<rparr>\<rparr>"

abbreviation demo_script_env :: env where
  "demo_script_env \<equiv> bx_env demo_script_program"

definition demo_script_row :: tree_node where
  "demo_script_row = \<lparr>tn_claimant = Pubkey 50, tn_amount = 1000, tn_locked_amount = Some 0, tn_proof = None\<rparr>"

definition demo_script_values :: script_values where
  "demo_script_values = \<lparr>pv_keypair = Some ''payer.json'', pv_program_id = None, pv_api_url = Some ''https://api/'', pv_api_user = None,
     pv_api_password = None, pv_mint = None, pv_destination = None, pv_destination_token_account = None, pv_amount = None\<rparr>"

definition demo_script_world :: "router_state \<Rightarrow> script_env" where
  "demo_script_world st =
     \<lparr>sx_bad_debt = demo_script_program, sx_keypair = (\<lambda>_. Some (Pubkey 7)), sx_parse = demo_parse_key,
      sx_show_key = demo_show_key, sx_bn = demo_bn, sx_btoa = id,
      sx_fetch = (\<lambda>url header. fetched_from (respond EligibilityBody
        (get_eligibility demo_parse_key demo_show_key st (I64 150) (demo_show_key (Pubkey 50))))),
      sx_reachable = True, sx_token_accounts = (\<lambda>_ _. []),
      sx_create_ata = (\<lambda>owner mint l. Inr (with_ata demo_script_env owner mint l)),
      sx_ctx = demo_ctx (I64 150) (Pubkey 7)\<rparr>"

definition demo_script_state :: bad_debt_state where
  "demo_script_state = \<lparr>bd_chain = demo_created, bd_configs = (\<lambda>_. None), bd_lamports = (\<lambda>k. if k = Pubkey 7 then 5000 else 0)\<rparr>"

lemma demo_script_laws: "env_ok demo_script_env" "transfer_available demo_script_env" "pda_law demo_script_env"
proof -
  have "uses_ledger demo_script_env" by (simp add: uses_ledger_def demo_env_def demo_script_program_def demo_bad_debt_def)
  from ledger_laws [OF this] show "env_ok demo_script_env" "transfer_available demo_script_env" by (simp_all add: env_ok_def)
  show "pda_law demo_script_env"
    by (auto simp: pda_law_def demo_script_program_def demo_bad_debt_def)
qed

lemmas demo_script_defs = demo_script_program_def demo_bad_debt_def demo_seeds_def demo_script_world_def demo_script_state_def
  demo_script_values_def MERKLE_DISTRIBUTOR_PROGRAM_ID_def DEFAULT_PROGRAM_ID_def

lemma demo_script_tree:
  obtains tree n where "airdrop_new (hashv demo_script_env) [demo_script_row] 0 = Inr tree"
    "at_tree_nodes tree = [n]" "tn_claimant n = Pubkey 50" "tn_amount n = 1000" "node_locked_amount n = 0"
    "tn_proof n \<noteq> None"
    "tree_run demo_script_env tree (Pubkey 10) {(Pubkey 50, Pubkey 10)} demo_start [Call (demo_ctx (I64 50) (Pubkey 2)) demo_create] demo_created"
proof -
  obtain tree where tree: "airdrop_new (hashv demo_script_env) [demo_script_row] 0 = Inr tree"
      "built_from (hashv demo_script_env) [demo_script_row] tree"
    by (rule airdrop_new_ok [of "[demo_script_row]" "hashv demo_script_env" 0])
      (auto simp: demo_script_row_def node_total_def node_locked_amount_def)
  from tree(2) have "map tn_claimant (at_tree_nodes tree) = [Pubkey 50]"
    by (simp add: built_from_def demo_script_row_def)
  then obtain n where n: "at_tree_nodes tree = [n]" "tn_claimant n = Pubkey 50" by auto
  from tree(2) n have a: "unat (tn_amount n) = 1000" "unat (node_locked_amount n) = 0" "tn_proof n \<noteq> None"
    "unat (at_max_total_claim tree) = 1000" "unat (at_max_num_nodes tree) = 1"
    "tree_commit (hashv demo_script_env) (hashed_nodes (hashv demo_script_env) [n]) = Some (at_merkle_root tree)"
    by (auto simp: built_from_def demo_script_row_def amount_of_def locked_of_def node_total_def node_locked_amount_def)
  have root: "at_merkle_root tree = 33"
    using a(6) by (simp add: tree_commit_root tree_root.simps hashed_nodes_def hash_leaf_def demo_script_defs demo_env_def LEAF_PREFIX_def)
  have vals: "tn_amount n = 1000" "node_locked_amount n = 0" "at_max_total_claim tree = 1000" "at_max_num_nodes tree = 1"
    using a(1,2,4,5) by (simp_all add: word_unat_eq_iff)
  have "exec demo_script_env (demo_ctx (I64 50) (Pubkey 2)) demo_create demo_start = Inr demo_created"
    by (simp add: demo_defs demo_script_defs new_distributor_def check_new_distributor_def handle_new_distributor_def require_unused_def
      load_token_def load_mint_def require_signer_def require_associated_def merkle_distributor_default_def
      distributor_seeds_def admin_id_def checked_add_i64_def SECONDS_PER_DAY_def less_i64_def less_eq_i64_def ival_def
      i64_of_def)
  from run.more [OF run.start step.call [OF this]]
  have "tree_run demo_script_env tree (Pubkey 10) {(Pubkey 50, Pubkey 10)} demo_start [Call (demo_ctx (I64 50) (Pubkey 2)) demo_create] demo_created"
    using demo_script_laws(1) demo_initial root vals
    by (simp add: tree_run_def distinct_addresses_def in_books_def honest_def closes_def demo_create_def)
  with tree(1) n a(3) vals show thesis by (intro that)
qed

lemma demo_script_names:
  "demo_script_env = bx_env (sx_bad_debt (demo_script_world st))"
  "ch_ledger demo_created = ch_ledger (bd_chain demo_script_state)"
  "1000 = bx_minimum_balance (sx_bad_debt (demo_script_world st)) CLAIM_STATUS_LEN"
  "Pubkey 51 = associated_token_address demo_script_env (Pubkey 50) (md_mint (demo_distributor 0 0 0 False))"
  "Pubkey 60 = claim_status_key demo_script_env (Pubkey 50) (Pubkey 10)"
  by (simp_all add: demo_script_defs demo_defs claim_status_key_def claim_status_seeds_def)

abbreviation demo_script_common :: common_context where
  "demo_script_common \<equiv>
     \<lparr>cc_keypair = Pubkey 7, cc_program = demo_script_program, cc_badDebtAuthority = Pubkey 50, cc_config = Pubkey 80\<rparr>"

lemma demo_script_asks:
  "parseCommon (demo_script_world st) demo_script_values = Inr demo_script_common"
  "MERKLE_DISTRIBUTOR_PROGRAM_ID demo_script_env = program_id demo_script_env" "sx_reachable (demo_script_world st)"
  "given (pv_api_url demo_script_values)"
  "pv_mint demo_script_values = None \<or> pv_mint demo_script_values = Some (sx_show_key (demo_script_world st) m)"
  by (simp_all add: parseCommon_def demo_script_defs given_def demo_env_def ascii_def)

lemma demo_script_fetch:
  "sx_fetch (demo_script_world st) (eligibility_url (the (pv_api_url demo_script_values)) (sx_show_key (demo_script_world st) (Pubkey 50)))
     (authorization (sx_btoa (demo_script_world st)) (pv_api_user demo_script_values) (pv_api_password demo_script_values))
   = fetched_from (respond EligibilityBody (get_eligibility (sx_parse (demo_script_world st)) (sx_show_key (demo_script_world st)) st
       (I64 150) (sx_show_key (demo_script_world st) (Pubkey 50))))"
  "\<forall>x. sx_parse (demo_script_world st) (sx_show_key (demo_script_world st) x) = Some x"
  "\<forall>x. sx_bn (demo_script_world st) (show_u128 x) = int (unat x)"
  by (simp_all add: demo_script_world_def demo_parse_show demo_bn_show)

lemma demo_script_free:
  "ch_distributors (bd_chain demo_script_state) (Pubkey 60) = None" "ch_claim_statuses (bd_chain demo_script_state) (Pubkey 60) = None"
  "lg_accounts (ch_ledger demo_created) (Pubkey 60) = None" "lg_supply (ch_ledger demo_created) (Pubkey 60) = None"
  "Pubkey 51 \<noteq> Pubkey 60" "ata_idempotent (demo_script_world st)"
  "lg_supply (ch_ledger demo_created) (md_mint (demo_distributor 0 0 0 False)) \<noteq> None"
  by (simp_all add: demo_script_state_def demo_defs ata_idempotent_def demo_script_world_def)

lemma demo_script_accounts:
  "ch_distributors (bd_chain demo_script_state) (Pubkey 10) = Some (demo_distributor 0 0 0 False)"
  "\<forall>t. lg_accounts (ch_ledger demo_created) (Pubkey 51) = Some t \<longrightarrow> ta_owner t = Pubkey 50
     \<and> ta_mint t = md_mint (demo_distributor 0 0 0 False) \<and> unat (ta_amount t) + unat (1000 :: u64) < 2 ^ 64"
  "lg_accounts (ch_ledger demo_created) (md_token_vault (demo_distributor 0 0 0 False)) = Some (demo_account (Pubkey 10) 1000)"
  "ta_mint (demo_account (Pubkey 10) 1000) = md_mint (demo_distributor 0 0 0 False)"
  "unat (md_max_total_claim (demo_distributor 0 0 0 False))
     \<le> unat (md_total_amount_claimed (demo_distributor 0 0 0 False)) + unat (ta_amount (demo_account (Pubkey 10) 1000))"
  by (simp_all add: demo_script_state_def demo_defs)

lemma demo_script_live:
  "\<not> md_clawed_back (demo_distributor 0 0 0 False)"
  "md_enable_slot (demo_distributor 0 0 0 False) \<le> cx_slot (sx_ctx (demo_script_world st))"
  "md_start_ts (demo_distributor 0 0 0 False) \<le> cx_unix_timestamp (sx_ctx (demo_script_world st))"
  "window_fits (md_start_ts (demo_distributor 0 0 0 False)) (md_end_ts (demo_distributor 0 0 0 False))"
  by (simp_all add: demo_defs demo_script_world_def window_fits_def less_eq_i64_def ival_def)

lemma demo_script_lamports: "lamport_effect (sx_bad_debt (demo_script_world st))"
  using demo_lamports by (simp add: lamport_effect_def demo_script_world_def demo_script_program_def)

lemma demo_script_rent:
  "0 < (1000 :: u64)" "Pubkey 7 \<noteq> Pubkey 60" "bd_lamports demo_script_state (Pubkey 60) = 0"
  "bx_system_transfer (sx_bad_debt (demo_script_world st)) (Pubkey 7) (Pubkey 60) 1000 (bd_lamports demo_script_state)
     = Inr ((bd_lamports demo_script_state)(Pubkey 7 := 4000, Pubkey 60 := 1000))"
  by (simp_all add: demo_script_defs lamport_transfer_def checked_add_def)


end
