(* ===== verification/Unit_Tests.thy ===== *)
theory Unit_Tests
  imports Cli_Files
begin

text \<open>
  The unit tests the repository keeps beside its code, each as the truth value of its assertions over the model, and
  that they hold: \<^verbatim>\<open>claim_status.rs\<close>, \<^verbatim>\<open>set_root.rs\<close>, \<^verbatim>\<open>set_clawback_start_ts.rs\<close>, \<^verbatim>\<open>merkle_tree.rs\<close>,
  \<^verbatim>\<open>airdrop_merkle_tree.rs\<close>, \<^verbatim>\<open>utils.rs\<close>, \<^verbatim>\<open>csv_amount_unit.rs\<close>, \<^verbatim>\<open>process_aggregate_if_csvs.rs\<close> and \<^verbatim>\<open>router.rs\<close>.
  A call to \<^verbatim>\<open>unwrap\<close> on an error fails the test. Keys and numbers the tests draw (\<^verbatim>\<open>Pubkey::new_unique\<close>,
  \<^verbatim>\<open>rand::random\<close>) are parameters, as are the hash function, the reader of keys, the logarithm and the disk.

  Two tests are left out: \<^verbatim>\<open>test_tree_from_many\<close> compares with a recorded SHA-256 value, and
  \<^verbatim>\<open>test_csv_parsing\<close> reads a file the repository does not have.
\<close>

definition assert_err :: "program_error + 'a \<Rightarrow> error_code \<Rightarrow> bool" where
  "assert_err result expected \<longleftrightarrow> result = Inl (ErrorCode expected)"

definition is_ok :: "'e + 'a \<Rightarrow> bool" where
  "is_ok r \<longleftrightarrow> (case r of Inr _ \<Rightarrow> True | Inl _ \<Rightarrow> False)"

definition unwrapped :: "'e + 'a \<Rightarrow> ('a \<Rightarrow> bool) \<Rightarrow> bool" where
  "unwrapped r assertion \<longleftrightarrow> (case r of Inr x \<Rightarrow> assertion x | Inl _ \<Rightarrow> False)"

lemma outcome_simps [simp]:
  "is_ok (Inr x)" "\<not> is_ok (Inl e)" "unwrapped (Inr x) P = P x" "unwrapped (Inl e) P = False"
  by (simp_all add: is_ok_def unwrapped_def)

section \<open>Claim status\<close>

definition test_status :: claim_status where
  "test_status = claim_status_default\<lparr>cs_unlocked_amount := 1000000\<rparr>"

text \<open>One update of the status, whose claimed and forgone amounts are asserted; the rest of the test follows.\<close>

definition updated_to :: "int \<Rightarrow> int \<Rightarrow> int \<Rightarrow> u64 \<Rightarrow> u64 \<Rightarrow> (claim_status \<Rightarrow> bool) \<Rightarrow> claim_status \<Rightarrow> bool" where
  "updated_to current_ts start_ts end_ts claimed forgone rest cs \<longleftrightarrow>
     unwrapped (update_unlocked_amount_claimed cs (i64_of current_ts) (i64_of start_ts) (i64_of end_ts)) (\<lambda>cs'.
       cs_unlocked_amount_claimed cs' = claimed \<and> get_unlocked_amount_forgone cs' = Inr forgone \<and> rest cs')"

definition test_update_unlocked_amount_claimed :: bool where
  "test_update_unlocked_amount_claimed \<longleftrightarrow>
     update_unlocked_amount_claimed test_status (i64_of 0) (i64_of 1) (i64_of 10) = Inl (ErrorCode ClaimingIsNotStarted) \<and>
     updated_to 1 1 11 500000 500000
       (updated_to 6 1 11 750000 250000
         (updated_to 11 1 11 1000000 0
           (updated_to 12 1 11 1000000 0 (\<lambda>_. True)))) test_status"

lemmas amount_simps =
  i64_order checked_sub_i64_def i64_as_u128_def u64_as_u128_def u128_as_u64_def checked_mul_def checked_div_def
  checked_sub_def checked_add_def i64_of_def ival_def

lemma claim_status_tests: "test_update_unlocked_amount_claimed"
  by (simp add: test_update_unlocked_amount_claimed_def updated_to_def test_status_def claim_status_default_def
      update_unlocked_amount_claimed_def get_unlocked_amount_forgone_def START_CLAIM_PCT_def PCT_PRECISION_def
      Let_def amount_simps)

section \<open>A new root\<close>

definition OLD_ROOT :: bytes32 where
  "OLD_ROOT = 0x0707070707070707070707070707070707070707070707070707070707070707"

definition MAX_CLAIM :: u64 where "MAX_CLAIM = 1000000"

definition test_paused :: "env \<Rightarrow> u64 \<Rightarrow> u64 \<Rightarrow> merkle_distributor" where
  "test_paused env claimed forgone = merkle_distributor_default
     \<lparr>md_mint := DFX_MINTS env ! 0, md_root := OLD_ROOT, md_max_total_claim := MAX_CLAIM,
      md_total_amount_claimed := claimed, md_total_amount_forgone := forgone, md_enable_slot := - 1\<rparr>"

definition burns_exactly_the_decrease :: "env \<Rightarrow> bool" where
  "burns_exactly_the_decrease env \<longleftrightarrow>
     (let d = test_paused env 100 0 in
      unwrapped (validate_set_root env d (MAX_CLAIM - 100) OLD_ROOT (md_num_nodes_claimed d) 600000) (\<lambda>x. x = 400000) \<and>
      unwrapped (validate_set_root env d (MAX_CLAIM - 100) OLD_ROOT (md_num_nodes_claimed d) MAX_CLAIM) (\<lambda>x. x = 0))"

definition a_vault_donation_does_not_change_the_burn :: "env \<Rightarrow> bool" where
  "a_vault_donation_does_not_change_the_burn env \<longleftrightarrow>
     (let d = test_paused env 100 0 in
      unwrapped (validate_set_root env d (MAX_CLAIM - 100 + 1) OLD_ROOT (md_num_nodes_claimed d) 600000)
        (\<lambda>x. x = 400000))"

definition works_on_the_devnet_mint :: "env \<Rightarrow> bool" where
  "works_on_the_devnet_mint env \<longleftrightarrow>
     (let d = (test_paused env 0 0)\<lparr>md_mint := DFX_MINTS env ! 1\<rparr> in
      is_ok (validate_set_root env d MAX_CLAIM OLD_ROOT (md_num_nodes_claimed d) 1))"

definition rejects_other_mints :: "env \<Rightarrow> pubkey \<Rightarrow> bool" where
  "rejects_other_mints env new_unique \<longleftrightarrow>
     (let d = (test_paused env 0 0)\<lparr>md_mint := new_unique\<rparr> in
      assert_err (validate_set_root env d MAX_CLAIM OLD_ROOT (md_num_nodes_claimed d) 1) MintNotReRootable)"

definition rejects_clawed_back :: "env \<Rightarrow> bool" where
  "rejects_clawed_back env \<longleftrightarrow>
     (let d = (test_paused env 0 0)\<lparr>md_clawed_back := True\<rparr> in
      assert_err (validate_set_root env d MAX_CLAIM OLD_ROOT (md_num_nodes_claimed d) 1) ClawbackAlreadyClaimed)"

definition rejects_unpaused :: "env \<Rightarrow> bool" where
  "rejects_unpaused env \<longleftrightarrow>
     (let d = (test_paused env 0 0)\<lparr>md_enable_slot := 0\<rparr> in
      assert_err (validate_set_root env d MAX_CLAIM OLD_ROOT (md_num_nodes_claimed d) 1) DistributorNotPaused)"

definition rejects_stale_root :: "env \<Rightarrow> bool" where
  "rejects_stale_root env \<longleftrightarrow>
     (let d = test_paused env 0 0 in
      assert_err (validate_set_root env d MAX_CLAIM 0x0808080808080808080808080808080808080808080808080808080808080808
        (md_num_nodes_claimed d) 1) RootMismatch)"

definition rejects_a_claim_after_the_tree_was_built :: "env \<Rightarrow> bool" where
  "rejects_a_claim_after_the_tree_was_built env \<longleftrightarrow>
     (let d = (test_paused env 0 0)\<lparr>md_num_nodes_claimed := 3\<rparr> in
      assert_err (validate_set_root env d MAX_CLAIM OLD_ROOT 2 1) ClaimCountMismatch)"

definition rejects_increase :: "env \<Rightarrow> bool" where
  "rejects_increase env \<longleftrightarrow>
     (let d = test_paused env 0 0 in
      assert_err (validate_set_root env d MAX_CLAIM OLD_ROOT (md_num_nodes_claimed d) (MAX_CLAIM + 1)) MaxTotalClaimIncrease)"

definition rejects_max_below_claimed_plus_forgone :: "env \<Rightarrow> bool" where
  "rejects_max_below_claimed_plus_forgone env \<longleftrightarrow>
     (let d = test_paused env 500 100 in
      assert_err (validate_set_root env d (MAX_CLAIM - 500) OLD_ROOT (md_num_nodes_claimed d) 599) ExceededMaxClaim \<and>
      is_ok (validate_set_root env d (MAX_CLAIM - 500) OLD_ROOT (md_num_nodes_claimed d) 600))"

definition rejects_underfunded_vault :: "env \<Rightarrow> bool" where
  "rejects_underfunded_vault env \<longleftrightarrow>
     (let d = test_paused env 100 0 in
      assert_err (validate_set_root env d (MAX_CLAIM - 101) OLD_ROOT (md_num_nodes_claimed d) 600000)
        InsufficientUnlockedTokens \<and>
      assert_err (validate_set_root env d 10 OLD_ROOT (md_num_nodes_claimed d) 600000) InsufficientUnlockedTokens)"

lemmas set_root_simps =
  validate_set_root_def test_paused_def merkle_distributor_default_def DFX_MINTS_def OLD_ROOT_def MAX_CLAIM_def
  assert_err_def Let_def checked_add_def checked_sub_def

lemma set_root_tests:
  "burns_exactly_the_decrease env" "a_vault_donation_does_not_change_the_burn env" "works_on_the_devnet_mint env"
  "new_unique \<notin> set (DFX_MINTS env) \<Longrightarrow> rejects_other_mints env new_unique"
  "rejects_clawed_back env" "rejects_unpaused env" "rejects_stale_root env"
  "rejects_a_claim_after_the_tree_was_built env" "rejects_increase env"
  "rejects_max_below_claimed_plus_forgone env" "rejects_underfunded_vault env"
  by (simp_all add: burns_exactly_the_decrease_def a_vault_donation_does_not_change_the_burn_def works_on_the_devnet_mint_def
      rejects_other_mints_def rejects_clawed_back_def rejects_unpaused_def rejects_stale_root_def
      rejects_a_claim_after_the_tree_was_built_def rejects_increase_def rejects_max_below_claimed_plus_forgone_def
      rejects_underfunded_vault_def set_root_simps)

section \<open>The start of the clawback\<close>

definition NOW_TS :: int where "NOW_TS = 1800000000"

definition DAY :: int where "DAY = ival SECONDS_PER_DAY"

definition test_distributor :: "i64 \<Rightarrow> bool \<Rightarrow> merkle_distributor" where
  "test_distributor end_ts clawed_back = merkle_distributor_default\<lparr>md_end_ts := end_ts, md_clawed_back := clawed_back\<rparr>"

definition accepts_future_ts_a_day_after_vesting :: bool where
  "accepts_future_ts_a_day_after_vesting \<longleftrightarrow>
     (let d = test_distributor (i64_of (NOW_TS - 10)) False in
      is_ok (validate_clawback_start_ts d (i64_of (NOW_TS - 10 + DAY)) (i64_of NOW_TS)) \<and>
      is_ok (validate_clawback_start_ts d (i64_of (NOW_TS + 365 * DAY)) (i64_of NOW_TS)))"

definition rejects_clawed_back_distributor :: bool where
  "rejects_clawed_back_distributor \<longleftrightarrow>
     (let d = test_distributor (i64_of (NOW_TS - DAY * 2)) True in
      assert_err (validate_clawback_start_ts d (i64_of (NOW_TS + DAY)) (i64_of NOW_TS)) ClawbackAlreadyClaimed)"

definition rejects_past_or_current_ts :: bool where
  "rejects_past_or_current_ts \<longleftrightarrow>
     (let d = test_distributor (i64_of (NOW_TS - DAY * 2)) False in
      assert_err (validate_clawback_start_ts d (i64_of NOW_TS) (i64_of NOW_TS)) TimestampsNotInFuture)"

definition rejects_ts_within_a_day_of_vesting_end :: bool where
  "rejects_ts_within_a_day_of_vesting_end \<longleftrightarrow>
     (let d = test_distributor (i64_of NOW_TS) False in
      assert_err (validate_clawback_start_ts d (i64_of (NOW_TS + DAY - 1)) (i64_of NOW_TS)) InsufficientClawbackDelay)"

definition rejects_overflowing_vesting_end :: bool where
  "rejects_overflowing_vesting_end \<longleftrightarrow>
     (let d = test_distributor (i64_of (2 ^ 63 - 1)) False in
      assert_err (validate_clawback_start_ts d (i64_of (2 ^ 63 - 1)) (i64_of NOW_TS)) ArithmeticError)"

lemma set_clawback_start_ts_tests:
  "accepts_future_ts_a_day_after_vesting" "rejects_clawed_back_distributor" "rejects_past_or_current_ts"
  "rejects_ts_within_a_day_of_vesting_end" "rejects_overflowing_vesting_end"
  by (simp_all add: accepts_future_ts_a_day_after_vesting_def rejects_clawed_back_distributor_def
      rejects_past_or_current_ts_def rejects_ts_within_a_day_of_vesting_end_def rejects_overflowing_vesting_end_def
      test_distributor_def merkle_distributor_default_def NOW_TS_def DAY_def SECONDS_PER_DAY_def
      validate_clawback_start_ts_def assert_err_def Let_def checked_add_i64_def i64_order)

section \<open>The Merkle tree\<close>

definition TEST_ITEMS :: "u8 list list" where
  "TEST_ITEMS = map ascii [''my'', ''very'', ''eager'', ''mother'', ''just'', ''served'', ''us'', ''nine'', ''pizzas'',
     ''make'', ''prime'']"

definition BAD_ITEMS :: "u8 list list" where
  "BAD_ITEMS = map ascii [''bad'', ''missing'', ''false'']"

definition test_tree_from_empty :: "hash_fn \<Rightarrow> bool" where
  "test_tree_from_empty h \<longleftrightarrow> map_option get_root (mt_new h [] False) = Some None"

definition test_tree_from_one :: "hash_fn \<Rightarrow> bool" where
  "test_tree_from_one h \<longleftrightarrow>
     map_option get_root (mt_new h [ascii ''test''] False) = Some (Some (hash_leaf h (ascii ''test'')))"

text \<open>The path of a leaf is there (the inner \<^verbatim>\<open>unwrap\<close>), and what is asserted of it.\<close>

definition path_asserted :: "merkle_tree option \<Rightarrow> nat \<Rightarrow> (proof_entry list \<Rightarrow> bool) \<Rightarrow> bool" where
  "path_asserted mt i assertion \<longleftrightarrow>
     (case Option.bind mt (\<lambda>t. find_path t i) of Some (Some path) \<Rightarrow> assertion path | _ \<Rightarrow> False)"

definition test_path_creation :: "hash_fn \<Rightarrow> bool" where
  "test_path_creation h \<longleftrightarrow>
     list_all (\<lambda>i. path_asserted (mt_new h TEST_ITEMS False) i (\<lambda>_. True)) [0..<length TEST_ITEMS]"

definition test_path_creation_bad_index :: "hash_fn \<Rightarrow> bool" where
  "test_path_creation_bad_index h \<longleftrightarrow>
     Option.bind (mt_new h TEST_ITEMS False) (\<lambda>t. find_path t (length TEST_ITEMS)) = Some None"

definition test_path_verify_good :: "hash_fn \<Rightarrow> bool" where
  "test_path_verify_good h \<longleftrightarrow>
     list_all (\<lambda>(i, s). path_asserted (mt_new h TEST_ITEMS False) i (\<lambda>path. proof_verify h path (hash_leaf h s)))
       (enumerate 0 TEST_ITEMS)"

definition test_path_verify_bad :: "hash_fn \<Rightarrow> bool" where
  "test_path_verify_bad h \<longleftrightarrow>
     list_all (\<lambda>(i, s). path_asserted (mt_new h TEST_ITEMS False) i (\<lambda>path. \<not> proof_verify h path (hash_leaf h s)))
       (enumerate 0 BAD_ITEMS)"

definition test_proof_entry_instantiation_lsib_set :: bool where
  "test_proof_entry_instantiation_lsib_set \<longleftrightarrow> proof_entry_new 0 (Some 0) None \<noteq> None"

definition test_proof_entry_instantiation_rsib_set :: bool where
  "test_proof_entry_instantiation_rsib_set \<longleftrightarrow> proof_entry_new 0 None (Some 0) \<noteq> None"

definition test_proof_entry_instantiation_both_clear :: bool where
  "test_proof_entry_instantiation_both_clear \<longleftrightarrow> proof_entry_new 0 None None = None"

definition test_proof_entry_instantiation_both_set :: bool where
  "test_proof_entry_instantiation_both_set \<longleftrightarrow> proof_entry_new 0 (Some 0) (Some 0) = None"

function iteration_count :: "nat \<Rightarrow> nat \<Rightarrow> nat" where
  "iteration_count capacity leaf_count =
     (if 0 < leaf_count then iteration_count (capacity + leaf_count) (next_level_len leaf_count) else capacity)"
  by pat_completeness auto
termination by (relation "measure (\<lambda>(capacity, leaf_count). leaf_count)") (auto simp: next_level_len_less)

declare iteration_count.simps [simp del]

definition test_nodes_capacity_compute :: "(nat \<Rightarrow> nat) \<Rightarrow> bool" where
  "test_nodes_capacity_compute log2_raw \<longleftrightarrow>
     list_all (\<lambda>leaf_count. iteration_count 0 leaf_count \<le> calculate_vec_capacity log2_raw leaf_count) [0..<65536]"

text \<open>The count of the test is the number of nodes of a tree, so the capacity is never below it, whatever the range.\<close>

lemma iteration_count_levels: "iteration_count c (length xs) = c + length (concat (levels f xs))"
proof (induction f xs arbitrary: c rule: levels.induct)
  case (1 f xs)
  show ?case
  proof (cases "length xs \<le> 1")
    case True
    then show ?thesis
      by (cases xs) (simp_all add: levels.simps [of f] iteration_count.simps next_level_len_def)
  next
    case False
    have "next_level_len (length xs) = length (parents f xs)" using False by (simp add: next_level_len_def)
    with 1 [OF False, of "c + length xs"] False show ?thesis
      by (subst levels.simps, subst iteration_count.simps) (auto simp del: length_parents)
  qed
qed

lemma iteration_count_fits:
  assumes "log2_close log2_raw"
  shows "iteration_count 0 n \<le> calculate_vec_capacity log2_raw n"
proof -
  let ?h = "\<lambda>_. 0 :: bytes32"
  let ?items = "replicate n [] :: u8 list list"
  obtain mt where mt: "mt_new ?h ?items True = Some mt" using mt_new_total by blast
  have "length (mt_nodes mt) = iteration_count 0 n"
    using mt iteration_count_levels [of 0 "map (hash_leaf ?h) ?items" "pair_hash ?h True"] by (auto simp: mt_new_levels)
  with nodes_fit_capacity [OF assms mt] show ?thesis by simp
qed

text \<open>The hash of another item fails at the first entry of a path, unless two inputs of the hash function collide.\<close>

definition first_inputs :: "hash_fn \<Rightarrow> u8 list list \<Rightarrow> nat \<times> u8 list \<Rightarrow> u8 list list list" where
  "first_inputs h items x =
     (let (i, s) = x; sib = sibling (map (hash_leaf h) items) i in
      [[LEAF_PREFIX, s], [LEAF_PREFIX, items ! i]]
      @ map (\<lambda>leaf. [INTERMEDIATE_PREFIX, be_bytes leaf, be_bytes sib]) [hash_leaf h s, hash_leaf h (items ! i)]
      @ map (\<lambda>leaf. [INTERMEDIATE_PREFIX, be_bytes sib, be_bytes leaf]) [hash_leaf h s, hash_leaf h (items ! i)])"

lemma other_item_fails:
  assumes i: "i < length items" "1 < length items" "s \<noteq> items ! i" and free: "collision_free h (first_inputs h items (i, s))"
  shows "path_asserted (mt_new h items False) i (\<lambda>path. \<not> proof_verify h path (hash_leaf h s))"
proof -
  let ?ls = "map (hash_leaf h) items"
  let ?sib = "sibling ?ls i"
  have leaf: "hash_leaf h s \<noteq> hash_leaf h (items ! i)"
    using collision_freeD [OF free, of "[LEAF_PREFIX, s]" "[LEAF_PREFIX, items ! i]"] i(3)
    by (auto simp: first_inputs_def Let_def hash_leaf_def)
  have pair: "hash_intermediate h (hash_leaf h s) ?sib \<noteq> hash_intermediate h (hash_leaf h (items ! i)) ?sib"
    "hash_intermediate h ?sib (hash_leaf h s) \<noteq> hash_intermediate h ?sib (hash_leaf h (items ! i))"
    using leaf collision_freeD [OF free, of "[INTERMEDIATE_PREFIX, be_bytes (hash_leaf h s), be_bytes ?sib]"
        "[INTERMEDIATE_PREFIX, be_bytes (hash_leaf h (items ! i)), be_bytes ?sib]"]
      collision_freeD [OF free, of "[INTERMEDIATE_PREFIX, be_bytes ?sib, be_bytes (hash_leaf h s)]"
        "[INTERMEDIATE_PREFIX, be_bytes ?sib, be_bytes (hash_leaf h (items ! i))]"]
    by (auto simp: first_inputs_def Let_def hash_intermediate_def append_eq_append_conv)
  obtain mt where mt: "mt_new h items False = Some mt" using mt_new_total by blast
  have "\<not> proof_verify h (path_entries (pair_hash h False) ?ls i) (hash_leaf h s)"
    using i(1,2) pair parents_nth_pair [of i ?ls "pair_hash h False"]
    by (subst path_entries.simps) (auto simp: proof_verify_def pair_hash_def Let_def)
  then show ?thesis using mt find_path_mt_new [OF mt i(1)] by (simp add: path_asserted_def)
qed

lemma item_verifies:
  assumes "i < length items"
  shows "path_asserted (mt_new h items False) i (\<lambda>path. proof_verify h path (hash_leaf h (items ! i)))"
proof -
  obtain mt where mt: "mt_new h items False = Some mt" using mt_new_total by blast
  then show ?thesis
    using assms find_path_mt_new [OF mt assms] proof_verify_fold_entries [of i "map (hash_leaf h) items" h]
    by (simp add: path_asserted_def proof_verify_def)
qed

lemma path_asserted_mono: "path_asserted mt i P \<Longrightarrow> (\<And>path. P path \<Longrightarrow> Q path) \<Longrightarrow> path_asserted mt i Q"
  by (auto simp: path_asserted_def split: option.splits)

lemma merkle_tree_tests:
  "test_tree_from_empty h" "test_tree_from_one h" "test_path_creation h" "test_path_creation_bad_index h"
  "test_path_verify_good h"
  "test_proof_entry_instantiation_lsib_set" "test_proof_entry_instantiation_rsib_set"
  "test_proof_entry_instantiation_both_clear" "test_proof_entry_instantiation_both_set"
  "log2_close log2_raw \<Longrightarrow> test_nodes_capacity_compute log2_raw"
proof -
  show "test_path_verify_good h"
    unfolding test_path_verify_good_def list_all_iff by (auto simp: in_set_enumerate_eq item_verifies)
  show "test_path_creation h"
    unfolding test_path_creation_def list_all_iff by (auto intro: path_asserted_mono [OF item_verifies])
  show "log2_close log2_raw \<Longrightarrow> test_nodes_capacity_compute log2_raw"
    unfolding test_nodes_capacity_compute_def list_all_iff by (blast intro: iteration_count_fits)
qed (simp_all add: test_tree_from_empty_def test_tree_from_one_def test_path_creation_bad_index_def
    test_proof_entry_instantiation_lsib_set_def test_proof_entry_instantiation_rsib_set_def
    test_proof_entry_instantiation_both_clear_def test_proof_entry_instantiation_both_set_def proof_entry_new_def
    mt_new_levels levels.simps get_root_def find_path_def)

lemma path_verify_bad_test:
  assumes "\<forall>x \<in> set (enumerate 0 BAD_ITEMS). collision_free h (first_inputs h TEST_ITEMS x)"
  shows "test_path_verify_bad h"
proof -
  have "s \<noteq> TEST_ITEMS ! i \<and> i < length TEST_ITEMS \<and> 1 < length TEST_ITEMS" if "(i, s) \<in> set (enumerate 0 BAD_ITEMS)" for i s
    using that by (auto simp: BAD_ITEMS_def TEST_ITEMS_def ascii_def)
  with assms show ?thesis unfolding test_path_verify_bad_def list_all_iff by (auto intro!: other_item_fails)
qed

section \<open>Amounts and entries\<close>

definition cents_matches_ui_scaling_for_six_decimals :: bool where
  "cents_matches_ui_scaling_for_six_decimals \<longleftrightarrow> unwrapped (csv_amount_to_base_units 8255 6 Cents) (\<lambda>base. base = 82550000)"

definition tokens_default_scaling :: bool where
  "tokens_default_scaling \<longleftrightarrow> unwrapped (csv_amount_to_base_units 82 6 Tokens) (\<lambda>base. base = 82000000)"

definition cents_requires_two_decimal_places :: bool where
  "cents_requires_two_decimal_places \<longleftrightarrow> \<not> is_ok (csv_amount_to_base_units 1 1 Cents)"

definition create_node :: "pubkey \<Rightarrow> u64 \<Rightarrow> u64 \<Rightarrow> tree_node" where
  "create_node claimant amount locked_amount =
     \<lparr>tn_claimant = claimant, tn_amount = amount, tn_locked_amount = Some locked_amount, tn_proof = None\<rparr>"

definition test_get_max_total_claim_no_overflow :: "(nat \<Rightarrow> pubkey) \<Rightarrow> bool" where
  "test_get_max_total_claim_no_overflow new_unique \<longleftrightarrow>
     get_max_total_claim [create_node (new_unique 0) 100 0, create_node (new_unique 1) 300 0] = Inr 400"

lemma amount_tests:
  "cents_matches_ui_scaling_for_six_decimals" "tokens_default_scaling" "cents_requires_two_decimal_places"
  "test_get_max_total_claim_no_overflow new_unique"
  by (simp_all add: cents_matches_ui_scaling_for_six_decimals_def tokens_default_scaling_def
      cents_requires_two_decimal_places_def csv_amount_to_base_units_def checked_pow_def checked_mul_def
      test_get_max_total_claim_no_overflow_def create_node_def get_max_total_claim_def total_amount_def checked_add_def)

section \<open>Airdrop trees\<close>

definition rand_balance :: "u64 \<Rightarrow> u64" where
  "rand_balance random = random mod 100 * 10 ^ 9"

definition test_nodes :: "(nat \<Rightarrow> pubkey) \<Rightarrow> (nat \<Rightarrow> u64) \<Rightarrow> nat \<Rightarrow> tree_node list" where
  "test_nodes new_unique random num_nodes =
     map (\<lambda>i. create_node (new_unique i) (rand_balance (random (2 * i))) (rand_balance (random (2 * i + 1)))) [0..<num_nodes]"

definition new_test_merkle_tree ::
  "hash_fn \<Rightarrow> (nat \<Rightarrow> pubkey) \<Rightarrow> (nat \<Rightarrow> u64) \<Rightarrow> nat \<Rightarrow> string \<Rightarrow> u64 \<Rightarrow> disk \<Rightarrow> disk option" where
  "new_test_merkle_tree h new_unique random num_nodes path airdrop_version d =
     (case airdrop_new h (test_nodes new_unique random num_nodes) airdrop_version of
        Inl _ \<Rightarrow> None
      | Inr merkle_tree \<Rightarrow> write_to_file merkle_tree path d)"

definition test_verify_new_merkle_tree :: "hash_fn \<Rightarrow> bool" where
  "test_verify_new_merkle_tree h \<longleftrightarrow>
     unwrapped (airdrop_new h [create_node (Pubkey 0) 2 0] 0) (\<lambda>merkle_tree. is_ok (verify_proof h merkle_tree))"

text \<open>The file is written, read and removed again.\<close>

definition file_keys :: "string list" where
  "file_keys = [''FLYqJsmJ5AGMxMxK3Qy1rSen4ES2dqqo6h51W3C1tYS'', ''EDGARWktv3nDxRYjufjdbZmryqGXceaFPoPpbUzdpqED'',
     ''EDGARWktv3nDxRYjufjdbZmryqGXceaFPoPpbUzdpqEH'']"

definition test_write_merkle_distributor_to_file :: "hash_fn \<Rightarrow> (string \<Rightarrow> pubkey) \<Rightarrow> string \<Rightarrow> disk \<Rightarrow> bool" where
  "test_write_merkle_distributor_to_file h key path d \<longleftrightarrow>
     unwrapped (airdrop_new h [create_node (key (file_keys ! 0)) (100 * 10 ^ 9) 0,
         create_node (key (file_keys ! 1)) (100 * 10 ^ 9) 0, create_node (key (file_keys ! 2)) (100 * 10 ^ 9) 1] 0)
       (\<lambda>merkle_distributor_info.
     case write_to_file merkle_distributor_info path d of None \<Rightarrow> False | Some d' \<Rightarrow>
     unwrapped (new_from_file path d') (\<lambda>merkle_distributor_read.
       length (at_tree_nodes merkle_distributor_read) = 3 \<and> map_of d' path \<noteq> None))"

definition test_new_test_merkle_tree :: "hash_fn \<Rightarrow> (nat \<Rightarrow> pubkey) \<Rightarrow> (nat \<Rightarrow> u64) \<Rightarrow> string \<Rightarrow> disk \<Rightarrow> bool" where
  "test_new_test_merkle_tree h new_unique random path d \<longleftrightarrow>
     (case new_test_merkle_tree h new_unique random 100 path 0 d of None \<Rightarrow> False | Some d' \<Rightarrow> map_of d' path \<noteq> None)"

definition test_new_merkle_tree_duplicate_claimants :: "hash_fn \<Rightarrow> (nat \<Rightarrow> pubkey) \<Rightarrow> bool" where
  "test_new_merkle_tree_duplicate_claimants h new_unique \<longleftrightarrow>
     unwrapped (airdrop_new h [create_node (new_unique 0) 10 10, create_node (new_unique 0) 1 10,
         create_node (new_unique 1) 0 10] 0) (\<lambda>tree.
       length (at_tree_nodes tree) = 2 \<and> tn_amount (at_tree_nodes tree ! 0) = 11 \<and>
       tn_locked_amount (at_tree_nodes tree ! 0) = Some 20)"

lemma node_total_create_node: "node_total (create_node c a l) = unat a + unat l"
  by (simp add: create_node_def node_total_def node_locked_amount_def)

lemma claimant_create_node [simp]: "tn_claimant (create_node c a l) = c"
  by (simp add: create_node_def)

lemma rand_balance_bound: "unat (rand_balance r) \<le> 99 * 10 ^ 9"
proof -
  have "unat (r mod 100) \<le> 99" by (simp add: unat_mod)
  then show ?thesis by (simp add: rand_balance_def unat_word_ariths)
qed

lemma writable: "is_dir d (parent_of p) \<Longrightarrow> \<not> is_dir d p \<Longrightarrow> \<exists>d'. write_to_file t p d = Some d'"
  by (simp add: write_to_file_def write_path_def)

lemma written: "write_to_file t p d = Some d' \<Longrightarrow> map_of d' p = Some (Tree_file t)"
  by (simp add: write_to_file_def map_of_write)

lemma verify_new_test: "test_verify_new_merkle_tree h"
proof -
  let ?rows = "[create_node (Pubkey 0) 2 0]"
  obtain tree where tree: "airdrop_new h ?rows 0 = Inr tree"
    by (rule airdrop_new_ok [of ?rows h 0]) (auto simp: node_total_create_node)
  then have "validate h tree = Inr ()" by (auto simp: airdrop_new_def Let_def ok_iff)
  then have "is_ok (verify_proof h tree)"
    by (auto simp: validate_def ok_iff split: sum.splits failure.splits)
  with tree show ?thesis by (simp add: test_verify_new_merkle_tree_def)
qed

lemma built_length:
  assumes "built_from h rows tree"
  shows "length (at_tree_nodes tree) = card (tn_claimant ` set rows)"
proof -
  have "length (at_tree_nodes tree) = length (first_seen (map tn_claimant rows))"
    using assms unfolding built_from_def by (metis length_map)
  then show ?thesis by (simp add: first_seen_def length_remdups_card_conv)
qed

lemma write_and_read_test:
  assumes "is_dir d (parent_of path)" "\<not> is_dir d path" "distinct (map key file_keys)"
  shows "test_write_merkle_distributor_to_file h key path d"
proof -
  let ?rows = "[create_node (key (file_keys ! 0)) (100 * 10 ^ 9) 0, create_node (key (file_keys ! 1)) (100 * 10 ^ 9) 0,
     create_node (key (file_keys ! 2)) (100 * 10 ^ 9) 1]"
  have card: "card (tn_claimant ` set ?rows) = 3" using assms(3) by (simp add: file_keys_def)
  obtain tree where tree: "airdrop_new h ?rows 0 = Inr tree" "built_from h ?rows tree"
    by (rule airdrop_new_ok [of ?rows h 0]) (use card in \<open>simp_all add: node_total_create_node\<close>)
  obtain d' where d': "write_to_file tree path d = Some d'" using writable [OF assms(1,2)] by blast
  have "length (at_tree_nodes tree) = 3" using built_length [OF tree(2)] card by simp
  then show ?thesis
    unfolding test_write_merkle_distributor_to_file_def tree(1)
    by (simp add: d' new_from_written_file [OF d'] written [OF d'])
qed

lemma sum_test_nodes: "sum_total (test_nodes new_unique random n) \<le> n * (198 * 10 ^ 9)"
proof (induction n)
  case (Suc n)
  have "node_total (create_node c (rand_balance x) (rand_balance y)) \<le> 198 * 10 ^ 9" for c x y
    using rand_balance_bound [of x] rand_balance_bound [of y] by (simp add: node_total_create_node)
  with Suc show ?case by (simp add: test_nodes_def add_mono add.commute)
qed (simp add: test_nodes_def)

lemma new_test_tree_test:
  assumes "is_dir d (parent_of path)" "\<not> is_dir d path"
  shows "test_new_test_merkle_tree h new_unique random path d"
proof -
  let ?rows = "test_nodes new_unique random 100"
  have "length ?rows = 100" by (simp add: test_nodes_def)
  then have rows: "?rows \<noteq> []" "card (tn_claimant ` set ?rows) < 2 ^ 32"
    using card_length [of "map tn_claimant ?rows"] by auto
  have "sum_total ?rows < 2 ^ 64" using sum_test_nodes [of new_unique random 100] by simp
  with rows obtain tree where tree: "airdrop_new h ?rows 0 = Inr tree" using airdrop_new_ok by blast
  obtain d' where d': "write_to_file tree path d = Some d'" using writable [OF assms] by blast
  show ?thesis using written [OF d'] by (simp add: test_new_test_merkle_tree_def new_test_merkle_tree_def tree d')
qed

lemma duplicate_claimants_test:
  assumes "new_unique 0 \<noteq> new_unique 1"
  shows "test_new_merkle_tree_duplicate_claimants h new_unique"
proof -
  let ?rows = "[create_node (new_unique 0) 10 10, create_node (new_unique 0) 1 10, create_node (new_unique 1) 0 10]"
  let ?m = "[create_node (new_unique 0) 11 20, create_node (new_unique 1) 0 10]"
  have m: "combine_nodes [] ?rows = Inr ?m"
    using assms by (simp add: create_node_def combine_node_def combine_locked_def checked_add_def)
  obtain tree where tree: "airdrop_new h ?rows 0 = Inr tree"
    by (rule airdrop_new_ok [of ?rows h 0]) (use assms in \<open>auto simp: node_total_create_node\<close>)
  obtain proofs root where "airdrop_new h ?rows 0 = (if sum_total ?m < 2 ^ 64
      then and_then (validate h (candidate_tree proofs root 0 ?m)) (\<lambda>_. Inr (candidate_tree proofs root 0 ?m))
      else Inl Panicked)"
    by (rule airdrop_new_combined [OF m, of h 0]) auto
  with tree have "tree = candidate_tree proofs root 0 ?m"
    by (cases "validate h (candidate_tree proofs root 0 ?m)") (simp_all split: if_splits)
  with tree show ?thesis
    by (simp add: test_new_merkle_tree_duplicate_claimants_def with_proofs_Cons create_node_def)
qed

section \<open>Aggregation\<close>

definition test_market :: "u64 \<Rightarrow> string \<Rightarrow> string \<Rightarrow> if_market" where
  "test_market index symbol mint = \<lparr>im_index = index, im_symbol = symbol, im_mint = mint\<rparr>"

definition PK_A :: string where "PK_A = ''4KFhG4roRexhFqttE3KZmHrwQrxThRyg5aLcs2WRXk1F''"

definition PK_B :: string where "PK_B = ''FLYqJsmJ5AGMxMxK3Qy1rSen4ES2dqqo6h51W3C1tYS''"

definition test_entry :: "string \<Rightarrow> u64 \<Rightarrow> u64 \<Rightarrow> csv_entry" where
  "test_entry pubkey amount locked = \<lparr>ce_pubkey = pubkey, ce_amount = amount, ce_locked_amount = Some locked\<rparr>"

definition sums_amount_and_locked_across_same_mint_markets :: "(string \<Rightarrow> pubkey option) \<Rightarrow> bool" where
  "sums_amount_and_locked_across_same_mint_markets parse \<longleftrightarrow>
     unwrapped (aggregate_if_entries parse
       [(test_market 0 ''USDC'' ''MINT_USDC'', [test_entry PK_A 100 5]),
        (test_market 10 ''USDC'' ''MINT_USDC'', [test_entry PK_A 250 7])]) (\<lambda>merged.
       length merged = 1 \<and> mm_mint (merged ! 0) = ''MINT_USDC'' \<and> mm_index (merged ! 0) = 0 \<and>
       mm_source_markets (merged ! 0) = [0, 10] \<and> length (mm_entries (merged ! 0)) = 1 \<and>
       ce_amount (mm_entries (merged ! 0) ! 0) = 350 \<and> ce_locked_amount (mm_entries (merged ! 0) ! 0) = Some 12)"

definition keeps_distinct_mints_separate :: "(string \<Rightarrow> pubkey option) \<Rightarrow> bool" where
  "keeps_distinct_mints_separate parse \<longleftrightarrow>
     unwrapped (aggregate_if_entries parse
       [(test_market 0 ''USDC'' ''MINT_USDC'', [test_entry PK_A 100 0]),
        (test_market 1 ''SOL'' ''MINT_SOL'', [test_entry PK_A 200 0])]) (\<lambda>merged.
       length merged = 2 \<and>
       (case (find (\<lambda>m. mm_mint m = ''MINT_USDC'') merged, find (\<lambda>m. mm_mint m = ''MINT_SOL'') merged) of
          (Some usdc, Some sol) \<Rightarrow> ce_amount (mm_entries usdc ! 0) = 100 \<and> ce_amount (mm_entries sol ! 0) = 200
        | _ \<Rightarrow> False))"

definition treats_none_locked_as_zero :: "(string \<Rightarrow> pubkey option) \<Rightarrow> bool" where
  "treats_none_locked_as_zero parse \<longleftrightarrow>
     unwrapped (aggregate_if_entries parse
       [(test_market 0 ''USDC'' ''MINT_USDC'', [\<lparr>ce_pubkey = PK_A, ce_amount = 100, ce_locked_amount = None\<rparr>])])
       (\<lambda>merged. ce_locked_amount (mm_entries (merged ! 0) ! 0) = Some 0)"

definition output_is_sorted_by_pubkey_and_deduped :: "(string \<Rightarrow> pubkey option) \<Rightarrow> bool" where
  "output_is_sorted_by_pubkey_and_deduped parse \<longleftrightarrow>
     unwrapped (aggregate_if_entries parse
       [(test_market 0 ''USDC'' ''MINT_USDC'', [test_entry PK_B 1 0, test_entry PK_A 2 0, test_entry PK_A 3 0])]) (\<lambda>merged.
       map ce_pubkey (mm_entries (merged ! 0)) = [PK_A, PK_B] \<and> ce_amount (mm_entries (merged ! 0) ! 0) = 5)"

definition rejects_invalid_pubkey :: "(string \<Rightarrow> pubkey option) \<Rightarrow> bool" where
  "rejects_invalid_pubkey parse \<longleftrightarrow>
     \<not> is_ok (aggregate_if_entries parse [(test_market 0 ''USDC'' ''MINT_USDC'', [test_entry ''not-a-key'' 1 0])])"

definition errors_on_amount_overflow :: "(string \<Rightarrow> pubkey option) \<Rightarrow> bool" where
  "errors_on_amount_overflow parse \<longleftrightarrow>
     \<not> is_ok (aggregate_if_entries parse
       [(test_market 0 ''USDC'' ''MINT_USDC'', [test_entry PK_A (- 1) 0]),
        (test_market 10 ''USDC'' ''MINT_USDC'', [test_entry PK_A 1 0])])"

lemmas aggregate_simps =
  aggregate_if_entries_def test_market_def test_entry_def sums_of_def group_of_def checked_add_def locked_or_zero_def
  lower_index_def merge_group_def insort_key_def

lemma mints_order: "''MINT_SOL'' < (''MINT_USDC'' :: string)" by (simp add: less_char_def)

lemma keys_order: "PK_A < PK_B" by (simp add: PK_A_def PK_B_def less_char_def)

lemma aggregate_tests:
  assumes "parse PK_A \<noteq> None"
  shows "sums_amount_and_locked_across_same_mint_markets parse" "keeps_distinct_mints_separate parse"
    "treats_none_locked_as_zero parse" "errors_on_amount_overflow parse"
    "parse PK_B \<noteq> None \<Longrightarrow> output_is_sorted_by_pubkey_and_deduped parse"
    "parse ''not-a-key'' = None \<Longrightarrow> rejects_invalid_pubkey parse"
  using assms keys_order mints_order
  by (simp_all add: sums_amount_and_locked_across_same_mint_markets_def keeps_distinct_mints_separate_def
      treats_none_locked_as_zero_def errors_on_amount_overflow_def output_is_sorted_by_pubkey_and_deduped_def
      rejects_invalid_pubkey_def aggregate_simps unsigned_minus_1_eq_mask mask_eq_exp_minus_1)

section \<open>The server's calculators\<close>

definition test_calculate_claimable_amount_before_start :: bool where
  "test_calculate_claimable_amount_before_start \<longleftrightarrow>
     calculate_claimable_amount_for_new_user 1000000 (i64_of 0) (i64_of 10) (i64_of 100) 50 = Some 0"

definition test_calculate_claimable_amount_at_start :: bool where
  "test_calculate_claimable_amount_at_start \<longleftrightarrow>
     calculate_claimable_amount_for_new_user 1000000 (i64_of 10) (i64_of 10) (i64_of 100) 50 = Some 500000"

definition test_calculate_claimable_amount_halfway :: bool where
  "test_calculate_claimable_amount_halfway \<longleftrightarrow>
     calculate_claimable_amount_for_new_user 1000000 (i64_of 55) (i64_of 10) (i64_of 100) 50 = Some 750000"

definition test_calculate_claimable_amount_at_end :: bool where
  "test_calculate_claimable_amount_at_end \<longleftrightarrow>
     calculate_claimable_amount_for_new_user 1000000 (i64_of 100) (i64_of 10) (i64_of 100) 50 = Some 1000000"

definition test_calculate_claimable_amount_after_end :: bool where
  "test_calculate_claimable_amount_after_end \<longleftrightarrow>
     calculate_claimable_amount_for_new_user 1000000 (i64_of 200) (i64_of 10) (i64_of 100) 50 = Some 1000000"

definition test_calculate_claimable_amount_zero_duration :: bool where
  "test_calculate_claimable_amount_zero_duration \<longleftrightarrow>
     calculate_claimable_amount_for_new_user 1000000 (i64_of 10) (i64_of 10) (i64_of 10) 50 = Some 1000000"

definition test_calculate_locked_amount_claimable :: bool where
  "test_calculate_locked_amount_claimable \<longleftrightarrow>
     calculate_locked_amount_claimable 1000000 (i64_of 0) (i64_of 10) (i64_of 100) = Some 0 \<and>
     calculate_locked_amount_claimable 1000000 (i64_of 10) (i64_of 10) (i64_of 100) = Some 0 \<and>
     calculate_locked_amount_claimable 1000000 (i64_of 55) (i64_of 10) (i64_of 100) = Some 500000 \<and>
     calculate_locked_amount_claimable 1000000 (i64_of 100) (i64_of 10) (i64_of 100) = Some 1000000"

definition test_user_case_locked_amount :: bool where
  "test_user_case_locked_amount \<longleftrightarrow>
     calculate_locked_amount_claimable 750000000 (i64_of 1750149143) (i64_of 1723809600) (i64_of 1747396800) = Some 750000000"

lemma router_tests:
  "test_calculate_claimable_amount_before_start" "test_calculate_claimable_amount_at_start"
  "test_calculate_claimable_amount_halfway" "test_calculate_claimable_amount_at_end"
  "test_calculate_claimable_amount_after_end" "test_calculate_claimable_amount_zero_duration"
  "test_calculate_locked_amount_claimable" "test_user_case_locked_amount"
  by (simp_all add: test_calculate_claimable_amount_before_start_def test_calculate_claimable_amount_at_start_def
      test_calculate_claimable_amount_halfway_def test_calculate_claimable_amount_at_end_def
      test_calculate_claimable_amount_after_end_def test_calculate_claimable_amount_zero_duration_def
      test_calculate_locked_amount_claimable_def test_user_case_locked_amount_def
      calculate_claimable_amount_for_new_user_def calculate_locked_amount_claimable_def
      START_AMOUNT_PCT_PRECISION_def START_AMOUNT_PCT_DENOM_def Let_def amount_simps)

end
