(* ===== verification/Spec2Isabelle.thy ===== *)
theory Spec2Isabelle
  imports Token_Burner Csv_Prep Deploy_Scripts Bad_Debt_Scripts Unit_Tests
begin

text \<open>
  A verification development for the multi-distributor repository: Solana programs that pay out airdrops
  against a Merkle root, the library that builds the trees, and the tools, server and client library around them.

  \<^bold>\<open>Parts and how they interact.\<close> Snapshots are turned into CSVs of claimants and amounts by Python scripts. The library
  \<^verbatim>\<open>merkle-tree\<close> reads a CSV, combines the rows of a claimant, builds the tree and a proof per claimant; the tools of
  \<^verbatim>\<open>cli\<close> split large lists, write the trees, create a distributor per tree and fund it, and shell scripts run them for each
  market of a configuration. The program
  \<^verbatim>\<open>merkle-distributor\<close> holds the root and a token vault per distributor. A claimant asks the server \<^verbatim>\<open>api\<close> for amounts
  and proof and has \<^verbatim>\<open>ts-sdk\<close> build the instruction \<^verbatim>\<open>new_claim\<close>; the program checks the proof with the code of
  \<^verbatim>\<open>verify\<close>, pays the vested share of the unlocked part, and pays the locked part over time
  (\<^verbatim>\<open>claim_locked\<close>). The admin can re-root, pause, claw back and close. \<^verbatim>\<open>token-burner\<close> burns what was clawed back to it;
  \<^verbatim>\<open>bad-debt-example\<close> is a program that is itself a claimant, with scripts of its own.

  \<^bold>\<open>Theories.\<close> Paths are under \<^verbatim>\<open>src/\<close>.
  \<^item> \<open>Prelude\<close>: machine integers with their checked operations, early returns, byte encodings. \<open>Ordered_Map\<close>: the ordered
    maps and the decimal notation of numbers of the standard library.
  \<^item> \<open>Merkle_Tree\<close>: \<^verbatim>\<open>verify/src/lib.rs\<close>, \<^verbatim>\<open>merkle-tree/src/merkle_tree.rs\<close>, \<^verbatim>\<open>utils.rs\<close>. \<open>mt_new\<close> fills the vector as the code
    does; it refines a tree of levels, on which completeness and soundness of proofs are shown (locale
    \<open>membership_proofs\<close>); the nodes fit the capacity reserved for them.
  \<^item> \<open>Airdrop_Tree\<close>: \<^verbatim>\<open>airdrop_merkle_tree.rs\<close>, \<^verbatim>\<open>tree_node.rs\<close>, \<^verbatim>\<open>csv_amount_unit.rs\<close>. \<open>built_from\<close> says what a built tree is.
  \<^item> \<open>Program_Error\<close>, \<open>Claim_Status\<close>, \<open>Runtime\<close>, \<open>Distributor\<close>: \<^verbatim>\<open>programs/merkle-distributor/src\<close>. An instruction is a check of its
    accounts (the constraints of its \<^verbatim>\<open>Accounts\<close> struct) followed by its handler, on a \<open>chain\<close>: the distributor and claim
    accounts, the token ledger and the events. \<open>exec\<close> dispatches. The schedules are specified on integers (locale
    \<open>vesting_schedule\<close>) and the 128-bit computation refines them.
  \<^item> \<open>Distributor_Effects\<close>, \<open>Distributor_Inv\<close>, \<open>Distributor_Runs\<close>, \<open>Distributor_Books\<close>: what each instruction did, runs, and the
    predicates that runs keep (locale \<open>kept_by_steps\<close>). \<open>Distributor_Props\<close>, \<open>Distributor_Live\<close>: the properties of the program.
    \<open>Demo\<close>: a concrete chain for the witnesses.
  \<^item> \<open>End_To_End\<close>: the builder and the program together. \<open>Ts_Sdk\<close>: \<^verbatim>\<open>ts-sdk/src/index.ts\<close>, and builder, server, SDK and
    program together.
  \<^item> \<open>Token_Burner\<close>: \<^verbatim>\<open>programs/token-burner\<close>. \<open>Bad_Debt\<close>: \<^verbatim>\<open>cpi-example/programs/bad-debt-example\<close>, calling the distributor.
    \<open>Bad_Debt_Scripts\<close>: \<^verbatim>\<open>cpi-example/scripts\<close>, whose transactions run against that program and which ask the server.
  \<^item> \<open>If_Aggregate\<close>, \<open>Cli_Trees\<close>, \<open>Cli_Chain\<close>, \<open>Cli_Admin\<close>, \<open>Cli_Lists\<close>, \<open>Kv_Check\<close>: the tools under
    \<^verbatim>\<open>cli/src/bin/instructions\<close>, the ones that send transactions running against \<open>exec\<close>. The tools that retry share the
    locale \<open>setting_tool\<close>.
  \<^item> \<open>Cli_Files\<close>: a disk of directories and files, and the functions that read and write them. \<open>Cli_Main\<close>: \<^verbatim>\<open>cli/src/bin/cli.rs\<close>,
    every command from its arguments to its effect on a \<open>world\<close> of chain, disk and reported numbers (\<open>cli_main\<close>); everything
    outside is a field of \<open>services\<close>. \<open>Cli_Runs\<close>: what commands do to the chain. \<open>Deploy_Scripts\<close>: the shell scripts of
    \<^verbatim>\<open>scripts/deploy-merkle-trees\<close>, with the status of each step and whether \<^verbatim>\<open>set -e\<close> is in force.
  \<^item> \<open>Api_Cache\<close>, \<open>Api_Router\<close>: \<^verbatim>\<open>api/src\<close>. \<open>Csv_Prep\<close>: the scripts of \<^verbatim>\<open>scripts/deploy-merkle-trees/csv-prep\<close>.
  \<^item> \<open>Unit_Tests\<close>: the unit tests of the repository as predicates over the model, which hold.

  \<^bold>\<open>What is shown.\<close>
  \<^item> Of the trees: every leaf has a proof that is accepted, only leaves have one unless hashed byte strings collide; the builder
    panics, fails or returns exactly as stated, with exact sums.
  \<^item> Of the program, over all runs with arbitrary other instructions and outside transfers in between: solvency, who can move
    tokens and change settings, one claim per claimant, counters that are the sums over the claim records, no payments after a
    clawback, and that claims and withdrawals that are due go through.
  \<^item> Of everything together: a distributor made from a built tree pays every claimant of the rows, by way of the server and the
    SDK too, and pays nothing but the rows' amounts.
  \<^item> Of the tools: trees that cover the CSV, funding that covers and can be repeated, creation that carries the trees over,
    retries that end, lists and payments that match their records. Every command is a run of the program signed by its key
    alone, so that what holds of runs holds of whatever the tools are used for.
  \<^item> Of the scripts: a market deployed and funded with status zero serves its CSV; \<^verbatim>\<open>deploy-if.sh\<close> does not notice when the trees
    of a market could not be made. The claim script of the example program gets it paid, once.
  \<^item> Of the server: amounts that agree with the program, proofs that are accepted, a cache that a poll brings up to date.

  \<^bold>\<open>Code outside the repository\<close> is a parameter: the hash, address derivation, the token programs and the notation of keys are
  fields of \<open>env\<close> or arguments, with what is relied on as named predicates (\<open>transfer_effect\<close>, \<open>burn_effect\<close>,
  \<open>transfer_available\<close>, \<open>pda_law\<close>), which a plain ledger meets. The hash is any function; soundness of proofs assumes
  that the byte strings actually hashed do not collide (\<open>collision_free\<close>). Answers of clusters, files read and random draws
  are arguments.

  \<^bold>\<open>Bounds and termination.\<close> Integers have their machine width throughout, and overflow is an error or a panic as in the code,
  which is built with overflow checks. There is no fuel: loops are structural recursions or come with a termination proof
  (the loops over tree levels, shards and retries with a limit); the retry loops without limit, which may not end, are partial
  functions, and that they end is shown from what makes them end.

  \<^bold>\<open>Not modelled.\<close>
  \<^item> The texts of command lines, which libraries parse, logging, priority fees and commitment levels: no effect on what is
    computed. The address given as \<^verbatim>\<open>--program-id\<close> is that of the program.
  \<^item> CSV, JSON and base 58 as texts, HTTP and its layers for load, time and tracing: libraries that the code calls. Rent and
    compute budgets of the runtime.
  \<^item> The interleaving of the server's tasks below the level of one cache update or one loaded file: updates and files take
    effect one at a time, in any order.
  \<^item> The scripts that make a token and upload its metadata, which call programs and services outside the repository; generated
    clients; the tests against a local validator; the unit tests that compare with a recorded SHA-256 value or read a file that
    is not there.
\<close>

end
